(* ===== verification/Pubsub_Prelude.thy ===== *)
theory Pubsub_Prelude
  imports Main "HOL-Library.Word" "HOL-Library.Sublist"
begin

text \<open>
  Shared vocabulary of the development: the widths of Rust's integers, \<open>Result\<close> values as
  sums with the error on the left, panics as a value of their own, and the \<open>retain\<close>
  operation of \<open>HashMap\<close>. The lemma collections below carry the component proofs.
\<close>

section \<open>Types\<close>

type_synonym u8 = "8 word"
type_synonym u64 = "64 word"
type_synonym bytes = "8 word list"

text \<open>
  A Rust computation that may panic: \<open>Panic\<close> is the unwinding, \<open>Ret\<close> a normal return.
\<close>

datatype 'a outcome = Panic | Ret 'a

named_theorems result_simps \<open>case analysis of results, options and outcomes\<close>
named_theorems runtime_simps \<open>unfolding the operations of the reconnect loops\<close>
named_theorems cache_defs \<open>unfolding the operations of the caches\<close>

section \<open>Results\<close>

text \<open>The question-mark operator: stop at an error, go on with the value.\<close>

definition res_bind :: "'e + 'a \<Rightarrow> ('a \<Rightarrow> 'e + 'b) \<Rightarrow> 'e + 'b" where
  "res_bind r f = (case r of Inl e \<Rightarrow> Inl e | Inr a \<Rightarrow> f a)"

definition map_err :: "('e \<Rightarrow> 'f) \<Rightarrow> 'e + 'a \<Rightarrow> 'f + 'a" where
  "map_err g r = (case r of Inl e \<Rightarrow> Inl (g e) | Inr a \<Rightarrow> Inr a)"

definition is_ok :: "'e + 'a \<Rightarrow> bool" where
  "is_ok r = (case r of Inl _ \<Rightarrow> False | Inr _ \<Rightarrow> True)"

text \<open>\<open>Iterator::collect\<close> into a \<open>Result\<close> of a vector: the first error wins.\<close>

fun collect_results :: "('e + 'a) list \<Rightarrow> 'e + 'a list" where
  "collect_results [] = Inr []"
| "collect_results (r # rs) =
     res_bind r (\<lambda>a. res_bind (collect_results rs) (\<lambda>as. Inr (a # as)))"

section \<open>Hash maps\<close>

text \<open>
  A \<open>HashMap\<close> is the list of its entries in iteration order, which the language leaves open;
  the keys are distinct (\<open>hm_wf\<close>). \<open>retain\<close> takes a closure that may update the entry it
  keeps: \<open>None\<close> drops it; \<open>dropped\<close> are the entries it drops.
\<close>

type_synonym ('k, 'v) hash_map = "('k \<times> 'v) list"

definition hm_wf :: "('k, 'v) hash_map \<Rightarrow> bool" where
  "hm_wf m = distinct (map fst m)"

definition hm_get :: "('k, 'v) hash_map \<Rightarrow> 'k \<Rightarrow> 'v option" where
  "hm_get m k = map_of m k"

definition hm_remove :: "('k, 'v) hash_map \<Rightarrow> 'k \<Rightarrow> ('k, 'v) hash_map" where
  "hm_remove m k = filter (\<lambda>(k', _). k' \<noteq> k) m"

definition hm_insert :: "('k, 'v) hash_map \<Rightarrow> 'k \<Rightarrow> 'v \<Rightarrow> ('k, 'v) hash_map" where
  "hm_insert m k v = (k, v) # hm_remove m k"

fun retain :: "('k \<Rightarrow> 'v \<Rightarrow> 'v option) \<Rightarrow> ('k, 'v) hash_map \<Rightarrow> ('k, 'v) hash_map" where
  "retain f [] = []"
| "retain f ((k, v) # m) =
     (case f k v of None \<Rightarrow> retain f m | Some w \<Rightarrow> (k, w) # retain f m)"

definition dropped :: "('k \<Rightarrow> 'v \<Rightarrow> 'v option) \<Rightarrow> ('k, 'v) hash_map \<Rightarrow> 'v list" where
  "dropped f m = map snd (filter (\<lambda>(k, v). f k v = None) m)"

section \<open>Lemmas\<close>

lemma res_bind_Inl [simp, result_simps]: "res_bind (Inl e) f = Inl e"
  and res_bind_Inr [simp, result_simps]: "res_bind (Inr a) f = f a"
  by (simp_all add: res_bind_def)

lemma res_bind_eq_Inr:
  "res_bind r f = Inr b \<longleftrightarrow> (\<exists>a. r = Inr a \<and> f a = Inr b)"
  by (cases r) simp_all

lemma res_bind_eq_Inl:
  "res_bind r f = Inl e \<longleftrightarrow> r = Inl e \<or> (\<exists>a. r = Inr a \<and> f a = Inl e)"
  by (cases r) simp_all

lemma map_err_simps [simp, result_simps]:
  "map_err g (Inl e) = Inl (g e)" "map_err g (Inr a) = Inr a"
  by (simp_all add: map_err_def)

lemma map_err_eq_Inr [simp]: "map_err g r = Inr a \<longleftrightarrow> r = Inr a"
  by (cases r) simp_all

lemma is_ok_simps [simp, result_simps]: "\<not> is_ok (Inl e)" "is_ok (Inr a)"
  by (simp_all add: is_ok_def)

lemma is_ok_iff: "is_ok r \<longleftrightarrow> (\<exists>a. r = Inr a)"
  by (cases r) simp_all

lemma collect_results_Inr_iff:
  "collect_results rs = Inr as \<longleftrightarrow> rs = map Inr as"
  by (induction rs arbitrary: as) (auto simp: res_bind_eq_Inr)

lemma collect_results_length:
  "collect_results rs = Inr as \<Longrightarrow> length as = length rs"
  by (simp add: collect_results_Inr_iff)

lemma collect_results_first_error:
  "collect_results (map Inr as @ Inl e # rs) = Inl e"
  by (induction as) simp_all

lemma hm_wf_Nil [simp]: "hm_wf []"
  by (simp add: hm_wf_def)

lemma hm_get_Nil [simp]: "hm_get [] k = None"
  by (simp add: hm_get_def)

lemma hm_get_in_set: "hm_wf m \<Longrightarrow> hm_get m k = Some v \<longleftrightarrow> (k, v) \<in> set m"
  by (simp add: hm_wf_def hm_get_def)

lemma hm_get_SomeD: "hm_get m k = Some v \<Longrightarrow> (k, v) \<in> set m"
  by (simp add: hm_get_def map_of_SomeD)

lemma hm_get_None_iff: "hm_get m k = None \<longleftrightarrow> k \<notin> fst ` set m"
  by (simp add: hm_get_def map_of_eq_None_iff)

lemma hm_get_remove [simp]: "hm_get (hm_remove m k) k' = (if k' = k then None else hm_get m k')"
  by (induction m) (auto simp: hm_get_def hm_remove_def)

lemma hm_get_insert [simp]: "hm_get (hm_insert m k v) k' = (if k' = k then Some v else hm_get m k')"
  using hm_get_remove [of m k k'] by (auto simp: hm_insert_def hm_get_def)

lemma hm_remove_id: "hm_get m k = None \<Longrightarrow> hm_remove m k = m"
  by (force simp: hm_get_None_iff hm_remove_def filter_id_conv)

lemma hm_wf_remove: "hm_wf m \<Longrightarrow> hm_wf (hm_remove m k)"
  by (induction m) (auto simp: hm_wf_def hm_remove_def)

lemma hm_wf_insert: "hm_wf m \<Longrightarrow> hm_wf (hm_insert m k v)"
  using hm_wf_remove [of m k] by (auto simp: hm_wf_def hm_insert_def hm_remove_def)

lemma in_set_retain:
  "(k, w) \<in> set (retain f m) \<longleftrightarrow> (\<exists>v. (k, v) \<in> set m \<and> f k v = Some w)"
  by (induction f m rule: retain.induct) (auto split: option.splits)

lemma fst_retain_subset: "fst ` set (retain f m) \<subseteq> fst ` set m"
  by (force simp: in_set_retain)

lemma hm_wf_retain: "hm_wf m \<Longrightarrow> hm_wf (retain f m)"
proof (induction f m rule: retain.induct)
  case (2 f k v m)
  then show ?case
    using fst_retain_subset [of f m] by (auto simp: hm_wf_def split: option.splits)
qed simp

lemma hm_get_retain:
  assumes "hm_wf m"
  shows "hm_get (retain f m) k = (case hm_get m k of None \<Rightarrow> None | Some v \<Rightarrow> f k v)"
  using assms
proof (induction f m rule: retain.induct)
  case (2 f k' v m)
  then have "hm_get m k' = None" "hm_wf m"
    by (auto simp: hm_wf_def hm_get_None_iff)
  with 2 show ?case
    by (auto simp: hm_get_def split: option.splits)
qed simp

lemma in_set_dropped: "v \<in> set (dropped f m) \<longleftrightarrow> (\<exists>k. (k, v) \<in> set m \<and> f k v = None)"
  by (force simp: dropped_def)

end
