(* ===== verification/Rust_Str.thy ===== *)
theory Rust_Str
  imports Pubsub_Prelude
begin

text \<open>
  What the crate uses of Rust's string library. A \<open>String\<close> is its sequence of bytes, here a
  list of eight-bit characters, that is well-formed UTF-8 (\<open>valid_str\<close>); a \<open>Vec<u8>\<close> is a
  list of \<open>8 word\<close>. The theory has the lossy decoder, whose definition follows the standard
  library's chunk iterator (each maximal prefix of an ill-formed sequence becomes one U+FFFD),
  decimal formatting, and the parser of unsigned numbers.
\<close>

section \<open>Bytes and strings\<close>

definition byte_of_char :: "char \<Rightarrow> u8" where
  "byte_of_char c = word_of_nat (of_char c)"

definition char_of_byte :: "u8 \<Rightarrow> char" where
  "char_of_byte b = char_of (unat b)"

definition into_bytes_str :: "string \<Rightarrow> bytes" where
  "into_bytes_str s = map byte_of_char s"

definition str_of_bytes :: "bytes \<Rightarrow> string" where
  "str_of_bytes bs = map char_of_byte bs"

section \<open>UTF-8\<close>

definition is_cont :: "u8 \<Rightarrow> bool" where
  "is_cont b \<longleftrightarrow> 0x80 \<le> b \<and> b \<le> 0xBF"

text \<open>The second byte a three-byte or four-byte sequence allows, by its first byte.\<close>

definition second3 :: "u8 \<Rightarrow> u8 \<Rightarrow> bool" where
  "second3 b c \<longleftrightarrow>
     (if b = 0xE0 then 0xA0 \<le> c \<and> c \<le> 0xBF
      else if b = 0xED then 0x80 \<le> c \<and> c \<le> 0x9F
      else is_cont c)"

definition second4 :: "u8 \<Rightarrow> u8 \<Rightarrow> bool" where
  "second4 b c \<longleftrightarrow>
     (if b = 0xF0 then 0x90 \<le> c \<and> c \<le> 0xBF
      else if b = 0xF4 then 0x80 \<le> c \<and> c \<le> 0x8F
      else is_cont c)"

text \<open>\<open>conts k n bs\<close>: \<open>k\<close> continuation bytes are still due after \<open>n\<close> bytes were taken.\<close>

fun conts :: "nat \<Rightarrow> nat \<Rightarrow> bytes \<Rightarrow> bool \<times> nat" where
  "conts 0 n bs = (True, n)"
| "conts (Suc k) n [] = (False, n)"
| "conts (Suc k) n (c # cs) = (if is_cont c then conts k (Suc n) cs else (False, n))"

text \<open>
  The step of the chunk iterator at a non-empty input: whether a well-formed character starts
  here, and how many bytes it or the ill-formed prefix takes.
\<close>

fun utf8_next :: "bytes \<Rightarrow> bool \<times> nat" where
  "utf8_next [] = (False, 0)"
| "utf8_next (b # bs) =
     (if b < 0x80 then (True, 1)
      else if 0xC2 \<le> b \<and> b \<le> 0xDF then conts 1 1 bs
      else if 0xE0 \<le> b \<and> b \<le> 0xEF then
        (case bs of c # cs \<Rightarrow> if second3 b c then conts 1 2 cs else (False, 1) | [] \<Rightarrow> (False, 1))
      else if 0xF0 \<le> b \<and> b \<le> 0xF4 then
        (case bs of c # cs \<Rightarrow> if second4 b c then conts 2 2 cs else (False, 1) | [] \<Rightarrow> (False, 1))
      else (False, 1))"

lemma conts_bounds: "n \<le> snd (conts k n bs) \<and> snd (conts k n bs) \<le> n + length bs"
proof (induction k n bs rule: conts.induct)
  case (3 k n c cs)
  then show ?case by (cases "is_cont c") auto
qed auto

lemma conts_pos: "0 < n \<Longrightarrow> 0 < snd (conts k n bs)"
  and conts_le: "n + length bs \<le> m \<Longrightarrow> snd (conts k n bs) \<le> m"
  using conts_bounds [of n k bs] by simp_all

lemma utf8_next_bounds:
  "0 < snd (utf8_next (b # bs)) \<and> snd (utf8_next (b # bs)) \<le> Suc (length bs)"
  by (cases bs) (auto simp del: conts.simps simp: conts_pos conts_le)

lemmas utf8_next_pos = utf8_next_bounds [THEN conjunct1]

function valid_utf8 :: "bytes \<Rightarrow> bool" where
  "valid_utf8 bs =
     (if bs = [] then True
      else if fst (utf8_next bs) then valid_utf8 (drop (snd (utf8_next bs)) bs) else False)"
  by pat_completeness auto
termination
  using utf8_next_pos by (relation "measure length") (auto simp: neq_Nil_conv simp del: utf8_next.simps)

text \<open>The encoding of U+FFFD REPLACEMENT CHARACTER.\<close>

definition replacement :: bytes where
  "replacement = [0xEF, 0xBF, 0xBD]"

function lossy_bytes :: "bytes \<Rightarrow> bytes" where
  "lossy_bytes bs =
     (if bs = [] then []
      else (if fst (utf8_next bs) then take (snd (utf8_next bs)) bs else replacement) @
           lossy_bytes (drop (snd (utf8_next bs)) bs))"
  by pat_completeness auto
termination
  using utf8_next_pos by (relation "measure length") (auto simp: neq_Nil_conv simp del: utf8_next.simps)

definition from_utf8_lossy :: "bytes \<Rightarrow> string" where
  "from_utf8_lossy bs = str_of_bytes (lossy_bytes bs)"

definition valid_str :: "string \<Rightarrow> bool" where
  "valid_str s = valid_utf8 (into_bytes_str s)"

section \<open>Decimal numbers\<close>

definition digit_char :: "nat \<Rightarrow> char" where
  "digit_char d = char_of (48 + d)"

text \<open>\<open>Display\<close> of an unsigned integer.\<close>

fun show_nat :: "nat \<Rightarrow> string" where
  "show_nat n = (if n < 10 then [digit_char n] else show_nat (n div 10) @ [digit_char (n mod 10)])"

definition digit_val :: "char \<Rightarrow> nat option" where
  "digit_val c = (if 48 \<le> (of_char c :: nat) \<and> (of_char c :: nat) \<le> 57
                  then Some (of_char c - 48) else None)"

fun parse_digits :: "nat \<Rightarrow> string \<Rightarrow> nat option" where
  "parse_digits acc [] = Some acc"
| "parse_digits acc (c # cs) =
     (case digit_val c of
        None \<Rightarrow> None
      | Some d \<Rightarrow> if acc * 10 + d < 2 ^ 64 then parse_digits (acc * 10 + d) cs else None)"

text \<open>
  \<open>str::parse::<usize>\<close>: one leading plus sign is accepted, the empty string, a lone sign,
  any other character and a value of \<open>2 ^ 64\<close> or more are errors.
\<close>

definition parse_usize :: "string \<Rightarrow> nat option" where
  "parse_usize s =
     (case s of
        [] \<Rightarrow> None
      | c # cs \<Rightarrow>
          if c = CHR ''+'' then (if cs = [] then None else parse_digits 0 cs)
          else parse_digits 0 s)"

section \<open>Lemmas on bytes and strings\<close>

declare valid_utf8.simps [simp del] lossy_bytes.simps [simp del] show_nat.simps [simp del]

lemma char_of_byte_of_char [simp]: "char_of_byte (byte_of_char c) = c"
  by (simp add: char_of_byte_def byte_of_char_def unat_of_nat nat_of_char_less_256)

lemma byte_of_char_of_byte [simp]: "byte_of_char (char_of_byte b) = b"
proof -
  have "unat b < 256" using unsigned_less [of b] by simp
  then show ?thesis by (simp add: char_of_byte_def byte_of_char_def)
qed

lemma str_of_into_bytes [simp]: "str_of_bytes (into_bytes_str s) = s"
  by (simp add: str_of_bytes_def into_bytes_str_def o_def)

lemma into_bytes_str_of [simp]: "into_bytes_str (str_of_bytes bs) = bs"
  by (simp add: str_of_bytes_def into_bytes_str_def o_def)

lemma str_of_bytes_append [simp]: "str_of_bytes (a @ b) = str_of_bytes a @ str_of_bytes b"
  by (simp add: str_of_bytes_def)

lemma into_bytes_str_append [simp]:
  "into_bytes_str (a @ b) = into_bytes_str a @ into_bytes_str b"
  by (simp add: into_bytes_str_def)

lemma length_into_bytes_str [simp]: "length (into_bytes_str s) = length s"
  by (simp add: into_bytes_str_def)

lemma into_bytes_str_Nil [simp]: "into_bytes_str [] = []"
  by (simp add: into_bytes_str_def)

lemma str_of_bytes_Nil [simp]: "str_of_bytes [] = []"
  by (simp add: str_of_bytes_def)

lemma into_bytes_str_inj [simp]: "into_bytes_str a = into_bytes_str b \<longleftrightarrow> a = b"
  by (metis str_of_into_bytes)

section \<open>Lemmas on UTF-8\<close>

lemma valid_utf8_Nil [simp]: "valid_utf8 []"
  by (subst valid_utf8.simps) simp

lemma lossy_bytes_Nil [simp]: "lossy_bytes [] = []"
  by (subst lossy_bytes.simps) simp

lemma valid_utf8_unfold:
  "bs \<noteq> [] \<Longrightarrow>
     valid_utf8 bs = (fst (utf8_next bs) \<and> valid_utf8 (drop (snd (utf8_next bs)) bs))"
  by (subst valid_utf8.simps) simp

lemma utf8_next_bound: "snd (utf8_next bs) \<le> length bs"
  using utf8_next_bounds by (cases bs) (auto simp del: utf8_next.simps(2))

text \<open>A well-formed character is recognised whatever follows it.\<close>

lemma conts_extend: "conts k n bs = (True, m) \<Longrightarrow> conts k n (bs @ xs) = (True, m)"
  by (induction k n bs rule: conts.induct) (auto split: if_splits)

lemma conts_take:
  "conts k n bs = (True, m) \<Longrightarrow> m = n + k \<and> conts k n (take k bs) = (True, m)"
  by (induction k n bs rule: conts.induct) (auto split: if_splits)

lemma utf8_next_extend:
  assumes "utf8_next bs = (True, n)"
  shows "utf8_next (bs @ xs) = (True, n)"
  using assms
  by (cases bs) (auto split: list.splits if_splits dest: conts_extend simp del: conts.simps)

lemma utf8_next_take:
  assumes "utf8_next bs = (True, n)"
  shows "utf8_next (take n bs) = (True, n)"
proof (cases bs)
  case (Cons b cs)
  show ?thesis
  proof (cases cs)
    case Nil
    then show ?thesis using assms Cons by (auto split: if_splits)
  next
    case (Cons c ds)
    note bs = \<open>bs = b # cs\<close> Cons
    consider "b < 0x80" | "\<not> b < 0x80" "0xC2 \<le> b \<and> b \<le> 0xDF"
      | "\<not> b < 0x80" "\<not> (0xC2 \<le> b \<and> b \<le> 0xDF)" by blast
    then show ?thesis
    proof cases
      case 2
      then show ?thesis
        using assms bs conts_take [of 1 1 cs n] by (auto simp: numeral_2_eq_2 split: if_splits)
    next
      case 3
      then show ?thesis
        using assms bs conts_take [of 1 2 ds n] conts_take [of 2 2 ds n]
        by (auto simp del: conts.simps split: if_splits)
    qed (use assms bs in auto)
  qed
qed (use assms in simp)

lemma utf8_next_take_append:
  assumes "utf8_next bs = (True, n)"
  shows "utf8_next (take n bs @ xs) = (True, n)"
  by (rule utf8_next_extend [OF utf8_next_take [OF assms]])

lemma length_replacement [simp]: "length replacement = 3" "replacement \<noteq> []"
  by (simp_all add: replacement_def)

lemma utf8_next_replacement: "utf8_next (replacement @ xs) = (True, 3)"
  by (simp add: replacement_def second3_def is_cont_def)

lemma valid_utf8_step:
  "bs \<noteq> [] \<Longrightarrow> utf8_next bs = (True, n) \<Longrightarrow> valid_utf8 bs = valid_utf8 (drop n bs)"
  by (subst valid_utf8.simps) simp

lemma valid_utf8_cons_char:
  assumes "utf8_next (c @ xs) = (True, length c)" and "c \<noteq> []"
  shows "valid_utf8 (c @ xs) = valid_utf8 xs"
  using assms by (simp add: valid_utf8_step)

lemma valid_utf8_append:
  assumes "valid_utf8 a" and "valid_utf8 b"
  shows "valid_utf8 (a @ b)"
  using assms(1)
proof (induction a rule: valid_utf8.induct)
  case (1 a)
  show ?case
  proof (cases "a = []")
    case False
    with "1.prems" have v: "fst (utf8_next a)" "valid_utf8 (drop (snd (utf8_next a)) a)"
      by (simp_all add: valid_utf8_unfold)
    obtain n where n: "utf8_next a = (True, n)"
      using v(1) by (cases "utf8_next a") simp
    have "n \<le> length a" using utf8_next_bound [of a] n by simp
    moreover have "valid_utf8 (drop n a @ b)"
      using "1.IH" False v n by simp
    ultimately show ?thesis
      using False valid_utf8_step [OF _ utf8_next_extend [OF n]] by simp
  qed (simp add: assms(2))
qed

lemma lossy_bytes_valid: "valid_utf8 (lossy_bytes bs)"
proof (induction bs rule: lossy_bytes.induct)
  case (1 bs)
  show ?case
  proof (cases "bs = []")
    case False
    obtain ok n where n: "utf8_next bs = (ok, n)" by (cases "utf8_next bs")
    have ih: "valid_utf8 (lossy_bytes (drop n bs))"
      using "1.IH" False n by simp
    show ?thesis
    proof (cases ok)
      case True
      have "n \<le> length bs" "0 < n"
        using utf8_next_bound [of bs] utf8_next_pos [of "hd bs" "tl bs"] n False by simp_all
      then show ?thesis
        using False n True ih utf8_next_take_append [of bs n "lossy_bytes (drop n bs)"]
        by (subst lossy_bytes.simps) (simp add: valid_utf8_cons_char)
    next
      case False
      then show ?thesis
        using \<open>bs \<noteq> []\<close> n ih utf8_next_replacement [of "lossy_bytes (drop n bs)"]
        by (subst lossy_bytes.simps)
          (simp add: valid_utf8_cons_char [of replacement] length_replacement)
    qed
  qed simp
qed

lemma lossy_bytes_id: "valid_utf8 bs \<Longrightarrow> lossy_bytes bs = bs"
proof (induction bs rule: valid_utf8.induct)
  case (1 bs)
  show ?case
  proof (cases "bs = []")
    case False
    with "1.prems" have v: "fst (utf8_next bs)" "valid_utf8 (drop (snd (utf8_next bs)) bs)"
      by (simp_all add: valid_utf8_unfold)
    with "1.IH" False show ?thesis
      by (subst lossy_bytes.simps) simp
  qed simp
qed

lemma valid_str_lossy [simp]: "valid_str (from_utf8_lossy bs)"
  by (simp add: valid_str_def from_utf8_lossy_def lossy_bytes_valid)

lemma from_utf8_lossy_valid: "valid_utf8 bs \<Longrightarrow> from_utf8_lossy bs = str_of_bytes bs"
  by (simp add: from_utf8_lossy_def lossy_bytes_id)

lemma from_utf8_lossy_into_bytes [simp]:
  "valid_str s \<Longrightarrow> from_utf8_lossy (into_bytes_str s) = s"
  by (simp add: valid_str_def from_utf8_lossy_valid)

lemma valid_str_append: "valid_str a \<Longrightarrow> valid_str b \<Longrightarrow> valid_str (a @ b)"
  by (simp add: valid_str_def valid_utf8_append)

lemma valid_str_Nil [simp]: "valid_str []"
  by (simp add: valid_str_def)

text \<open>Inside a character there is no ASCII byte, so text can be cut after one.\<close>

lemma conts_is_cont: "conts k n bs = (True, m) \<Longrightarrow> j < k \<Longrightarrow> is_cont (bs ! j)"
proof (induction k n bs arbitrary: j rule: conts.induct)
  case (3 k n c cs)
  then show ?case by (cases j) (auto split: if_splits)
qed auto

lemma second_is_cont: "second3 b c \<Longrightarrow> is_cont c" "second4 b c \<Longrightarrow> is_cont c"
  by (auto simp: second3_def second4_def is_cont_def word_le_nat_alt split: if_splits)

lemma utf8_next_tail:
  assumes "utf8_next bs = (True, n)" and "0 < i" and "i < n"
  shows "is_cont (bs ! i)"
proof (cases bs)
  case (Cons b cs)
  obtain j where j: "i = Suc j" using assms(2) by (cases i) auto
  consider "n = 1" | "conts 1 1 cs = (True, n)"
    | d ds k where "cs = d # ds" "is_cont d" "conts k 2 ds = (True, n)"
    using assms(1) Cons second_is_cont by (auto split: if_splits list.splits simp del: conts.simps)
  then show ?thesis
  proof cases
    case 1
    with assms show ?thesis by simp
  next
    case 2
    with assms(3) j Cons conts_take [OF 2] conts_is_cont [OF 2, of j] show ?thesis by simp
  next
    case 3
    with assms(3) j Cons conts_take [OF 3(3)] conts_is_cont [OF 3(3), of "j - 1"] show ?thesis
      by (cases j) auto
  qed
qed (use assms in simp)

lemma valid_utf8_head: "valid_utf8 (b # bs) \<Longrightarrow> \<not> is_cont b"
  by (auto simp: valid_utf8_unfold is_cont_def word_le_nat_alt word_less_nat_alt split: if_splits)

text \<open>Well-formed text can be cut where a byte does not continue a character.\<close>

lemma valid_utf8_cut:
  assumes "valid_utf8 (a @ b)" and "b = [] \<or> \<not> is_cont (hd b)"
  shows "valid_utf8 a \<and> valid_utf8 b"
  using assms(1)
proof (induction a rule: length_induct)
  case (1 a)
  show ?case
  proof (cases "a = []")
    case False
    let ?s = "a @ b"
    obtain n where n: "utf8_next ?s = (True, n)" and v: "valid_utf8 (drop n ?s)"
      using 1(2) False valid_utf8_unfold [of ?s] by (metis append_is_Nil_conv prod.collapse)
    have pos: "0 < n"
      using n False utf8_next_pos by (metis append_is_Nil_conv neq_Nil_conv snd_conv)
    have le: "n \<le> length a"
    proof (rule ccontr)
      assume "\<not> n \<le> length a"
      moreover from this have "b \<noteq> []" using utf8_next_bound [of ?s] n by auto
      ultimately show False
        using utf8_next_tail [OF n, of "length a"] assms(2) False by (simp add: nth_append hd_conv_nth)
    qed
    then have "valid_utf8 (drop n a) \<and> valid_utf8 b"
      using 1(1) [rule_format, of "drop n a"] pos v False by simp
    moreover have "utf8_next a = (True, n)"
      using utf8_next_take_append [OF n, of "drop n a"] le by simp
    ultimately show ?thesis
      using False valid_utf8_step by blast
  qed (use 1(2) in simp)
qed

lemma valid_utf8_at_ascii:
  assumes "valid_utf8 (a @ c # b)" and "c < 0x80"
  shows "valid_utf8 a" and "valid_utf8 b"
proof -
  have "\<not> is_cont c" using assms(2) by (auto simp: is_cont_def)
  then have v: "valid_utf8 a" "valid_utf8 (c # b)"
    using valid_utf8_cut [OF assms(1)] by simp_all
  show "valid_utf8 a" by (rule v)
  show "valid_utf8 b"
    using v(2) assms(2) valid_utf8_step [of "c # b" 1] by simp
qed

text \<open>ASCII text is well-formed; this evaluates \<open>valid_str\<close> on literals.\<close>

lemma valid_str_ascii: "list_all (\<lambda>c. of_char c < (128 :: nat)) s \<Longrightarrow> valid_str s"
proof (induction s)
  case (Cons c s)
  then have "byte_of_char c < 0x80"
    by (simp add: byte_of_char_def word_less_nat_alt unat_of_nat nat_of_char_less_256)
  then have "utf8_next (byte_of_char c # into_bytes_str s) = (True, 1)"
    by simp
  with Cons show ?case
    using valid_utf8_step [of "byte_of_char c # into_bytes_str s" 1]
    by (simp add: valid_str_def into_bytes_str_def)
qed simp

section \<open>Lemmas on decimal numbers\<close>

lemma of_char_digit_char: "d < 10 \<Longrightarrow> (of_char (digit_char d) :: nat) = 48 + d"
  by (simp add: digit_char_def)

lemma digit_val_digit_char [simp]: "d < 10 \<Longrightarrow> digit_val (digit_char d) = Some d"
  by (simp add: digit_val_def of_char_digit_char)

lemma parse_digits_snoc:
  "parse_digits acc (xs @ [c]) =
     (case parse_digits acc xs of
        None \<Rightarrow> None
      | Some a \<Rightarrow> (case digit_val c of
                     None \<Rightarrow> None
                   | Some d \<Rightarrow> if a * 10 + d < 2 ^ 64 then Some (a * 10 + d) else None))"
  by (induction xs arbitrary: acc) (auto split: option.splits)

lemma parse_digits_show_nat: "n < 2 ^ 64 \<Longrightarrow> parse_digits 0 (show_nat n) = Some n"
proof (induction n rule: show_nat.induct)
  case (1 n)
  show ?case
  proof (cases "n < 10")
    case True
    then show ?thesis by (subst show_nat.simps) simp
  next
    case False
    with 1 have "parse_digits 0 (show_nat (n div 10)) = Some (n div 10)" by simp
    moreover have "n div 10 * 10 + n mod 10 = n" by simp
    ultimately show ?thesis
      using False "1.prems" by (subst show_nat.simps) (simp add: parse_digits_snoc)
  qed
qed

lemma show_nat_digits: "c \<in> set (show_nat n) \<Longrightarrow> 48 \<le> (of_char c :: nat) \<and> (of_char c :: nat) \<le> 57"
proof (induction n rule: show_nat.induct)
  case (1 n)
  have "n mod 10 < 10" by simp
  with 1 show ?case
    by (subst (asm) show_nat.simps) (auto split: if_splits simp: of_char_digit_char)
qed

lemma show_nat_nonempty [simp]: "show_nat n \<noteq> []"
  by (subst show_nat.simps) simp

lemma parse_usize_show_nat: "n < 2 ^ 64 \<Longrightarrow> parse_usize (show_nat n) = Some n"
proof -
  assume n: "n < 2 ^ 64"
  obtain c cs where c: "show_nat n = c # cs"
    by (cases "show_nat n") simp_all
  then have "c \<noteq> CHR ''+''"
    using show_nat_digits [of c n] by auto
  with c show ?thesis
    using parse_digits_show_nat [OF n] by (simp add: parse_usize_def)
qed

lemma show_nat_inject: "m < 2 ^ 64 \<Longrightarrow> n < 2 ^ 64 \<Longrightarrow> show_nat m = show_nat n \<longleftrightarrow> m = n"
  by (metis option.inject parse_usize_show_nat)

lemma valid_str_show_nat [simp]: "valid_str (show_nat n)"
  by (rule valid_str_ascii) (auto simp: list_all_iff dest: show_nat_digits)

end
