(* ===== verification/Messages.thy ===== *)
theory Messages
  imports Rust_Str
begin

text \<open>
  The crate root, \<^verbatim>\<open>src/src/lib.rs\<close>: the two built-in message types with every method of
  the \<open>Message\<close> trait, and \<open>PubSubError\<close>. The trait itself is the locale \<open>message_trait\<close>
  (construction and access) and its extension \<open>message_codec\<close> (conversion to and from bytes),
  interpreted below for both types.
\<close>

section \<open>ByteMessage\<close>

record byte_message =
  bm_key :: "bytes option"
  bm_value :: bytes

definition byte_new :: "bytes option \<Rightarrow> bytes \<Rightarrow> byte_message" where
  "byte_new key value = \<lparr>bm_key = key, bm_value = value\<rparr>"

definition byte_from_value :: "bytes \<Rightarrow> byte_message" where
  "byte_from_value value = \<lparr>bm_key = None, bm_value = value\<rparr>"

definition byte_from_bytes :: "bytes option \<Rightarrow> bytes \<Rightarrow> byte_message" where
  "byte_from_bytes key value = \<lparr>bm_key = map_option (\<lambda>arr. arr) key, bm_value = value\<rparr>"

definition byte_extract_key :: "byte_message \<Rightarrow> bytes option" where
  "byte_extract_key m = bm_key m"

definition byte_extract_key_value :: "byte_message \<Rightarrow> bytes option \<times> bytes" where
  "byte_extract_key_value m = (bm_key m, bm_value m)"

definition byte_extract_value :: "byte_message \<Rightarrow> bytes" where
  "byte_extract_value m = bm_value m"

definition byte_into_bytes :: "byte_message \<Rightarrow> byte_message" where
  "byte_into_bytes m = m"

text \<open>The accessors that clone and those that borrow give the same value.\<close>

definition byte_key :: "byte_message \<Rightarrow> bytes option" where
  "byte_key m = bm_key m"

definition byte_value :: "byte_message \<Rightarrow> bytes" where
  "byte_value m = bm_value m"

text \<open>The reflexive \<open>From\<close> of the standard library.\<close>

definition byte_from :: "byte_message \<Rightarrow> byte_message" where
  "byte_from m = m"

section \<open>StringMessage\<close>

record string_message =
  sm_key :: "string option"
  sm_value :: string

definition string_new :: "string option \<Rightarrow> string \<Rightarrow> string_message" where
  "string_new key value = \<lparr>sm_key = key, sm_value = value\<rparr>"

definition string_from_value :: "string \<Rightarrow> string_message" where
  "string_from_value value = \<lparr>sm_key = None, sm_value = value\<rparr>"

definition string_from_bytes :: "bytes option \<Rightarrow> bytes \<Rightarrow> string_message" where
  "string_from_bytes key value =
     \<lparr>sm_key = map_option from_utf8_lossy key, sm_value = from_utf8_lossy value\<rparr>"

definition string_extract_key :: "string_message \<Rightarrow> string option" where
  "string_extract_key m = sm_key m"

definition string_extract_key_value :: "string_message \<Rightarrow> string option \<times> string" where
  "string_extract_key_value m = (sm_key m, sm_value m)"

definition string_extract_value :: "string_message \<Rightarrow> string" where
  "string_extract_value m = sm_value m"

definition string_into_bytes :: "string_message \<Rightarrow> byte_message" where
  "string_into_bytes m =
     \<lparr>bm_key = map_option into_bytes_str (sm_key m), bm_value = into_bytes_str (sm_value m)\<rparr>"

definition string_key :: "string_message \<Rightarrow> string option" where
  "string_key m = sm_key m"

definition string_value :: "string_message \<Rightarrow> string" where
  "string_value m = sm_value m"

definition string_from :: "byte_message \<Rightarrow> string_message" where
  "string_from bs =
     (let (byte_key, byte_val) = byte_extract_key_value bs in
      \<lparr>sm_key = map_option from_utf8_lossy byte_key, sm_value = from_utf8_lossy byte_val\<rparr>)"

text \<open>The strings a \<open>StringMessage\<close> holds are Rust strings.\<close>

definition string_wf :: "string_message \<Rightarrow> bool" where
  "string_wf m \<longleftrightarrow> pred_option valid_str (sm_key m) \<and> valid_str (sm_value m)"

definition bytes_wf :: "byte_message \<Rightarrow> bool" where
  "bytes_wf b \<longleftrightarrow> pred_option valid_utf8 (bm_key b) \<and> valid_utf8 (bm_value b)"

section \<open>PubSubError\<close>

record pubsub_error =
  cause :: "string option"

definition CANNED_ERR_MESSAGE :: string where
  "CANNED_ERR_MESSAGE = ''The PubSub library encountered an error.''"

definition pubsub_error_default :: pubsub_error where
  "pubsub_error_default = \<lparr>cause = None\<rparr>"

text \<open>\<open>err\<close> is the \<open>Debug\<close> rendering of the captured value.\<close>

definition from_debug :: "string \<Rightarrow> pubsub_error" where
  "from_debug err = \<lparr>cause = Some err\<rparr>"

definition cause_message :: "pubsub_error \<Rightarrow> string option" where
  "cause_message e = cause e"

definition pubsub_error_display :: "pubsub_error \<Rightarrow> string" where
  "pubsub_error_display e = CANNED_ERR_MESSAGE"

text \<open>\<open>str_debug\<close> is the quoting and escaping of \<open>Debug\<close> for strings.\<close>

definition pubsub_error_debug :: "(string \<Rightarrow> string) \<Rightarrow> pubsub_error \<Rightarrow> string" where
  "pubsub_error_debug str_debug e =
     ''PubSubError { cause: '' @
     (case cause e of None \<Rightarrow> ''None'' | Some c \<Rightarrow> ''Some('' @ str_debug c @ '')'') @ '' }''"

section \<open>The Message trait\<close>

locale message_trait =
  fixes new :: "'k option \<Rightarrow> 'v \<Rightarrow> 'm"
    and from_value :: "'v \<Rightarrow> 'm"
    and key :: "'m \<Rightarrow> 'k option"
    and val :: "'m \<Rightarrow> 'v"
    and extract_key :: "'m \<Rightarrow> 'k option"
    and extract_key_value :: "'m \<Rightarrow> 'k option \<times> 'v"
    and extract_value :: "'m \<Rightarrow> 'v"
  assumes key_new: "key (new k v) = k"
    and val_new: "val (new k v) = v"
    and new_key_val: "new (key m) (val m) = m"
    and from_value_new: "from_value v = new None v"
    and extract_key_key: "extract_key m = key m"
    and extract_value_val: "extract_value m = val m"
    and extract_key_value_pair: "extract_key_value m = (key m, val m)"
begin

lemma message_eqI: "key m = key n \<Longrightarrow> val m = val n \<Longrightarrow> m = n"
  by (metis new_key_val)

lemma new_inject: "new k v = new k' v' \<longleftrightarrow> k = k' \<and> v = v'"
  by (metis key_new val_new)

lemma extract_new: "extract_key_value (new k v) = (k, v)"
  by (simp add: extract_key_value_pair key_new val_new)

lemma extract_from_value: "extract_key_value (from_value v) = (None, v)"
  by (simp add: from_value_new extract_new)

end

locale message_codec = message_trait +
  fixes from_bytes :: "bytes option \<Rightarrow> bytes \<Rightarrow> 'm"
    and into_bytes :: "'m \<Rightarrow> byte_message"
    and of_msg :: "byte_message \<Rightarrow> 'm"
    and wf :: "'m \<Rightarrow> bool"
  assumes from_from_bytes: "of_msg b = from_bytes (bm_key b) (bm_value b)"
    and wf_from: "wf (of_msg b)"
    and from_into_bytes: "wf m \<Longrightarrow> of_msg (into_bytes m) = m"
begin

lemma from_normal: "of_msg (into_bytes (of_msg b)) = of_msg b"
  by (simp add: from_into_bytes wf_from)

lemma into_bytes_inject: "wf m \<Longrightarrow> wf n \<Longrightarrow> into_bytes m = into_bytes n \<longleftrightarrow> m = n"
  by (metis from_into_bytes)

lemma from_eq_wf: "(\<exists>b. of_msg b = m) \<longleftrightarrow> wf m"
  by (metis from_into_bytes wf_from)

end

section \<open>The built-in types satisfy the trait\<close>

lemmas byte_defs = byte_new_def byte_from_value_def byte_from_bytes_def byte_extract_key_def
  byte_extract_key_value_def byte_extract_value_def byte_into_bytes_def byte_key_def
  byte_value_def byte_from_def

lemmas string_defs = string_new_def string_from_value_def string_from_bytes_def
  string_extract_key_def string_extract_key_value_def string_extract_value_def
  string_into_bytes_def string_key_def string_value_def string_from_def

interpretation byte_msg: message_codec byte_new byte_from_value byte_key byte_value
  byte_extract_key byte_extract_key_value byte_extract_value byte_from_bytes byte_into_bytes
  byte_from "\<lambda>_. True"
  by unfold_locales (simp_all add: byte_defs option.map_ident)

lemma string_from_eq: "string_from b = string_from_bytes (bm_key b) (bm_value b)"
  by (simp add: string_defs byte_defs)

lemma string_wf_from: "string_wf (string_from b)"
  by (cases "bm_key b") (simp_all add: string_wf_def string_defs byte_defs)

lemma string_from_into_bytes: "string_wf m \<Longrightarrow> string_from (string_into_bytes m) = m"
  by (cases m, cases "sm_key m") (simp_all add: string_wf_def string_defs byte_defs)

interpretation string_msg: message_codec string_new string_from_value string_key string_value
  string_extract_key string_extract_key_value string_extract_value string_from_bytes
  string_into_bytes string_from string_wf
  by unfold_locales
    (simp_all add: string_from_eq string_wf_from [unfolded string_from_eq] string_from_into_bytes
      [unfolded string_from_eq], simp_all add: string_defs)

lemma lossy_into_bytes_iff: "into_bytes_str (from_utf8_lossy bs) = bs \<longleftrightarrow> valid_utf8 bs"
  by (metis from_utf8_lossy_def into_bytes_str_of lossy_bytes_id lossy_bytes_valid)

section \<open>Properties\<close>

text \<open>
  A \<open>StringMessage\<close> survives the byte representation: encoding it and decoding the bytes
  gives the same key and value.
\<close>

theorem string_message_roundtrip:
  assumes "pred_option valid_str k" and "valid_str v"
  shows "string_from (string_into_bytes (string_new k v)) = string_new k v"
  using assms by (intro string_msg.from_into_bytes) (simp add: string_wf_def string_new_def)

theorem string_message_roundtrip_witness:
  "string_from (string_into_bytes (string_new (Some ''into-key'') ''into-value'')) =
     string_new (Some ''into-key'') ''into-value''"
  by (rule string_message_roundtrip) (simp_all add: valid_str_ascii)

text \<open>
  Decoding any bytes as a \<open>StringMessage\<close> succeeds with well-formed strings, is
  unchanged by a further encode/decode, and loses nothing exactly when key and value are
  well-formed UTF-8.
\<close>

theorem string_message_lossy:
  "string_wf (string_from b) \<and>
   string_from (string_into_bytes (string_from b)) = string_from b \<and>
   (string_into_bytes (string_from b) = b \<longleftrightarrow> bytes_wf b)"
proof (intro conjI)
  show "string_into_bytes (string_from b) = b \<longleftrightarrow> bytes_wf b"
    by (cases b, cases "bm_key b")
      (auto simp: string_defs byte_defs bytes_wf_def lossy_into_bytes_iff)
qed (rule string_wf_from string_msg.from_normal)+

text \<open>
  The user-facing rendering of a \<open>PubSubError\<close> is the canned text whatever was captured,
  while the captured rendering is what \<open>cause_message\<close> returns and what \<open>Debug\<close> shows.
\<close>

theorem pubsub_error_rendering:
  "pubsub_error_display (from_debug err) = pubsub_error_display pubsub_error_default \<and>
   cause_message (from_debug err) = Some err \<and> cause_message pubsub_error_default = None \<and>
   pubsub_error_debug q (from_debug (pubsub_error_debug q pubsub_error_default)) =
     ''PubSubError { cause: Some('' @ q ''PubSubError { cause: None }'' @ '') }''"
  by (simp add: pubsub_error_display_def from_debug_def cause_message_def pubsub_error_default_def
      pubsub_error_debug_def)

end
