(* ===== verification/Effects.thy ===== *)
theory Effects
  imports Messages
begin

text \<open>
  What a background task does that others can observe, as a list in the order of the calls:
  log lines at each level, timed waits, and messages handed to the broadcast channel (the
  code ignores the result of \<open>send\<close>).
\<close>

datatype effect =
    LogError string
  | LogWarn string
  | LogInfo string
  | Sleep nat
  | Send byte_message

definition sends :: "effect list \<Rightarrow> byte_message list" where
  "sends es = List.map_filter (\<lambda>e. case e of Send m \<Rightarrow> Some m | _ \<Rightarrow> None) es"

definition sleeps :: "effect list \<Rightarrow> nat list" where
  "sleeps es = List.map_filter (\<lambda>e. case e of Sleep d \<Rightarrow> Some d | _ \<Rightarrow> None) es"

definition error_logs :: "effect list \<Rightarrow> string list" where
  "error_logs es = List.map_filter (\<lambda>e. case e of LogError l \<Rightarrow> Some l | _ \<Rightarrow> None) es"

definition warn_logs :: "effect list \<Rightarrow> string list" where
  "warn_logs es = List.map_filter (\<lambda>e. case e of LogWarn l \<Rightarrow> Some l | _ \<Rightarrow> None) es"

lemma map_filter_append [simp]:
  "List.map_filter f (xs @ ys) = List.map_filter f xs @ List.map_filter f ys"
  by (induction xs) (auto split: option.splits)

lemma sends_simps [simp, runtime_simps]:
  "sends [] = []" "sends (es @ fs) = sends es @ sends fs"
  "sends (LogError l # es) = sends es" "sends (LogWarn l # es) = sends es"
  "sends (LogInfo l # es) = sends es" "sends (Sleep d # es) = sends es"
  "sends (Send m # es) = m # sends es"
  by (simp_all add: sends_def)

lemma sleeps_simps [simp, runtime_simps]:
  "sleeps [] = []" "sleeps (es @ fs) = sleeps es @ sleeps fs"
  "sleeps (LogError l # es) = sleeps es" "sleeps (LogWarn l # es) = sleeps es"
  "sleeps (LogInfo l # es) = sleeps es" "sleeps (Sleep d # es) = d # sleeps es"
  "sleeps (Send m # es) = sleeps es"
  by (simp_all add: sleeps_def)

lemma error_logs_simps [simp, runtime_simps]:
  "error_logs [] = []" "error_logs (es @ fs) = error_logs es @ error_logs fs"
  "error_logs (LogError l # es) = l # error_logs es" "error_logs (LogWarn l # es) = error_logs es"
  "error_logs (LogInfo l # es) = error_logs es" "error_logs (Sleep d # es) = error_logs es"
  "error_logs (Send m # es) = error_logs es"
  by (simp_all add: error_logs_def)

lemma warn_logs_simps [simp, runtime_simps]:
  "warn_logs [] = []" "warn_logs (es @ fs) = warn_logs es @ warn_logs fs"
  "warn_logs (LogError l # es) = warn_logs es" "warn_logs (LogWarn l # es) = l # warn_logs es"
  "warn_logs (LogInfo l # es) = warn_logs es" "warn_logs (Sleep d # es) = warn_logs es"
  "warn_logs (Send m # es) = warn_logs es"
  by (simp_all add: warn_logs_def)

end
