(* ===== verification/Backoff.thy ===== *)
theory Backoff
  imports Effects
begin

text \<open>
  The shared exponential backoff of \<^verbatim>\<open>src/src/backoff.rs\<close>: \<open>OutageState\<close> with its four
  operations, the wait sequence they produce, and the deduplication of error lines. The locale
  \<open>outage\<close> is the contract the reconnect loops of the three backends rely on.
\<close>

section \<open>Durations\<close>

text \<open>
  A \<open>Duration\<close> is a number of nanoseconds below \<open>2 ^ 64\<close> seconds. Multiplication by a
  scalar panics when the product does not fit.
\<close>

type_synonym duration = nat

definition from_secs :: "nat \<Rightarrow> duration" where
  "from_secs s = s * 1000000000"

definition DURATION_MAX :: duration where
  "DURATION_MAX = 2 ^ 64 * 1000000000 - 1"

definition duration_mul :: "duration \<Rightarrow> nat \<Rightarrow> duration outcome" where
  "duration_mul d n = (if d * n \<le> DURATION_MAX then Ret (d * n) else Panic)"

section \<open>OutageState\<close>

definition MAX_BACKOFF :: duration where
  "MAX_BACKOFF = from_secs 30"

definition INITIAL_BACKOFF :: duration where
  "INITIAL_BACKOFF = from_secs 1"

record 'k outage_state =
  last_error_kind :: "'k option"
  next_backoff :: duration

definition outage_default :: "'k outage_state" where
  "outage_default = \<lparr>last_error_kind = None, next_backoff = INITIAL_BACKOFF\<rparr>"

definition is_in_outage :: "'k outage_state \<Rightarrow> bool" where
  "is_in_outage st = (last_error_kind st \<noteq> None)"

text \<open>
  \<open>err\<close> is the \<open>Debug\<close> rendering of the error, which the code only prints. The result is
  the returned flag, the new state and the effects.
\<close>

definition record_error ::
  "'k outage_state \<Rightarrow> 'k \<Rightarrow> string \<Rightarrow> string \<Rightarrow> bool \<times> 'k outage_state \<times> effect list" where
  "record_error st kind err context =
     (if Some kind \<noteq> last_error_kind st
      then (True, st\<lparr>last_error_kind := Some kind\<rparr>, [LogError (context @ '': '' @ err)])
      else (False, st, []))"

text \<open>
  The wait happens before the product is formed, so the effects stand also when the
  multiplication panics.
\<close>

definition on_error ::
  "'k outage_state \<Rightarrow> 'k \<Rightarrow> string \<Rightarrow> string \<Rightarrow> effect list \<times> 'k outage_state outcome" where
  "on_error st kind err context =
     (let (_, st1, logs) = record_error st kind err context in
      (logs @ [Sleep (next_backoff st1)],
       case duration_mul (next_backoff st1) 2 of
         Panic \<Rightarrow> Panic
       | Ret d \<Rightarrow> Ret (st1\<lparr>next_backoff := min d MAX_BACKOFF\<rparr>)))"

definition on_recovery :: "'k outage_state \<Rightarrow> bool \<times> 'k outage_state" where
  "on_recovery st =
     (let was_in_outage = is_in_outage st in
      (was_in_outage, st\<lparr>last_error_kind := None, next_backoff := INITIAL_BACKOFF\<rparr>))"

section \<open>Sequences of calls\<close>

datatype 'k outage_op = OnError 'k string string | RecordError 'k string string | OnRecovery

fun outage_step ::
  "'k outage_state \<Rightarrow> 'k outage_op \<Rightarrow> effect list \<times> 'k outage_state outcome" where
  "outage_step st (OnError k e c) = on_error st k e c"
| "outage_step st (RecordError k e c) =
     (let (_, st1, logs) = record_error st k e c in (logs, Ret st1))"
| "outage_step st OnRecovery = ([], Ret (snd (on_recovery st)))"

fun outage_run ::
  "'k outage_state \<Rightarrow> 'k outage_op list \<Rightarrow> effect list \<times> 'k outage_state outcome" where
  "outage_run st [] = ([], Ret st)"
| "outage_run st (x # xs) =
     (case outage_step st x of
        (es, Panic) \<Rightarrow> (es, Panic)
      | (es, Ret st1) \<Rightarrow> (case outage_run st1 xs of (fs, r) \<Rightarrow> (es @ fs, r)))"

section \<open>The contract of the sequences\<close>

text \<open>
  What the operations keep: the wait stays between the two constants, and without an outage
  it is the initial one.
\<close>

definition outage_inv :: "'k outage_state \<Rightarrow> bool" where
  "outage_inv st \<longleftrightarrow>
     INITIAL_BACKOFF \<le> next_backoff st \<and> next_backoff st \<le> MAX_BACKOFF \<and>
     (\<not> is_in_outage st \<longrightarrow> next_backoff st = INITIAL_BACKOFF)"

text \<open>
  Specification of the deduplication: a call sequence falls into runs separated by
  recoveries, and in each run an error line is due only where the kind changes.
\<close>

fun error_runs :: "'k outage_op list \<Rightarrow> ('k \<times> string) list list" where
  "error_runs [] = [[]]"
| "error_runs (OnRecovery # xs) = [] # error_runs xs"
| "error_runs (OnError k e c # xs) =
     (case error_runs xs of
        [] \<Rightarrow> [[(k, c @ '': '' @ e)]]
      | r # rs \<Rightarrow> ((k, c @ '': '' @ e) # r) # rs)"
| "error_runs (RecordError k e c # xs) =
     (case error_runs xs of
        [] \<Rightarrow> [[(k, c @ '': '' @ e)]]
      | r # rs \<Rightarrow> ((k, c @ '': '' @ e) # r) # rs)"

fun first_of_each_kind :: "'k option \<Rightarrow> ('k \<times> string) list \<Rightarrow> string list" where
  "first_of_each_kind prev [] = []"
| "first_of_each_kind prev ((k, l) # xs) =
     (if prev = Some k then first_of_each_kind (Some k) xs
      else l # first_of_each_kind (Some k) xs)"

locale outage =
  fixes inv :: "'s \<Rightarrow> bool"
    and dflt :: "'s"
    and on_err :: "'s \<Rightarrow> 'k \<Rightarrow> string \<Rightarrow> string \<Rightarrow> effect list \<times> 's outcome"
    and on_rec :: "'s \<Rightarrow> bool \<times> 's"
    and lo :: nat
    and hi :: nat
  assumes inv_dflt: "inv dflt"
    and on_rec_dflt: "snd (on_rec s) = dflt"
    and on_err_ret: "inv s \<Longrightarrow> \<exists>s'. snd (on_err s k e c) = Ret s' \<and> inv s'"
    and on_err_sleeps: "inv s \<Longrightarrow> \<exists>d. sleeps (fst (on_err s k e c)) = [d] \<and> lo \<le> d \<and> d \<le> hi"
    and on_err_sends: "sends (fst (on_err s k e c)) = []"
begin

lemma on_err_cases:
  assumes "inv s"
  obtains es s' d where "on_err s k e c = (es, Ret s')" and "inv s'"
    and "sleeps es = [d]" and "lo \<le> d" and "d \<le> hi" and "sends es = []"
  using on_err_ret [OF assms, of k e c] on_err_sleeps [OF assms, of k e c]
    on_err_sends [of s k e c]
  by (metis prod.collapse)

lemma inv_on_rec: "inv (snd (on_rec s))"
  by (simp add: on_rec_dflt inv_dflt)

end

section \<open>Lemmas\<close>

lemmas backoff_consts = MAX_BACKOFF_def INITIAL_BACKOFF_def from_secs_def DURATION_MAX_def

lemma duration_mul_small: "d \<le> MAX_BACKOFF \<Longrightarrow> duration_mul d 2 = Ret (d * 2)"
  by (simp add: duration_mul_def backoff_consts)

lemma outage_inv_default: "outage_inv outage_default"
  by (simp add: outage_inv_def outage_default_def is_in_outage_def backoff_consts)

lemma on_recovery_default: "snd (on_recovery st) = outage_default"
  by (simp add: on_recovery_def outage_default_def Let_def)

lemma on_recovery_eq: "on_recovery st = (is_in_outage st, outage_default)"
  by (simp add: on_recovery_def outage_default_def Let_def)

lemma record_error_inv:
  "outage_inv st \<Longrightarrow> record_error st k e c = (b, st', es) \<Longrightarrow> outage_inv st'"
  by (auto simp: record_error_def outage_inv_def is_in_outage_def split: if_splits)

lemma record_error_next_backoff:
  "record_error st k e c = (b, st', es) \<Longrightarrow> next_backoff st' = next_backoff st"
  by (auto simp: record_error_def split: if_splits)

lemma record_error_kind:
  "record_error st k e c = (b, st', es) \<Longrightarrow> last_error_kind st' = Some k"
  by (auto simp: record_error_def split: if_splits)

lemma record_error_effects:
  "record_error st k e c = (b, st', es) \<Longrightarrow>
     es = (if last_error_kind st = Some k then [] else [LogError (c @ '': '' @ e)])"
  by (auto simp: record_error_def split: if_splits)

lemma on_error_eq:
  assumes "outage_inv st"
  shows "on_error st k e c =
    ((if last_error_kind st = Some k then [] else [LogError (c @ '': '' @ e)]) @ [Sleep (next_backoff st)],
     Ret \<lparr>last_error_kind = Some k, next_backoff = min (next_backoff st * 2) MAX_BACKOFF\<rparr>)"
proof -
  obtain b st' es where r: "record_error st k e c = (b, st', es :: effect list)"
    by (metis prod_cases3)
  have "next_backoff st' \<le> MAX_BACKOFF"
    using assms record_error_next_backoff [OF r] by (simp add: outage_inv_def)
  then show ?thesis
    using record_error_next_backoff [OF r] record_error_kind [OF r] record_error_effects [OF r]
    by (simp add: on_error_def r duration_mul_small)
qed

lemma outage_inv_advance:
  "outage_inv st \<Longrightarrow>
     outage_inv \<lparr>last_error_kind = Some k, next_backoff = min (next_backoff st * 2) MAX_BACKOFF\<rparr>"
  by (auto simp: outage_inv_def is_in_outage_def backoff_consts)

lemma outage_step_inv:
  assumes "outage_inv st"
  shows "\<exists>es st'. outage_step st x = (es, Ret st') \<and> outage_inv st' \<and>
    (\<forall>d \<in> set (sleeps es). INITIAL_BACKOFF \<le> d \<and> d \<le> MAX_BACKOFF)"
proof (cases x)
  case (OnError k e c)
  have "INITIAL_BACKOFF \<le> next_backoff st" "next_backoff st \<le> MAX_BACKOFF"
    using assms by (simp_all add: outage_inv_def)
  with OnError assms show ?thesis
    by (simp add: on_error_eq outage_inv_advance)
next
  case (RecordError k e c)
  obtain b st' es where r: "record_error st k e c = (b, st', es :: effect list)"
    by (metis prod_cases3)
  with assms RecordError show ?thesis
    using record_error_inv [OF assms r] by (simp add: record_error_effects [OF r])
next
  case OnRecovery
  then show ?thesis
    by (simp add: on_recovery_default outage_inv_default)
qed

interpretation backoff: outage outage_inv outage_default on_error on_recovery
  INITIAL_BACKOFF MAX_BACKOFF
proof
  show "outage_inv outage_default"
    by (rule outage_inv_default)
next
  fix s :: "'a outage_state" and k e c
  show "snd (on_recovery s) = outage_default"
    by (rule on_recovery_default)
  show "sends (fst (on_error s k e c)) = []"
    by (simp add: on_error_def record_error_def Let_def)
  assume "outage_inv s"
  then show "\<exists>s'. snd (on_error s k e c) = Ret s' \<and> outage_inv s'"
    by (simp add: on_error_eq outage_inv_advance)
  from \<open>outage_inv s\<close>
  show "\<exists>d. sleeps (fst (on_error s k e c)) = [d]
      \<and> INITIAL_BACKOFF \<le> d \<and> d \<le> MAX_BACKOFF"
    by (simp add: on_error_eq outage_inv_def)
qed

section \<open>Runs\<close>

lemma outage_run_Cons:
  "outage_step st x = (es, Ret st1) \<Longrightarrow>
     outage_run st (x # xs) = (es @ fst (outage_run st1 xs), snd (outage_run st1 xs))"
  by (simp split: prod.splits)

declare outage_run.simps(2) [simp del]

lemma outage_run_inv:
  assumes "outage_inv st"
  shows "\<exists>es st'. outage_run st xs = (es, Ret st') \<and> outage_inv st' \<and>
    list_all (\<lambda>d. INITIAL_BACKOFF \<le> d \<and> d \<le> MAX_BACKOFF) (sleeps es)"
  using assms
proof (induction xs arbitrary: st)
  case Nil
  then show ?case by simp
next
  case (Cons x xs)
  obtain es st1 where s: "outage_step st x = (es, Ret st1)" and i: "outage_inv st1"
    and b: "\<forall>d \<in> set (sleeps (es :: effect list)). INITIAL_BACKOFF \<le> d \<and> d \<le> MAX_BACKOFF"
    using outage_step_inv [OF Cons.prems] by blast
  from Cons.IH [OF i] obtain fs st2 where "outage_run st1 xs = (fs, Ret st2)" "outage_inv st2"
    "list_all (\<lambda>d. INITIAL_BACKOFF \<le> d \<and> d \<le> MAX_BACKOFF) (sleeps (fs :: effect list))"
    by blast
  with s b show ?case by (auto simp: list_all_iff outage_run_Cons [OF s])
qed

text \<open>A run of errors alone: the waits double from the initial one up to the cap.\<close>

definition backoff_at :: "nat \<Rightarrow> duration" where
  "backoff_at n = min (from_secs (2 ^ n)) MAX_BACKOFF"

lemma backoff_at_0: "backoff_at 0 = INITIAL_BACKOFF"
  by (simp add: backoff_at_def backoff_consts)

lemma backoff_at_Suc: "min (backoff_at n * 2) MAX_BACKOFF = backoff_at (Suc n)"
  by (auto simp: backoff_at_def backoff_consts min_def)

lemma errors_run_from:
  assumes "outage_inv st" and "next_backoff st = backoff_at n"
  shows "sleeps (fst (outage_run st (map (\<lambda>(k, e, c). OnError k e c) xs))) =
      map backoff_at [n..<n + length xs] \<and>
    (\<exists>st'. snd (outage_run st (map (\<lambda>(k, e, c). OnError k e c) xs) ::
        effect list \<times> 'k outage_state outcome) = Ret st' \<and>
      next_backoff st' = backoff_at (n + length xs))"
  using assms
proof (induction xs arbitrary: st n)
  case Nil
  then show ?case by simp
next
  case (Cons x xs)
  obtain k e c where x: "x = (k, e, c)" by (cases x)
  let ?st1 = "\<lparr>last_error_kind = Some k, next_backoff = min (next_backoff st * 2) MAX_BACKOFF\<rparr>"
  have "next_backoff ?st1 = backoff_at (Suc n)"
    using Cons.prems(2) by (simp add: backoff_at_Suc)
  note ih = Cons.IH [OF outage_inv_advance [OF Cons.prems(1)] this]
  have step: "outage_step st (OnError k e c) = (fst (on_error st k e c), Ret ?st1)"
    by (simp add: on_error_eq [OF Cons.prems(1)])
  show ?case
    using ih Cons.prems
    by (simp add: x outage_run_Cons [OF step] on_error_eq upt_rec [of n] Suc_le_eq)
qed

lemma errors_run_end:
  assumes "outage_inv st"
  shows "sends (fst (outage_run st (map (\<lambda>(k, e, c). OnError k e c) xs))) = [] \<and>
    (\<exists>st'. snd (outage_run st (map (\<lambda>(k, e, c). OnError k e c) xs)) = Ret st' \<and>
      (is_in_outage st' \<longleftrightarrow> is_in_outage st \<or> xs \<noteq> []))"
  using assms
proof (induction xs arbitrary: st)
  case (Cons x xs)
  obtain k e c where x: "x = (k, e, c)" by (cases x)
  let ?st1 = "\<lparr>last_error_kind = Some k, next_backoff = min (next_backoff st * 2) MAX_BACKOFF\<rparr>"
  have step: "outage_step st (OnError k e c) = (fst (on_error st k e c), Ret ?st1)"
    by (simp add: on_error_eq [OF Cons.prems])
  show ?case
    using Cons.IH [OF outage_inv_advance [OF Cons.prems, of k]] backoff.on_err_sends [of st k e c]
    by (auto simp: x outage_run_Cons [OF step] is_in_outage_def)
qed simp

lemma errors_run_quiet: "sends (fst (outage_run outage_default (map (\<lambda>(k, e, c). OnError k e c) xs))) = []"
  using errors_run_end [OF outage_inv_default, of xs] by simp

lemma errors_run_in_outage:
  "snd (outage_run outage_default (map (\<lambda>(k, e, c). OnError k e c) xs)) = Ret st \<Longrightarrow> is_in_outage st \<longleftrightarrow> xs \<noteq> []"
  using errors_run_end [OF outage_inv_default, of xs] by (auto simp: is_in_outage_def outage_default_def)

lemma error_runs_nonempty: "error_runs xs \<noteq> []"
  by (induction xs rule: error_runs.induct) (auto split: list.splits)

lemma error_logs_run:
  assumes "outage_inv st"
  shows "error_logs (fst (outage_run st xs)) =
    first_of_each_kind (last_error_kind st) (hd (error_runs xs)) @
    concat (map (first_of_each_kind None) (tl (error_runs xs)))"
  using assms
proof (induction xs arbitrary: st)
  case Nil
  then show ?case by simp
next
  case (Cons x xs)
  obtain r rs where rr: "error_runs xs = r # rs"
    using error_runs_nonempty [of xs] by (cases "error_runs xs") auto
  show ?case
  proof (cases x)
    case (OnError k e c)
    let ?st1 = "\<lparr>last_error_kind = Some k, next_backoff = min (next_backoff st * 2) MAX_BACKOFF\<rparr>"
    show ?thesis
      using OnError rr Cons.IH [OF outage_inv_advance [OF Cons.prems, of k]]
      by (simp add: outage_run_Cons [of st "OnError k e c" _ ?st1] on_error_eq [OF Cons.prems])
  next
    case (RecordError k e c)
    obtain b st' es where r: "record_error st k e c = (b, st', es :: effect list)"
      by (metis prod_cases3)
    show ?thesis
      using RecordError rr r Cons.IH [OF record_error_inv [OF Cons.prems r]]
        record_error_kind [OF r] record_error_effects [OF r]
      by (simp add: outage_run_Cons [of st "RecordError k e c" es st'])
  next
    case OnRecovery
    show ?thesis
      using OnRecovery rr Cons.IH [OF outage_inv_default]
      by (simp add: outage_run_Cons [of st OnRecovery "[]" outage_default] on_recovery_default)
        (simp add: outage_default_def)
  qed
qed

section \<open>Properties\<close>

text \<open>
  C7: From the default state, no sequence of calls of \<open>on_error\<close>, \<open>record_error\<close> and
  \<open>on_recovery\<close> panics, and every wait it makes lies between one and thirty seconds.
\<close>

theorem outage_run_safe:
  "\<exists>es st. outage_run outage_default ops = (es, Ret st) \<and> outage_inv st \<and>
     list_all (\<lambda>d. from_secs 1 \<le> d \<and> d \<le> from_secs 30) (sleeps es)"
  using outage_run_inv [OF outage_inv_default, of ops]
  by (simp add: INITIAL_BACKOFF_def MAX_BACKOFF_def)

text \<open>
  Whatever the error kinds, the \<open>i\<close>-th of a run of consecutive failures waits
  \<open>2 ^ i\<close> seconds, at most thirty, and the timer left behind continues that sequence.
\<close>

theorem on_error_backoff_sequence:
  "\<exists>es st. outage_run outage_default (map (\<lambda>(k, e, c). OnError k e c) xs) = (es, Ret st) \<and>
     sleeps es = map (\<lambda>i. min (from_secs (2 ^ i)) (from_secs 30)) [0..<length xs] \<and>
     next_backoff st = min (from_secs (2 ^ length xs)) (from_secs 30)"
proof -
  have "next_backoff (outage_default :: 'a outage_state) = backoff_at 0"
    by (simp add: backoff_at_0 outage_default_def)
  from errors_run_from [OF outage_inv_default this, of xs] show ?thesis
    by (auto simp: backoff_at_def MAX_BACKOFF_def prod_eq_iff)
qed

text \<open>
  C18: The error lines of any sequence of calls are exactly those of the specification:
  between two recoveries a line is written for the first error and whenever the kind differs
  from the one before, by \<open>on_error\<close> and \<open>record_error\<close> alike.
\<close>

theorem error_lines_deduplicated:
  "error_logs (fst (outage_run outage_default ops)) =
     concat (map (first_of_each_kind None) (error_runs ops))"
proof -
  obtain r rs where "error_runs ops = r # rs"
    using error_runs_nonempty [of ops] by (cases "error_runs ops") auto
  then show ?thesis
    using error_logs_run [OF outage_inv_default, of ops] by (simp add: outage_default_def)
qed

text \<open>
  A recovery reports whether an outage was in progress and forgets it: the next calls
  behave as on a fresh state, whatever happened before, and a second recovery reports none.
\<close>

theorem on_recovery_resets:
  "fst (on_recovery st) = is_in_outage st \<and>
   outage_run st (OnRecovery # ops) = outage_run outage_default ops \<and>
   fst (on_recovery (snd (on_recovery st))) = False"
  by (simp add: outage_run_Cons [of st OnRecovery "[]" outage_default] on_recovery_default)
    (simp add: on_recovery_def outage_default_def is_in_outage_def)

end
