(* ===== verification/Double_Checked.thy ===== *)
theory Double_Checked
  imports Pubsub_Prelude
begin

text \<open>
  The crate's four shared maps (subscriber runtimes, Kafka producers, Redis connections, known
  mock topics) are filled the same way: look the key up under the read lock, and on a miss take
  the write lock, look again, and only then create the entry. The locale states what one such map
  provides; its lemmas say that the two critical sections behave as one and that an entry is
  created at most once however the sections of concurrent calls interleave.
\<close>

datatype 'k phase = ReadPhase 'k | WritePhase 'k

text \<open>The state after a sequence of critical sections of any number of callers.\<close>

fun run_phases ::
  "('k \<Rightarrow> 's \<Rightarrow> ('r \<times> 's) option) \<Rightarrow> ('k \<Rightarrow> 's \<Rightarrow> ('e + 'r) \<times> 's) \<Rightarrow> 'k phase list \<Rightarrow> 's \<Rightarrow> 's" where
  "run_phases rd wr [] s = s"
| "run_phases rd wr (ReadPhase k # ps) s =
     run_phases rd wr ps (case rd k s of None \<Rightarrow> s | Some (r, s') \<Rightarrow> s')"
| "run_phases rd wr (WritePhase k # ps) s = run_phases rd wr ps (snd (wr k s))"

locale double_checked =
  fixes lookup :: "'s \<Rightarrow> 'k \<Rightarrow> 'v option"
    and ident :: "'v \<Rightarrow> 'i"
    and read_phase :: "'k \<Rightarrow> 's \<Rightarrow> ('r \<times> 's) option"
    and write_phase :: "'k \<Rightarrow> 's \<Rightarrow> ('e + 'r) \<times> 's"
  assumes read_miss: "read_phase k s = None \<longleftrightarrow> lookup s k = None"
    and read_hit: "read_phase k s = Some (r, s') \<Longrightarrow> write_phase k s = (Inr r, s')"
    and read_keeps: "read_phase k s = Some (r, s') \<Longrightarrow>
      map_option ident (lookup s' j) = map_option ident (lookup s j)"
    and write_fails: "lookup s k = None \<Longrightarrow> write_phase k s = (Inl x, s') \<Longrightarrow>
      map_option ident (lookup s' j) = map_option ident (lookup s j)"
    and write_creates: "lookup s k = None \<Longrightarrow> write_phase k s = (Inr r, s') \<Longrightarrow>
      lookup s' k \<noteq> None \<and> (j \<noteq> k \<longrightarrow> lookup s' j = lookup s j)"
begin

text \<open>Without interference, reading first changes nothing.\<close>

lemma read_then_write:
  "(case read_phase k s of Some (r, s') \<Rightarrow> (Inr r, s') | None \<Rightarrow> write_phase k s) = write_phase k s"
  by (auto split: option.splits dest: read_hit)

lemma write_hit:
  assumes "lookup s k = Some e"
  obtains r s' where "write_phase k s = (Inr r, s')"
    and "\<And>j. map_option ident (lookup s' j) = map_option ident (lookup s j)"
proof -
  obtain r s' where "read_phase k s = Some (r, s')"
    using assms read_miss [of k s] by (cases "read_phase k s") auto
  then show ?thesis
    using that read_hit read_keeps by blast
qed

text \<open>One critical section never replaces an entry.\<close>

lemma write_keeps:
  assumes "lookup s j = Some e"
  shows "map_option ident (lookup (snd (write_phase k s)) j) = Some (ident e)"
proof (cases "lookup s k")
  case (Some e')
  then obtain r s' where "write_phase k s = (Inr r, s')"
    "map_option ident (lookup s' j) = map_option ident (lookup s j)"
    using write_hit by metis
  with assms show ?thesis by simp
next
  case None
  obtain x s' where w: "write_phase k s = (x, s')" by (cases "write_phase k s")
  show ?thesis
  proof (cases x)
    case (Inl y)
    with w None assms show ?thesis using write_fails [of s k y s' j] by simp
  next
    case (Inr r)
    with w None assms show ?thesis using write_creates [of s k r s' j] by auto
  qed
qed

lemma phases_keep:
  "map_option ident (lookup s j) = Some i \<Longrightarrow>
     map_option ident (lookup (run_phases read_phase write_phase ps s) j) = Some i"
proof (induction ps arbitrary: s)
  case (Cons p ps)
  show ?case
  proof (cases p)
    case (ReadPhase k)
    show ?thesis
    proof (cases "read_phase k s")
      case None
      with ReadPhase Cons show ?thesis by simp
    next
      case (Some x)
      obtain r s' where x: "x = (r, s')" by (cases x)
      have "map_option ident (lookup s' j) = Some i"
        using Cons.prems read_keeps [of k s r s' j] Some x by simp
      with ReadPhase Some x Cons.IH show ?thesis by simp
    qed
  next
    case (WritePhase k)
    with Cons show ?thesis using write_keeps by force
  qed
qed simp

lemma run_phases_append:
  "run_phases read_phase write_phase (ps @ qs) s =
     run_phases read_phase write_phase qs (run_phases read_phase write_phase ps s)"
proof (induction ps arbitrary: s)
  case (Cons p ps)
  then show ?case by (cases p) simp_all
qed simp

text \<open>
  Two callers that both missed: the first to get the write lock creates the entry, the second,
  whatever ran in between, is given that same one.
\<close>

lemma second_writer:
  assumes "lookup s k = None" and "write_phase k s = (Inr r, s1)"
    and "s2 = run_phases read_phase write_phase ps s1"
  obtains e e2 where "lookup s1 k = Some e" and "lookup (snd (write_phase k s2)) k = Some e2"
    and "ident e2 = ident e"
proof -
  obtain e where e: "lookup s1 k = Some e"
    using write_creates [OF assms(1,2)] by blast
  then have "map_option ident (lookup (run_phases read_phase write_phase (ps @ [WritePhase k]) s1) k)
      = Some (ident e)"
    by (intro phases_keep) simp
  moreover have "run_phases read_phase write_phase (ps @ [WritePhase k]) s1 = snd (write_phase k s2)"
    by (simp add: run_phases_append assms(3))
  ultimately show ?thesis
    using that e by auto
qed

end

end
