(* ===== verification/Broadcast.thy ===== *)
theory Broadcast
  imports Pubsub_Prelude
begin

text \<open>
  The broadcast channel of the runtime library, as the cache, the background tasks and the mock
  server use it. The library is not part of the repository: its operations are a record of
  functions, and \<open>broadcast_documented\<close> states what its documentation promises, in terms of what
  was sent on a channel, of where a receiver stands in that, and of how much a channel retains.
  The lemmas describe what a receiver gets while others send, subscribe, receive and leave.
\<close>

section \<open>Operations\<close>

text \<open>
  One poll of a receiver: a value, the number of values it has missed, nothing yet, or the end
  when all senders are gone.
\<close>

datatype 'a recv = Item 'a | LaggedBy nat | NothingYet | ChannelEnd

text \<open>
  A new channel comes with its first receiver. Sending returns nothing that the code looks at:
  without receivers the value is lost.
\<close>

record ('c, 'r, 'a) broadcast =
  ch_channel :: "nat \<Rightarrow> 'r \<times> 'c"
  ch_subscribe :: "'c \<Rightarrow> 'r \<times> 'c"
  ch_receiver_count :: "'c \<Rightarrow> nat"
  ch_send :: "'a \<Rightarrow> 'c \<Rightarrow> 'c"
  ch_recv :: "'r \<Rightarrow> 'c \<Rightarrow> 'a recv \<times> 'r \<times> 'c"
  ch_drop :: "'r \<Rightarrow> 'c \<Rightarrow> 'c"

text \<open>What the holders of a sender or a receiver do to a channel.\<close>

inductive channel_use :: "('c, 'r, 'a) broadcast \<Rightarrow> 'c \<Rightarrow> 'c \<Rightarrow> bool" for B where
  use_send: "channel_use B c (ch_send B a c)"
| use_recv: "channel_use B c (snd (snd (ch_recv B r c)))"
| use_drop: "channel_use B c (ch_drop B r c)"

section \<open>Documented behaviour\<close>

text \<open>What was sent, where a receiver stands in it, and the number of values retained.\<close>

record ('c, 'r, 'a) history =
  sent :: "'c \<Rightarrow> 'a list"
  cursor :: "'r \<Rightarrow> nat"
  capacity :: "'c \<Rightarrow> nat"

definition recv_documented :: "('c, 'r, 'a) history \<Rightarrow> 'r \<Rightarrow> 'c \<Rightarrow> 'a recv \<Rightarrow> 'r \<Rightarrow> bool" where
  "recv_documented H r c x r' \<longleftrightarrow>
     (let unread = length (sent H c) - cursor H r in
      case x of
        Item a \<Rightarrow> 0 < unread \<and> unread \<le> capacity H c \<and> a = sent H c ! cursor H r \<and> cursor H r' = cursor H r + 1
      | LaggedBy n \<Rightarrow> capacity H c < unread \<and> n = unread - capacity H c \<and> cursor H r' = cursor H r + n
      | NothingYet \<Rightarrow> unread = 0 \<and> cursor H r' = cursor H r
      | ChannelEnd \<Rightarrow> unread = 0 \<and> cursor H r' = cursor H r)"

text \<open>
  A channel retains at least the number of values it was made for. A receiver starts behind what
  was sent before it subscribed. A value sent while there are receivers is added. A receiver
  gets the values in order; one that is further behind than the channel retains is told how many
  values it has missed and goes on with the oldest one retained.
\<close>

definition broadcast_documented :: "('c, 'r, 'a) broadcast \<Rightarrow> ('c, 'r, 'a) history \<Rightarrow> bool" where
  "broadcast_documented B H \<longleftrightarrow>
     (\<forall>n. let (r, c) = ch_channel B n in
        sent H c = [] \<and> cursor H r = 0 \<and> n \<le> capacity H c \<and> ch_receiver_count B c = 1) \<and>
     (\<forall>c. let (r, c') = ch_subscribe B c in
        sent H c' = sent H c \<and> cursor H r = length (sent H c) \<and> capacity H c' = capacity H c \<and>
        ch_receiver_count B c' = ch_receiver_count B c + 1) \<and>
     (\<forall>a c. sent H (ch_send B a c) = (if ch_receiver_count B c > 0 then sent H c @ [a] else sent H c) \<and>
        capacity H (ch_send B a c) = capacity H c \<and>
        ch_receiver_count B (ch_send B a c) = ch_receiver_count B c) \<and>
     (\<forall>r c. let (x, r', c') = ch_recv B r c in
        sent H c' = sent H c \<and> capacity H c' = capacity H c \<and>
        ch_receiver_count B c' = ch_receiver_count B c \<and>
        (cursor H r \<le> length (sent H c) \<longrightarrow> recv_documented H r c x r')) \<and>
     (\<forall>r c. sent H (ch_drop B r c) = sent H c \<and> capacity H (ch_drop B r c) = capacity H c \<and>
        ch_receiver_count B (ch_drop B r c) = ch_receiver_count B c - 1)"

section \<open>One receiver among others\<close>

text \<open>
  What happens on a channel while one receiver lives: values are sent, the receiver is polled,
  and other receivers come, are polled and go.
\<close>

datatype ('r, 'a) channel_event = Sent 'a | Polled | OtherJoined | OtherPolled 'r | OtherLeft 'r

fun channel_run ::
  "('c, 'r, 'a) broadcast \<Rightarrow> ('r, 'a) channel_event list \<Rightarrow> 'r \<Rightarrow> 'c \<Rightarrow> 'a recv list \<times> 'r \<times> 'c" where
  "channel_run B [] r c = ([], r, c)"
| "channel_run B (Sent a # evs) r c = channel_run B evs r (ch_send B a c)"
| "channel_run B (Polled # evs) r c =
     (let (x, r', c') = ch_recv B r c; (xs, r'', c'') = channel_run B evs r' c' in (x # xs, r'', c''))"
| "channel_run B (OtherJoined # evs) r c = channel_run B evs r (snd (ch_subscribe B c))"
| "channel_run B (OtherPolled q # evs) r c = channel_run B evs r (snd (snd (ch_recv B q c)))"
| "channel_run B (OtherLeft q # evs) r c = channel_run B evs r (ch_drop B q c)"

text \<open>Only receivers that are there leave: \<open>n\<close> is the number of the others.\<close>

fun others_ok :: "nat \<Rightarrow> ('r, 'a) channel_event list \<Rightarrow> bool" where
  "others_ok n [] = True"
| "others_ok n (OtherJoined # evs) = others_ok (Suc n) evs"
| "others_ok n (OtherLeft q # evs) = (0 < n \<and> others_ok (n - 1) evs)"
| "others_ok n (_ # evs) = others_ok n evs"

fun values_sent :: "('r, 'a) channel_event list \<Rightarrow> 'a list" where
  "values_sent [] = []"
| "values_sent (Sent a # evs) = a # values_sent evs"
| "values_sent (_ # evs) = values_sent evs"

text \<open>
  The receiver is never polled with more than \<open>n\<close> values unread; \<open>u\<close> counts the unread ones.
\<close>

fun keeps_up :: "nat \<Rightarrow> nat \<Rightarrow> ('r, 'a) channel_event list \<Rightarrow> bool" where
  "keeps_up n u [] = True"
| "keeps_up n u (Sent a # evs) = keeps_up n (Suc u) evs"
| "keeps_up n u (Polled # evs) = (u \<le> n \<and> keeps_up n (u - 1) evs)"
| "keeps_up n u (_ # evs) = keeps_up n u evs"

text \<open>The unread values at the end, and the values received.\<close>

fun unread_after :: "nat \<Rightarrow> ('r, 'a) channel_event list \<Rightarrow> nat" where
  "unread_after u [] = u"
| "unread_after u (Sent a # evs) = unread_after (Suc u) evs"
| "unread_after u (Polled # evs) = unread_after (u - 1) evs"
| "unread_after u (_ # evs) = unread_after u evs"

definition items_of :: "'a recv list \<Rightarrow> 'a list" where
  "items_of xs = List.map_filter (\<lambda>x. case x of Item a \<Rightarrow> Some a | _ \<Rightarrow> None) xs"

definition lags_of :: "'a recv list \<Rightarrow> nat list" where
  "lags_of xs = List.map_filter (\<lambda>x. case x of LaggedBy n \<Rightarrow> Some n | _ \<Rightarrow> None) xs"

text \<open>What the polls account for: a value itself, a lag that many values, the others nothing.\<close>

fun accounts :: "'a recv \<Rightarrow> 'a list \<Rightarrow> bool" where
  "accounts (Item a) g = (g = [a])"
| "accounts (LaggedBy n) g = (0 < n \<and> length g = n)"
| "accounts NothingYet g = (g = [])"
| "accounts ChannelEnd g = (g = [])"

section \<open>Lemmas\<close>

lemma items_of_simps [simp]:
  "items_of [] = []" "items_of (Item a # xs) = a # items_of xs" "items_of (LaggedBy n # xs) = items_of xs"
  "items_of (NothingYet # xs) = items_of xs" "items_of (ChannelEnd # xs) = items_of xs"
  by (simp_all add: items_of_def)

lemma lags_of_simps [simp]:
  "lags_of [] = []" "lags_of (Item a # xs) = lags_of xs" "lags_of (LaggedBy n # xs) = n # lags_of xs"
  "lags_of (NothingYet # xs) = lags_of xs" "lags_of (ChannelEnd # xs) = lags_of xs"
  by (simp_all add: lags_of_def)

lemma documented_channel:
  assumes "broadcast_documented B H" and "ch_channel B n = (r, c)"
  shows "sent H c = []" and "cursor H r = 0" and "n \<le> capacity H c" and "ch_receiver_count B c = 1"
  using assms(1) unfolding broadcast_documented_def by (auto simp: assms(2) dest!: spec [of _ n])

lemma documented_subscribe:
  assumes "broadcast_documented B H" and "ch_subscribe B c = (r, c')"
  shows "sent H c' = sent H c" and "cursor H r = length (sent H c)" and "capacity H c' = capacity H c"
    and "ch_receiver_count B c' = ch_receiver_count B c + 1"
  using assms(1) unfolding broadcast_documented_def by (auto simp: assms(2) dest!: spec [of _ c])

lemma documented_send:
  assumes "broadcast_documented B H"
  shows "sent H (ch_send B a c) = (if ch_receiver_count B c > 0 then sent H c @ [a] else sent H c)"
    and "capacity H (ch_send B a c) = capacity H c"
    and "ch_receiver_count B (ch_send B a c) = ch_receiver_count B c"
  using assms unfolding broadcast_documented_def by blast+

lemma documented_recv:
  assumes "broadcast_documented B H" and "ch_recv B r c = (x, r', c')"
  shows "sent H c' = sent H c" and "capacity H c' = capacity H c"
    and "ch_receiver_count B c' = ch_receiver_count B c"
    and "cursor H r \<le> length (sent H c) \<Longrightarrow> recv_documented H r c x r'"
proof -
  have "\<forall>r c. let (x, r', c') = ch_recv B r c in
        sent H c' = sent H c \<and> capacity H c' = capacity H c \<and>
        ch_receiver_count B c' = ch_receiver_count B c \<and>
        (cursor H r \<le> length (sent H c) \<longrightarrow> recv_documented H r c x r')"
    using assms(1) unfolding broadcast_documented_def by blast
  from this [rule_format, of r c] show "sent H c' = sent H c" and "capacity H c' = capacity H c"
    and "ch_receiver_count B c' = ch_receiver_count B c"
    and "cursor H r \<le> length (sent H c) \<Longrightarrow> recv_documented H r c x r'"
    by (simp_all add: assms(2))
qed

lemma documented_drop:
  assumes "broadcast_documented B H"
  shows "sent H (ch_drop B r c) = sent H c" and "capacity H (ch_drop B r c) = capacity H c"
    and "ch_receiver_count B (ch_drop B r c) = ch_receiver_count B c - 1"
  using assms unfolding broadcast_documented_def by blast+

lemma channel_use_capacity:
  assumes "broadcast_documented B H" and "channel_use B c c'"
  shows "capacity H c' = capacity H c"
  using assms(2)
proof cases
  case (use_recv r)
  then show ?thesis using documented_recv(2) [OF assms(1), of r c] by (metis prod.collapse)
qed (simp_all add: documented_send [OF assms(1)] documented_drop [OF assms(1)])

text \<open>A poll accounts for what it moves the cursor over.\<close>

lemma recv_accounts:
  assumes "recv_documented H r c x r'" and "cursor H r \<le> length (sent H c)"
  shows "\<exists>g. accounts x g \<and> drop (cursor H r) (sent H c) = g @ drop (cursor H r') (sent H c) \<and>
    cursor H r' \<le> length (sent H c)"
proof (cases x)
  case (Item a)
  with assms have "cursor H r < length (sent H c)" "a = sent H c ! cursor H r" "cursor H r' = Suc (cursor H r)"
    by (auto simp: recv_documented_def)
  with Item show ?thesis by (intro exI [of _ "[a]"]) (simp add: Cons_nth_drop_Suc)
next
  case (LaggedBy n)
  with assms have n: "0 < n" "cursor H r' = cursor H r + n" "cursor H r + n \<le> length (sent H c)"
    by (auto simp: recv_documented_def Let_def)
  then have "drop (cursor H r) (sent H c) = take n (drop (cursor H r) (sent H c)) @ drop (cursor H r') (sent H c)"
    by (metis add.commute append_take_drop_id drop_drop)
  with LaggedBy n show ?thesis
    by (intro exI [of _ "take n (drop (cursor H r) (sent H c))"]) simp
qed (use assms in \<open>auto simp: recv_documented_def Let_def\<close>)

lemma channel_run_accounts:
  assumes "broadcast_documented B H" and "channel_run B evs r c = (xs, r', c')"
    and "cursor H r \<le> length (sent H c)" and "ch_receiver_count B c = Suc n" and "others_ok n evs"
  shows "sent H c' = sent H c @ values_sent evs \<and> cursor H r' \<le> length (sent H c') \<and>
    (\<exists>gs. list_all2 accounts xs gs \<and>
       drop (cursor H r) (sent H c @ values_sent evs) = concat gs @ drop (cursor H r') (sent H c'))"
  using assms(2-5)
proof (induction evs arbitrary: r c xs n)
  case (Cons ev evs)
  note IH = Cons.IH and prems = Cons.prems
  show ?case
  proof (cases ev)
    case (Sent a)
    then show ?thesis
      using IH [of r "ch_send B a c" xs n] prems by (auto simp: documented_send [OF assms(1)])
  next
    case Polled
    obtain x r1 c1 where x: "ch_recv B r c = (x, r1, c1)" by (metis prod_cases3)
    obtain ys where ys: "channel_run B evs r1 c1 = (ys, r', c')" "xs = x # ys"
      using prems(1) by (auto simp: Polled x Let_def split: prod.splits)
    note d = documented_recv [OF assms(1) x]
    obtain g where g: "accounts x g" "drop (cursor H r) (sent H c) = g @ drop (cursor H r1) (sent H c)"
      "cursor H r1 \<le> length (sent H c)"
      using recv_accounts [OF d(4) [OF prems(2)] prems(2)] by blast
    obtain gs where "sent H c' = sent H c @ values_sent evs" "cursor H r' \<le> length (sent H c')"
      "list_all2 accounts ys gs"
      "drop (cursor H r1) (sent H c @ values_sent evs) = concat gs @ drop (cursor H r') (sent H c')"
      using IH [OF ys(1), of n] g(3) prems(3,4) by (auto simp: d Polled)
    with g prems(2) show ?thesis
      by (intro conjI exI [of _ "g # gs"]) (simp_all add: ys(2) Polled)
  next
    case OtherJoined
    obtain q d where q: "ch_subscribe B c = (q, d)" by fastforce
    with OtherJoined IH [of r d xs "Suc n"] prems documented_subscribe [OF assms(1) q] show ?thesis by auto
  next
    case (OtherPolled q)
    obtain x r1 c1 where x: "ch_recv B q c = (x, r1, c1)" by (metis prod_cases3)
    with OtherPolled IH [of r c1 xs n] prems documented_recv(1,3) [OF assms(1) x] show ?thesis by auto
  next
    case (OtherLeft q)
    with IH [of r "ch_drop B q c" xs "n - 1"] prems show ?thesis by (auto simp: documented_drop [OF assms(1)])
  qed
qed simp

lemma list_all2_accounts_items:
  "list_all2 accounts xs gs \<Longrightarrow> lags_of xs = [] \<Longrightarrow> concat gs = items_of xs"
proof (induction xs gs rule: list_all2_induct)
  case (Cons x xs g gs)
  then show ?case by (cases x) simp_all
qed simp

lemma channel_run_keeps_up:
  assumes "broadcast_documented B H" and "channel_run B evs r c = (xs, r', c')"
    and "cursor H r \<le> length (sent H c)" and "ch_receiver_count B c = Suc n" and "others_ok n evs"
    and "keeps_up N (length (sent H c) - cursor H r) evs" and "N \<le> capacity H c"
  shows "lags_of xs = [] \<and> length (sent H c') - cursor H r' = unread_after (length (sent H c) - cursor H r) evs"
  using assms(2-7)
proof (induction evs arbitrary: r c xs n)
  case (Cons ev evs)
  note IH = Cons.IH and prems = Cons.prems
  show ?case
  proof (cases ev)
    case (Sent a)
    then show ?thesis
      using IH [of r "ch_send B a c" xs n] prems by (simp add: documented_send [OF assms(1)] Suc_diff_le)
  next
    case Polled
    obtain x r1 c1 where x: "ch_recv B r c = (x, r1, c1)" by (metis prod_cases3)
    obtain ys where ys: "channel_run B evs r1 c1 = (ys, r', c')" "xs = x # ys"
      using prems(1) by (auto simp: Polled x Let_def split: prod.splits)
    note d = documented_recv [OF assms(1) x]
    have "length (sent H c) - cursor H r \<le> capacity H c" using prems(5,6) by (simp add: Polled)
    then have "lags_of [x] = []" "cursor H r1 \<le> length (sent H c)"
      "length (sent H c) - cursor H r1 = length (sent H c) - cursor H r - 1"
      using d(4) [OF prems(2)] prems(2) by (cases x; auto simp: recv_documented_def Let_def)+
    with IH [OF ys(1), of n] prems(3-6) show ?thesis
      by (cases x) (simp_all add: ys(2) d Polled)
  next
    case OtherJoined
    obtain q d where q: "ch_subscribe B c = (q, d)" by fastforce
    with OtherJoined IH [of r d xs "Suc n"] prems documented_subscribe [OF assms(1) q] show ?thesis by simp
  next
    case (OtherPolled q)
    obtain x r1 c1 where x: "ch_recv B q c = (x, r1, c1)" by (metis prod_cases3)
    with OtherPolled IH [of r c1 xs n] prems documented_recv(1,2,3) [OF assms(1) x] show ?thesis by simp
  next
    case (OtherLeft q)
    with IH [of r "ch_drop B q c" xs "n - 1"] prems show ?thesis by (simp add: documented_drop [OF assms(1)])
  qed
qed simp

text \<open>
  A receiver that keeps up gets every value in order: what it has received, followed by what is
  unread, is what was sent.
\<close>

lemma channel_run_complete:
  assumes "broadcast_documented B H" and "channel_run B evs r c = (xs, r', c')"
    and "cursor H r = length (sent H c)" and "ch_receiver_count B c = Suc n" and "others_ok n evs"
    and "keeps_up N 0 evs" and "N \<le> capacity H c"
  shows "lags_of xs = [] \<and> items_of xs @ drop (cursor H r') (sent H c') = values_sent evs \<and>
    length (drop (cursor H r') (sent H c')) = unread_after 0 evs"
proof -
  have le: "cursor H r \<le> length (sent H c)" and u: "length (sent H c) - cursor H r = 0" using assms(3) by simp_all
  note k = channel_run_keeps_up [OF assms(1,2) le assms(4,5) _ assms(7), unfolded u, OF assms(6)]
  obtain gs where "list_all2 accounts xs gs"
    "drop (cursor H r) (sent H c @ values_sent evs) = concat gs @ drop (cursor H r') (sent H c')"
    using channel_run_accounts [OF assms(1,2) le assms(4,5)] by blast
  with k list_all2_accounts_items [of xs gs] assms(3) show ?thesis by simp
qed

section \<open>A channel as documented\<close>

text \<open>
  The documented behaviour can be met: a channel that keeps its whole history and lets only the
  last values be read.
\<close>

record 'a log_channel =
  lc_sent :: "'a list"
  lc_capacity :: nat
  lc_receivers :: nat

definition log_recv :: "nat \<Rightarrow> 'a log_channel \<Rightarrow> 'a recv \<times> nat \<times> 'a log_channel" where
  "log_recv r c =
     (let unread = length (lc_sent c) - r in
      if unread = 0 then (NothingYet, r, c)
      else if unread \<le> lc_capacity c then (Item (lc_sent c ! r), r + 1, c)
      else (LaggedBy (unread - lc_capacity c), r + (unread - lc_capacity c), c))"

definition log_broadcast :: "('a log_channel, nat, 'a) broadcast" where
  "log_broadcast =
     \<lparr>ch_channel = (\<lambda>n. (0, \<lparr>lc_sent = [], lc_capacity = n, lc_receivers = 1\<rparr>)),
      ch_subscribe = (\<lambda>c. (length (lc_sent c), c\<lparr>lc_receivers := lc_receivers c + 1\<rparr>)),
      ch_receiver_count = lc_receivers,
      ch_send = (\<lambda>a c. if lc_receivers c > 0 then c\<lparr>lc_sent := lc_sent c @ [a]\<rparr> else c),
      ch_recv = log_recv,
      ch_drop = (\<lambda>r c. c\<lparr>lc_receivers := lc_receivers c - 1\<rparr>)\<rparr>"

definition log_history :: "('a log_channel, nat, 'a) history" where
  "log_history = \<lparr>sent = lc_sent, cursor = id, capacity = lc_capacity\<rparr>"

lemma log_broadcast_documented: "broadcast_documented log_broadcast log_history"
  by (auto simp: broadcast_documented_def log_broadcast_def log_history_def log_recv_def
      recv_documented_def Let_def)

end
