(* ===== verification/Cache.thy ===== *)
theory Cache
  imports Backoff Double_Checked Broadcast "HOL-Library.Multiset"
begin

text \<open>
  The process-wide cache of subscriber runtimes, \<^verbatim>\<open>src/src/cache.rs\<close>. The state has the map
  behind \<open>RUNTIMES_MAP\<close>, the broadcast channels and cancellation tokens its entries refer to, the
  tasks spawned so far and whether the reaper runs. A critical section under the lock is one
  step: the look-up under the read lock, the double check under the write lock, the pass of the
  reaper. The broadcast channel of the runtime library is a parameter (theory \<open>Broadcast\<close>).
\<close>

section \<open>Constants and keys\<close>

definition REAPER_INTERVAL :: duration where
  "REAPER_INTERVAL = from_secs 10"

definition EVICT_AFTER_IDLE :: duration where
  "EVICT_AFTER_IDLE = from_secs 60"

definition DEFAULT_CHANNEL_CAPACITY :: nat where
  "DEFAULT_CHANNEL_CAPACITY = 100"

datatype source = Kafka | RedisPubSub | RedisStream

fun source_debug :: "source \<Rightarrow> string" where
  "source_debug Kafka = ''Kafka''"
| "source_debug RedisPubSub = ''RedisPubSub''"
| "source_debug RedisStream = ''RedisStream''"

record cache_key =
  ck_host :: string
  ck_topic :: string
  ck_source :: source

definition cache_key_new :: "string \<Rightarrow> string \<Rightarrow> source \<Rightarrow> cache_key" where
  "cache_key_new host topic src = \<lparr>ck_host = host, ck_topic = topic, ck_source = src\<rparr>"

text \<open>Owning the borrowed strings copies them.\<close>

definition into_owned :: "cache_key \<Rightarrow> cache_key" where
  "into_owned k = \<lparr>ck_host = ck_host k, ck_topic = ck_topic k, ck_source = ck_source k\<rparr>"

section \<open>State\<close>

text \<open>The channels of the cache carry byte messages.\<close>

type_synonym ('c, 'r) byte_broadcast = "('c, 'r, byte_message) broadcast"

text \<open>An entry refers to its token and its channel by number; instants are nanoseconds.\<close>

record cached_runtime =
  cancel_token :: nat
  sender :: nat
  last_used :: nat

text \<open>
  A spawned stream task holds a child of the token numbered \<open>task_parent\<close>, so it is cancelled
  when that token is, and a clone of the sender. \<open>task_fn\<close> is the function that was spawned.
\<close>

record 't task =
  task_parent :: nat
  task_host :: string
  task_topic :: string
  task_sender :: nat
  task_fn :: 't

record ('c, 't) process =
  runtimes :: "(cache_key, cached_runtime) hash_map"
  chans :: "nat \<Rightarrow> 'c"
  next_handle :: nat
  cancelled :: "nat list"
  tasks :: "'t task list"
  reaper_started :: bool

definition process_init :: "(nat \<Rightarrow> 'c) \<Rightarrow> ('c, 't) process" where
  "process_init cs = \<lparr>runtimes = [], chans = cs, next_handle = 0, cancelled = [], tasks = [],
     reaper_started = False\<rparr>"

section \<open>Operations\<close>

definition cached_runtime_new ::
  "('c, 'r) byte_broadcast \<Rightarrow> nat \<Rightarrow> ('c, 't) process \<Rightarrow> cached_runtime \<times> ('c, 't) process" where
  "cached_runtime_new B now s =
     (let n = next_handle s;
          (first, c) = ch_channel B DEFAULT_CHANNEL_CAPACITY
      in (\<lparr>cancel_token = n, sender = n, last_used = now\<rparr>,
          s\<lparr>chans := (chans s)(n := ch_drop B first c), next_handle := Suc n\<rparr>))"

text \<open>A new receiver, with the channel it reads.\<close>

definition cached_get_stream ::
  "('c, 'r) byte_broadcast \<Rightarrow> cached_runtime \<Rightarrow> ('c, 't) process \<Rightarrow> (nat \<times> 'r) \<times> ('c, 't) process" where
  "cached_get_stream B entry s =
     (let (r, c) = ch_subscribe B (chans s (sender entry)) in
      ((sender entry, r), s\<lparr>chans := (chans s)(sender entry := c)\<rparr>))"

definition receiver_count ::
  "('c, 'r) byte_broadcast \<Rightarrow> cached_runtime \<Rightarrow> ('c, 't) process \<Rightarrow> nat" where
  "receiver_count B entry s = ch_receiver_count B (chans s (sender entry))"

text \<open>The first critical section of \<open>get_raw_stream\<close>, under the read lock.\<close>

definition get_raw_stream_read ::
  "('c, 'r) byte_broadcast \<Rightarrow> cache_key \<Rightarrow> ('c, 't) process \<Rightarrow>
     ((nat \<times> 'r) \<times> ('c, 't) process) option" where
  "get_raw_stream_read B key s =
     map_option (\<lambda>entry. cached_get_stream B entry s) (hm_get (runtimes s) key)"

text \<open>The second one, under the write lock: check again, else start a runtime.\<close>

definition get_raw_stream_write ::
  "('c, 'r) byte_broadcast \<Rightarrow> nat \<Rightarrow> string \<Rightarrow> string \<Rightarrow> source \<Rightarrow> 't \<Rightarrow> ('c, 't) process \<Rightarrow>
     (nat \<times> 'r) \<times> ('c, 't) process" where
  "get_raw_stream_write B now host topic src stream_task s =
     (let key = cache_key_new host topic src in
      case hm_get (runtimes s) key of
        Some entry \<Rightarrow> cached_get_stream B entry s
      | None \<Rightarrow>
          let s1 = s\<lparr>reaper_started := True\<rparr>;
              (entry, s2) = cached_runtime_new B now s1;
              s3 = s2\<lparr>tasks := \<lparr>task_parent = cancel_token entry, task_host = host,
                     task_topic = topic, task_sender = sender entry, task_fn = stream_task\<rparr>
                     # tasks s2\<rparr>;
              (stream, s4) = cached_get_stream B entry s3
          in (stream, s4\<lparr>runtimes := hm_insert (runtimes s4) (into_owned key) entry\<rparr>))"

definition get_raw_stream ::
  "('c, 'r) byte_broadcast \<Rightarrow> nat \<Rightarrow> string \<Rightarrow> string \<Rightarrow> source \<Rightarrow> 't \<Rightarrow> ('c, 't) process \<Rightarrow>
     (nat \<times> 'r) \<times> ('c, 't) process" where
  "get_raw_stream B now host topic src stream_task s =
     (case get_raw_stream_read B (cache_key_new host topic src) s of
        Some stream \<Rightarrow> stream
      | None \<Rightarrow> get_raw_stream_write B now host topic src stream_task s)"

text \<open>
  The closure of the typed stream: \<open>Inl\<close> is the rendering of a lag error of the receiver,
  \<open>convert\<close> is \<open>M::from\<close>.
\<close>

definition typed_item ::
  "source \<Rightarrow> (byte_message \<Rightarrow> 'm) \<Rightarrow> string + byte_message \<Rightarrow> 'm option \<times> effect list" where
  "typed_item src convert incoming =
     (case incoming of
        Inr msg \<Rightarrow> (Some (convert msg), [])
      | Inl err \<Rightarrow>
          (None, [LogWarn (source_debug src @
             '' broadcast receiver lagged, messages were dropped: '' @ err)]))"

fun typed_stream ::
  "source \<Rightarrow> (byte_message \<Rightarrow> 'm) \<Rightarrow> (string + byte_message) list \<Rightarrow> 'm list \<times> effect list" where
  "typed_stream src convert [] = ([], [])"
| "typed_stream src convert (x # xs) =
     (let (m, es) = typed_item src convert x; (ms, fs) = typed_stream src convert xs in
      ((case m of None \<Rightarrow> ms | Some y \<Rightarrow> y # ms), es @ fs))"

text \<open>Dropping an entry cancels its token.\<close>

definition drop_runtimes :: "cached_runtime list \<Rightarrow> ('c, 't) process \<Rightarrow> ('c, 't) process" where
  "drop_runtimes es s = s\<lparr>cancelled := map cancel_token es @ cancelled s\<rparr>"

definition reap_keep ::
  "('c, 'r) byte_broadcast \<Rightarrow> nat \<Rightarrow> ('c, 't) process \<Rightarrow> cache_key \<Rightarrow> cached_runtime \<Rightarrow>
     cached_runtime option" where
  "reap_keep B now s key entry =
     (if receiver_count B entry s > 0 then Some (entry\<lparr>last_used := now\<rparr>)
      else if now - last_used entry < EVICT_AFTER_IDLE then Some entry
      else None)"

text \<open>One iteration of the reaper after its sleep; \<open>now\<close> was read before the lock was taken.\<close>

definition reap_pass :: "('c, 'r) byte_broadcast \<Rightarrow> nat \<Rightarrow> ('c, 't) process \<Rightarrow> ('c, 't) process" where
  "reap_pass B now s =
     drop_runtimes (dropped (reap_keep B now s) (runtimes s))
       (s\<lparr>runtimes := retain (reap_keep B now s) (runtimes s)\<rparr>)"

section \<open>Interleaving\<close>

text \<open>
  A configuration is the process and the calls of \<open>get_raw_stream\<close> that missed under the read
  lock and wait for the write lock. Between any two critical sections other calls, the reaper
  and the users of the channels may run; the instants are those each step happened to read.
\<close>

type_synonym 't pending = "(string \<times> string \<times> source \<times> 't) list"

inductive cache_step ::
  "('c, 'r) byte_broadcast \<Rightarrow> ('c, 't) process \<times> 't pending \<Rightarrow> ('c, 't) process \<times> 't pending \<Rightarrow> bool"
  for B where
  read_hit: "get_raw_stream_read B (cache_key_new h t src) s = Some (r, s') \<Longrightarrow>
     cache_step B (s, ps) (s', ps)"
| read_miss: "get_raw_stream_read B (cache_key_new h t src) s = None \<Longrightarrow>
     cache_step B (s, ps) (s, (h, t, src, f) # ps)"
| write_lock: "(h, t, src, f) \<in> set ps \<Longrightarrow>
     get_raw_stream_write B now h t src f s = (r, s') \<Longrightarrow>
     cache_step B (s, ps) (s', remove1 (h, t, src, f) ps)"
| reap: "reaper_started s \<Longrightarrow> cache_step B (s, ps) (reap_pass B now s, ps)"
| channel: "channel_use B (chans s i) c \<Longrightarrow>
     cache_step B (s, ps) (s\<lparr>chans := (chans s)(i := c)\<rparr>, ps)"

inductive cache_reachable ::
  "('c, 'r) byte_broadcast \<Rightarrow> ('c, 't) process \<times> 't pending \<Rightarrow> bool" for B where
  start: "cache_reachable B (process_init cs, [])"
| step: "cache_reachable B c \<Longrightarrow> cache_step B c c' \<Longrightarrow> cache_reachable B c'"

section \<open>Invariant\<close>

definition running :: "('c, 't) process \<Rightarrow> 't task list" where
  "running s = filter (\<lambda>t. task_parent t \<notin> set (cancelled s)) (tasks s)"

definition task_view :: "'t task \<Rightarrow> string \<times> string \<times> nat \<times> nat" where
  "task_view t = (task_host t, task_topic t, task_parent t, task_sender t)"

definition entry_view :: "cache_key \<times> cached_runtime \<Rightarrow> string \<times> string \<times> nat \<times> nat" where
  "entry_view = (\<lambda>(k, e). (ck_host k, ck_topic k, cancel_token e, sender e))"

text \<open>
  The entries of the map and the tasks still running are the same runtimes; tokens are never
  shared and a fresh one was never cancelled.
\<close>

definition cache_inv :: "('c, 't) process \<Rightarrow> bool" where
  "cache_inv s \<longleftrightarrow>
     hm_wf (runtimes s) \<and>
     distinct (map (cancel_token \<circ> snd) (runtimes s)) \<and>
     distinct (map task_parent (tasks s)) \<and>
     list_all (\<lambda>n. n < next_handle s) (map task_parent (tasks s) @ cancelled s) \<and>
     entry_view ` set (runtimes s) = task_view ` set (running s) \<and>
     (runtimes s \<noteq> [] \<longrightarrow> reaper_started s)"

lemmas cache_defs_all = get_raw_stream_read_def get_raw_stream_write_def cached_get_stream_def
  cached_runtime_new_def Let_def into_owned_def

lemma cached_get_stream_frame:
  assumes "cached_get_stream B e s = (r, s')"
  shows "runtimes s' = runtimes s" "next_handle s' = next_handle s" "cancelled s' = cancelled s"
    "tasks s' = tasks s" "reaper_started s' = reaper_started s" "fst r = sender e"
  using assms by (auto simp: cached_get_stream_def split: prod.splits)

lemma cache_inv_frame:
  assumes "runtimes s' = runtimes s" "next_handle s' = next_handle s" "cancelled s' = cancelled s"
    "tasks s' = tasks s" "reaper_started s' = reaper_started s"
  shows "cache_inv s' = cache_inv s"
  using assms by (simp add: cache_inv_def running_def)

lemma cache_inv_cached_get_stream:
  "cached_get_stream B e s = (r, s') \<Longrightarrow> cache_inv s' = cache_inv s"
  by (rule cache_inv_frame) (auto dest: cached_get_stream_frame)

lemma cache_inv_init: "cache_inv (process_init cs)"
  by (simp add: cache_inv_def process_init_def running_def)

lemma get_raw_stream_write_miss:
  assumes "hm_get (runtimes s) (cache_key_new h t src) = None"
    and "get_raw_stream_write B now h t src f s = (r, s')"
  shows "runtimes s' = (cache_key_new h t src,
           \<lparr>cancel_token = next_handle s, sender = next_handle s, last_used = now\<rparr>) # runtimes s"
    and "tasks s' = \<lparr>task_parent = next_handle s, task_host = h, task_topic = t,
           task_sender = next_handle s, task_fn = f\<rparr> # tasks s"
    and "next_handle s' = Suc (next_handle s)" and "cancelled s' = cancelled s"
    and "reaper_started s'" and "fst r = next_handle s"
  using assms by (auto simp: cache_defs_all cache_key_new_def hm_insert_def hm_remove_id
      split: prod.splits)

lemma entry_task:
  assumes "cache_inv s" and "(k, e) \<in> set (runtimes s)"
  shows "(ck_host k, ck_topic k, cancel_token e, sender e) \<in> task_view ` set (running s)"
proof -
  have "entry_view (k, e) \<in> entry_view ` set (runtimes s)"
    using assms(2) by (rule imageI)
  with assms(1) show ?thesis by (simp add: cache_inv_def entry_view_def)
qed

lemma cache_inv_write_miss:
  assumes inv: "cache_inv s" and miss: "hm_get (runtimes s) (cache_key_new h t src) = None"
    and w: "get_raw_stream_write B now h t src f s = (r, s')"
  shows "cache_inv s'"
proof -
  let ?n = "next_handle s"
  note new = get_raw_stream_write_miss [OF miss w]
  have fresh: "?n \<notin> set (cancelled s)" "?n \<notin> task_parent ` set (tasks s)"
    using inv by (auto simp: cache_inv_def list_all_iff)
  have run: "running s' = \<lparr>task_parent = ?n, task_host = h, task_topic = t, task_sender = ?n,
      task_fn = f\<rparr> # running s"
    using fresh by (simp add: running_def new)
  have tok: "?n \<notin> set (map (cancel_token \<circ> snd) (runtimes s))"
  proof
    assume "?n \<in> set (map (cancel_token \<circ> snd) (runtimes s))"
    then obtain k e where "(k, e) \<in> set (runtimes s)" "cancel_token e = ?n" by auto
    then have "(ck_host k, ck_topic k, ?n, sender e) \<in> task_view ` set (running s)"
      using entry_task [OF inv, of k e] by simp
    then show False using fresh(2) by (auto simp: task_view_def running_def)
  qed
  show ?thesis
    unfolding cache_inv_def
  proof (intro conjI)
    show "hm_wf (runtimes s')"
      using inv miss by (simp add: new hm_wf_def cache_inv_def hm_get_None_iff)
    show "distinct (map (cancel_token \<circ> snd) (runtimes s'))"
      using inv tok by (simp add: new cache_inv_def)
    show "distinct (map task_parent (tasks s'))"
      using inv fresh(2) by (simp add: new cache_inv_def)
    show "list_all (\<lambda>n. n < next_handle s') (map task_parent (tasks s') @ cancelled s')"
      using inv by (auto simp: new cache_inv_def list_all_iff less_Suc_eq)
    show "entry_view ` set (runtimes s') = task_view ` set (running s')"
      using inv by (simp add: new run cache_inv_def)
        (simp add: entry_view_def task_view_def cache_key_new_def)
    show "runtimes s' \<noteq> [] \<longrightarrow> reaper_started s'"
      by (simp add: new)
  qed
qed

lemma cache_inv_write:
  assumes "cache_inv s" and "get_raw_stream_write B now h t src f s = (r, s')"
  shows "cache_inv s'"
proof (cases "hm_get (runtimes s) (cache_key_new h t src)")
  case None
  with assms show ?thesis by (rule_tac cache_inv_write_miss)
next
  case (Some e)
  with assms show ?thesis
    using cache_inv_cached_get_stream [of B e s r s'] by (simp add: get_raw_stream_write_def)
qed

lemma reap_keep_cases:
  "reap_keep B now s k e = Some e' \<Longrightarrow> cancel_token e' = cancel_token e \<and> sender e' = sender e"
  by (auto simp: reap_keep_def split: if_splits)

lemma map_retain_view:
  "map entry_view (retain (reap_keep B now s) m) =
     map entry_view (filter (\<lambda>(k, e). reap_keep B now s k e \<noteq> None) m)"
  by (induction m) (auto split: option.splits simp: entry_view_def dest: reap_keep_cases)

lemma entry_view_retain:
  "entry_view ` set (retain (reap_keep B now s) m) =
     entry_view ` {(k, e) \<in> set m. reap_keep B now s k e \<noteq> None}"
proof -
  have "entry_view ` set (retain (reap_keep B now s) m) =
      set (map entry_view (filter (\<lambda>(k, e). reap_keep B now s k e \<noteq> None) m))"
    by (simp only: map_retain_view [symmetric] set_map)
  then show ?thesis by (simp add: case_prod_unfold)
qed

lemma retain_tokens:
  "map (cancel_token \<circ> snd) (retain (reap_keep B now s) m) =
     map (cancel_token \<circ> snd) (filter (\<lambda>(k, e). reap_keep B now s k e \<noteq> None) m)"
  by (induction m) (auto split: option.splits dest: reap_keep_cases)

lemma dropped_token_iff:
  assumes inv: "cache_inv s" and m: "(k, e) \<in> set (runtimes s)"
  shows "cancel_token e \<in> cancel_token ` set (dropped f (runtimes s)) \<longleftrightarrow> f k e = None"
proof
  assume "cancel_token e \<in> cancel_token ` set (dropped f (runtimes s))"
  then obtain k' e' where e': "(k', e') \<in> set (runtimes s)" "f k' e' = None"
    and t: "cancel_token e = cancel_token e'"
    by (auto simp: in_set_dropped)
  have "inj_on (cancel_token \<circ> snd) (set (runtimes s))"
    using inv by (simp add: cache_inv_def distinct_map)
  then have "(k, e) = (k', e')"
    by (rule inj_onD) (use m e'(1) t in simp_all)
  with e'(2) show "f k e = None" by simp
next
  assume "f k e = None"
  with m show "cancel_token e \<in> cancel_token ` set (dropped f (runtimes s))"
    by (meson imageI in_set_dropped)
qed

lemma cache_inv_reap:
  assumes inv: "cache_inv s"
  shows "cache_inv (reap_pass B now s)"
proof -
  let ?f = "reap_keep B now s" and ?m = "runtimes s"
  let ?D = "cancel_token ` set (dropped ?f ?m)"
  have views: "entry_view ` set ?m = task_view ` set (running s)"
    and toks: "distinct (map (cancel_token \<circ> snd) ?m)"
    using inv by (simp_all add: cache_inv_def)
  note drop_iff = dropped_token_iff [OF inv, of _ _ ?f]
  have "entry_view ` {(k, e) \<in> set ?m. ?f k e \<noteq> None} =
      {v \<in> entry_view ` set ?m. fst (snd (snd v)) \<notin> ?D}"
    using drop_iff by (force simp: entry_view_def)
  also have "\<dots> = task_view ` set (running (reap_pass B now s))"
    unfolding views by (auto simp: running_def reap_pass_def drop_runtimes_def task_view_def)
  finally have "entry_view ` set (runtimes (reap_pass B now s)) =
      task_view ` set (running (reap_pass B now s))"
    by (simp add: reap_pass_def drop_runtimes_def entry_view_retain)
  moreover have "list_all (\<lambda>n. n < next_handle s) (map cancel_token (dropped ?f ?m))"
  proof -
    have "cancel_token e < next_handle s" if "(k, e) \<in> set ?m" for k e
    proof -
      have "entry_view (k, e) \<in> task_view ` set (running s)"
        using that views by blast
      then show ?thesis
        using inv by (auto simp: entry_view_def task_view_def running_def cache_inv_def list_all_iff)
    qed
    then show ?thesis by (auto simp: list_all_iff in_set_dropped)
  qed
  moreover have "runtimes s \<noteq> []" if "retain ?f ?m \<noteq> []"
    using that by (cases ?m) auto
  ultimately show ?thesis
    using inv toks
    by (auto simp: cache_inv_def reap_pass_def drop_runtimes_def hm_wf_retain retain_tokens
        distinct_map_filter)
qed

lemma cache_step_inv: "cache_step B c c' \<Longrightarrow> cache_inv (fst c) \<Longrightarrow> cache_inv (fst c')"
proof (induction rule: cache_step.induct)
  case (read_hit h t src s r s' ps)
  then obtain e where "cached_get_stream B e s = (r, s')"
    by (auto simp: get_raw_stream_read_def)
  with read_hit.prems show ?case by (simp add: cache_inv_cached_get_stream)
next
  case (channel s i c ps)
  then show ?case
    using cache_inv_frame [of "s\<lparr>chans := (chans s)(i := c)\<rparr>" s] by simp
qed (auto intro: cache_inv_write cache_inv_reap)

lemma cache_reachable_inv: "cache_reachable B c \<Longrightarrow> cache_inv (fst c)"
  by (induction rule: cache_reachable.induct) (auto simp: cache_inv_init intro: cache_step_inv)

section \<open>The cache as a double-checked map\<close>

text \<open>The write phase with the arguments of the call packed as in the locale; it cannot fail.\<close>

definition write_phase_of ::
  "('c, 'r) byte_broadcast \<Rightarrow> nat \<Rightarrow> 't \<Rightarrow> cache_key \<Rightarrow> ('c, 't) process \<Rightarrow>
     (unit + nat \<times> 'r) \<times> ('c, 't) process" where
  "write_phase_of B now f key s =
     (case get_raw_stream_write B now (ck_host key) (ck_topic key) (ck_source key) f s of
        (r, s') \<Rightarrow> (Inr r, s'))"

lemma cache_key_new_parts [simp]: "cache_key_new (ck_host k) (ck_topic k) (ck_source k) = k"
  by (simp add: cache_key_new_def)

interpretation runtime_cache: double_checked "\<lambda>s k. hm_get (runtimes s) k" cancel_token
  "get_raw_stream_read B" "write_phase_of B now f"
  for B :: "('c, 'r) byte_broadcast" and now :: nat and f :: 't
proof
  fix k j r and s s' :: "('c, 't) process"
  show "get_raw_stream_read B k s = None \<longleftrightarrow> hm_get (runtimes s) k = None"
    by (simp add: get_raw_stream_read_def)
  {
    assume hit: "get_raw_stream_read B k s = Some (r, s')"
    then obtain e where e: "hm_get (runtimes s) k = Some e" "cached_get_stream B e s = (r, s')"
      by (auto simp: get_raw_stream_read_def)
    then show "write_phase_of B now f k s = (Inr r, s')"
      by (simp add: write_phase_of_def get_raw_stream_write_def)
    from e show "map_option cancel_token (hm_get (runtimes s') j) =
        map_option cancel_token (hm_get (runtimes s) j)"
      using cached_get_stream_frame(1) by metis
  }
  assume miss: "hm_get (runtimes s) k = None"
  {
    assume "write_phase_of B now f k s = (Inr r, s')"
    then have "get_raw_stream_write B now (ck_host k) (ck_topic k) (ck_source k) f s = (r, s')"
      by (simp add: write_phase_of_def split: prod.splits)
    from get_raw_stream_write_miss(1) [OF _ this] miss
    show "hm_get (runtimes s') k \<noteq> None \<and>
        (j \<noteq> k \<longrightarrow> hm_get (runtimes s') j = hm_get (runtimes s) j)"
      by (simp add: hm_get_def)
  }
qed (simp add: write_phase_of_def split: prod.splits)

lemma get_raw_stream_eq_write:
  "get_raw_stream B now h t src f s = get_raw_stream_write B now h t src f s"
  using runtime_cache.read_hit [of B "cache_key_new h t src" s _ _ now f]
  by (auto simp: get_raw_stream_def write_phase_of_def split: option.splits prod.splits)
    (simp_all add: cache_key_new_def)

section \<open>Consequences of the invariant\<close>

lemma inv_views:
  assumes "cache_inv s"
  shows "mset (map entry_view (runtimes s)) = mset (map task_view (running s))"
proof -
  have "distinct (map (fst \<circ> snd \<circ> snd) (map entry_view (runtimes s)))"
    using assms by (simp add: cache_inv_def entry_view_def case_prod_unfold comp_def)
  then have "distinct (map entry_view (runtimes s))"
    by (auto simp: distinct_map intro: inj_on_imageI2)
  moreover have "distinct (map (fst \<circ> snd \<circ> snd) (map task_view (running s)))"
    using assms by (simp add: cache_inv_def task_view_def comp_def running_def distinct_map_filter)
  then have "distinct (map task_view (running s))"
    by (auto simp: distinct_map intro: inj_on_imageI2)
  moreover have "set (map entry_view (runtimes s)) = set (map task_view (running s))"
    using assms by (simp add: cache_inv_def)
  ultimately show ?thesis
    by (simp only: set_eq_iff_mset_eq_distinct)
qed

lemma write_entry:
  assumes "get_raw_stream_write B now h t src f s = (r, s')"
  shows "\<exists>e. hm_get (runtimes s') (cache_key_new h t src) = Some e \<and> sender e = fst r"
proof (cases "hm_get (runtimes s) (cache_key_new h t src)")
  case None
  from get_raw_stream_write_miss(1,6) [OF None assms] show ?thesis
    by (simp add: hm_get_def)
next
  case (Some e)
  with assms have "cached_get_stream B e s = (r, s')"
    by (simp add: get_raw_stream_write_def)
  with Some show ?thesis
    using cached_get_stream_frame(1,6) by metis
qed

lemma reap_pass_get:
  "hm_wf (runtimes s) \<Longrightarrow>
     hm_get (runtimes (reap_pass B now s)) k =
       (case hm_get (runtimes s) k of None \<Rightarrow> None | Some e \<Rightarrow> reap_keep B now s k e)"
  by (simp add: reap_pass_def drop_runtimes_def hm_get_retain)

lemma evicted_iff:
  "reap_keep B now s k e = None \<longleftrightarrow>
     receiver_count B e s = 0 \<and> last_used e + EVICT_AFTER_IDLE \<le> now"
  by (auto simp: reap_keep_def EVICT_AFTER_IDLE_def from_secs_def)

lemma reap_pass_cancelled:
  assumes inv: "cache_inv s" and k: "hm_get (runtimes s) k = Some e"
  shows "cancel_token e \<in> set (cancelled (reap_pass B now s)) \<longleftrightarrow>
    hm_get (runtimes (reap_pass B now s)) k = None"
proof -
  have wf: "hm_wf (runtimes s)" and m: "(k, e) \<in> set (runtimes s)"
    using inv k by (auto simp: cache_inv_def hm_get_in_set)
  have live: "cancel_token e \<notin> set (cancelled s)"
    using entry_task [OF inv m] by (auto simp: task_view_def running_def)
  have "cancel_token e \<in> cancel_token ` set (dropped (reap_keep B now s) (runtimes s)) \<longleftrightarrow>
      reap_keep B now s k e = None"
    by (rule dropped_token_iff [OF inv m])
  with live k show ?thesis
    by (simp add: reap_pass_get [OF wf]) (simp add: reap_pass_def drop_runtimes_def)
qed

lemma typed_stream_parts:
  "fst (typed_stream src convert xs) =
     map convert (List.map_filter (\<lambda>x. case x of Inl _ \<Rightarrow> None | Inr m \<Rightarrow> Some m) xs)"
  "length (warn_logs (snd (typed_stream src convert xs))) = length (filter isl xs)"
  by (induction xs) (auto simp: typed_item_def split: sum.splits prod.splits)

lemma write_keeps_entry:
  assumes "hm_get (runtimes s) k = Some e"
  shows "hm_get (runtimes (snd (get_raw_stream_write B now h t src f s))) k = Some e"
proof -
  obtain r s' where w: "get_raw_stream_write B now h t src f s = (r, s')"
    by (cases "get_raw_stream_write B now h t src f s")
  show ?thesis
  proof (cases "hm_get (runtimes s) (cache_key_new h t src)")
    case None
    with assms get_raw_stream_write_miss(1) [OF None w] show ?thesis
      by (auto simp: w hm_get_def)
  next
    case (Some e')
    with w have "cached_get_stream B e' s = (r, s')"
      by (simp add: get_raw_stream_write_def)
    with assms show ?thesis
      using cached_get_stream_frame(1) by (metis snd_conv w)
  qed
qed

section \<open>Properties\<close>

text \<open>A channel that counts its subscriptions, and the state after one first subscription.\<close>

definition counting_channel :: "(nat, unit) byte_broadcast" where
  "counting_channel =
     \<lparr>ch_channel = (\<lambda>_. ((), 1)), ch_subscribe = (\<lambda>c. ((), Suc c)), ch_receiver_count = (\<lambda>c. c),
      ch_send = (\<lambda>_ c. c), ch_recv = (\<lambda>r c. (NothingYet, r, c)), ch_drop = (\<lambda>_ c. c - 1)\<rparr>"

definition one_subscriber :: "(nat, unit) process" where
  "one_subscriber = snd (get_raw_stream_write counting_channel 0 ''h'' ''t'' Kafka ()
     (process_init (\<lambda>_. 0)))"

lemmas one_subscriber_simps = one_subscriber_def counting_channel_def cache_defs_all
  process_init_def cache_key_new_def hm_insert_def hm_remove_def

lemma one_subscriber_reachable: "cache_reachable counting_channel (one_subscriber, [])"
proof -
  let ?s = "process_init (\<lambda>_. 0) :: (nat, unit) process"
  have "cache_step counting_channel (?s, []) (?s, [(''h'', ''t'', Kafka, ())])"
    by (rule cache_step.read_miss) (simp add: get_raw_stream_read_def process_init_def)
  then have "cache_reachable counting_channel (?s, [(''h'', ''t'', Kafka, ())])"
    by (rule cache_reachable.step [OF cache_reachable.start])
  moreover have "cache_step counting_channel (?s, [(''h'', ''t'', Kafka, ())])
      (one_subscriber, remove1 (''h'', ''t'', Kafka, ()) [(''h'', ''t'', Kafka, ())])"
    unfolding one_subscriber_def
    by (rule cache_step.write_lock [where now = 0, OF _ prod.collapse [symmetric]]) simp
  ultimately show ?thesis
    using cache_reachable.step by fastforce
qed

lemma one_subscriber_entry:
  "hm_get (runtimes one_subscriber) (cache_key_new ''h'' ''t'' Kafka) =
     Some \<lparr>cancel_token = 0, sender = 0, last_used = 0\<rparr>"
  by (simp add: one_subscriber_simps hm_get_def)

text \<open>
  C1: However concurrent calls, the reaper and the channel users interleave, the cache holds
  at most one entry per host, topic and source, and its entries are exactly the background tasks
  that run: one uncancelled task per entry, with that entry's host, topic, token and channel, and
  no other.
\<close>

theorem one_task_per_key:
  assumes "cache_reachable B (s, ps)"
  shows "distinct (map fst (runtimes s)) \<and>
    mset (map entry_view (runtimes s)) = mset (map task_view (running s))"
  using cache_reachable_inv [OF assms] inv_views [of s]
  by (simp add: cache_inv_def hm_wf_def)

theorem one_task_per_key_witness:
  "distinct (map fst (runtimes one_subscriber)) \<and>
   mset (map entry_view (runtimes one_subscriber)) = mset (map task_view (running one_subscriber)) \<and>
   map task_view (running one_subscriber) = [(''h'', ''t'', 0, 0)]"
  using one_task_per_key [OF one_subscriber_reachable]
  by (simp add: one_subscriber_simps running_def task_view_def)

text \<open>
  Every stream handed out, on a hit under the read lock or after taking the write lock,
  reads the channel of an entry that is in the cache for the requested key at that moment, and
  the task that feeds this channel runs for the requested host and topic.
\<close>

theorem stream_is_fed:
  assumes "cache_reachable B (s, ps)"
    and "get_raw_stream_read B (cache_key_new h t src) s = Some (r, s') \<or>
      get_raw_stream_write B now h t src f s = (r, s')"
  shows "\<exists>e. hm_get (runtimes s') (cache_key_new h t src) = Some e \<and> sender e = fst r \<and>
    (h, t, cancel_token e, fst r) \<in> set (map task_view (running s'))"
proof -
  have w: "get_raw_stream_write B now h t src f s = (r, s')"
    using assms(2) runtime_cache.read_hit [of B "cache_key_new h t src" s r s' now f]
    by (auto simp: write_phase_of_def cache_key_new_def split: prod.splits)
  have inv: "cache_inv s'"
    using cache_reachable_inv [OF assms(1)] cache_inv_write [OF _ w] by simp
  obtain e where e: "hm_get (runtimes s') (cache_key_new h t src) = Some e" "sender e = fst r"
    using write_entry [OF w] by blast
  with entry_task [OF inv hm_get_SomeD [OF e(1)]] show ?thesis
    by (auto simp: cache_key_new_def)
qed

theorem stream_is_fed_witness:
  "\<exists>e. hm_get (runtimes (snd (get_raw_stream_write counting_channel 5 ''h'' ''t'' Kafka () one_subscriber)))
      (cache_key_new ''h'' ''t'' Kafka) = Some e \<and> sender e = 0"
proof -
  have w: "get_raw_stream_write counting_channel 5 ''h'' ''t'' Kafka () one_subscriber =
      ((0, ()), snd (get_raw_stream_write counting_channel 5 ''h'' ''t'' Kafka () one_subscriber))"
    by (simp add: one_subscriber_simps hm_get_def)
  show ?thesis
    using stream_is_fed [OF one_subscriber_reachable disjI2 [OF w]] by auto
qed

text \<open>
  The reaper evicts an entry exactly when it has no receiver and its stamp is sixty seconds
  old or more; it cancels the entry's token exactly when it evicts it, and it stamps the entries
  that have receivers.
\<close>

theorem reaper_evicts_idle:
  assumes "cache_reachable B (s, ps)" and "hm_get (runtimes s) k = Some e"
  shows "(hm_get (runtimes (reap_pass B now s)) k = None \<longleftrightarrow>
      receiver_count B e s = 0 \<and> last_used e + from_secs 60 \<le> now) \<and>
    (cancel_token e \<in> set (cancelled (reap_pass B now s)) \<longleftrightarrow>
      hm_get (runtimes (reap_pass B now s)) k = None) \<and>
    (receiver_count B e s > 0 \<longrightarrow>
      hm_get (runtimes (reap_pass B now s)) k = Some (e\<lparr>last_used := now\<rparr>))"
proof -
  have inv: "cache_inv s" and wf: "hm_wf (runtimes s)"
    using cache_reachable_inv [OF assms(1)] by (simp_all add: cache_inv_def)
  show ?thesis
    using reap_pass_cancelled [OF inv assms(2), of B now] assms(2)
    by (simp add: reap_pass_get [OF wf] evicted_iff)
      (simp add: EVICT_AFTER_IDLE_def reap_keep_def)
qed

theorem reaper_evicts_idle_witness:
  "receiver_count counting_channel \<lparr>cancel_token = 0, sender = 0, last_used = 0\<rparr> one_subscriber = 1 \<and>
   hm_get (runtimes (reap_pass counting_channel (from_secs 70) one_subscriber))
     (cache_key_new ''h'' ''t'' Kafka) =
     Some \<lparr>cancel_token = 0, sender = 0, last_used = from_secs 70\<rparr>"
proof -
  have "receiver_count counting_channel \<lparr>cancel_token = 0, sender = 0, last_used = 0\<rparr> one_subscriber = 1"
    by (simp add: one_subscriber_simps receiver_count_def)
  with reaper_evicts_idle [OF one_subscriber_reachable one_subscriber_entry, of "from_secs 70"]
  show ?thesis by simp
qed

text \<open>
  C34: The grace period runs from the last pass of the reaper that saw a listener, not from the
  last listener: a call that attaches to an existing runtime leaves its stamp alone, so once that
  listener is gone the next pass sixty seconds after the stamp evicts the runtime, however short
  the time since the call.
\<close>

theorem grace_runs_from_stamp:
  assumes "cache_reachable B (s, ps)"
    and "hm_get (runtimes s) (cache_key_new h t src) = Some e"
    and "get_raw_stream B now h t src f s = (r, s1)"
    and "receiver_count B e (s1\<lparr>chans := cs\<rparr>) = 0"
    and "last_used e + from_secs 60 \<le> later"
  shows "hm_get (runtimes (reap_pass B later (s1\<lparr>chans := cs\<rparr>))) (cache_key_new h t src) = None"
proof -
  have w: "get_raw_stream_write B now h t src f s = (r, s1)"
    using assms(3) by (simp add: get_raw_stream_eq_write)
  have "cache_inv s1"
    using cache_reachable_inv [OF assms(1)] cache_inv_write [OF _ w] by simp
  then have "hm_wf (runtimes (s1\<lparr>chans := cs\<rparr>))"
    by (simp add: cache_inv_def)
  moreover have "hm_get (runtimes s1) (cache_key_new h t src) = Some e"
    using write_keeps_entry [OF assms(2), of B now h t src f] w by simp
  ultimately show ?thesis
    using assms(4,5) by (simp add: reap_pass_get evicted_iff EVICT_AFTER_IDLE_def)
qed

theorem grace_runs_from_stamp_witness:
  "hm_get (runtimes (reap_pass counting_channel (from_secs 60)
      ((snd (get_raw_stream counting_channel (from_secs 59) ''h'' ''t'' Kafka () one_subscriber))
        \<lparr>chans := \<lambda>_. 0\<rparr>))) (cache_key_new ''h'' ''t'' Kafka) = None"
  by (rule grace_runs_from_stamp [OF one_subscriber_reachable one_subscriber_entry prod.collapse
        [symmetric]])
    (simp_all add: receiver_count_def counting_channel_def)

text \<open>
  A caller that finds no interference gets from the two-step look-up exactly what the
  write-locked section alone would give: the read-locked shortcut changes neither the stream nor
  the state.
\<close>

theorem read_shortcut_transparent:
  "get_raw_stream B now host topic src stream_task s =
     get_raw_stream_write B now host topic src stream_task s"
  by (rule get_raw_stream_eq_write)

text \<open>
  A typed stream yields the conversion of every message its receiver yields, in order and
  nothing else, and logs one warning per lag error.
\<close>

theorem typed_stream_delivers:
  "fst (typed_stream src convert xs) =
     map convert (List.map_filter (\<lambda>x. case x of Inl _ \<Rightarrow> None | Inr m \<Rightarrow> Some m) xs) \<and>
   length (warn_logs (snd (typed_stream src convert xs))) = length (filter isl xs)"
  by (simp add: typed_stream_parts)

end
