(* ===== verification/Kafka_Cache.thy ===== *)
theory Kafka_Cache
  imports Cache
begin

text \<open>
  The process-wide cache of Kafka producers, \<^verbatim>\<open>src/src/kafka_impl/kafka_cache/mod.rs\<close>. An
  entry shares its time stamp, an atomic 64-bit cell, with the clones callers take of it under the
  read lock, so a store can come after the lock is released; the cells are therefore a store of
  their own, and the step relation at the end has that store as a separate step.
\<close>

section \<open>State\<close>

definition as_secs :: "duration \<Rightarrow> u64" where
  "as_secs d = of_nat (d div 1000000000)"

definition saturating_sub :: "u64 \<Rightarrow> u64 \<Rightarrow> u64" where
  "saturating_sub a b = (if b \<le> a then a - b else 0)"

record 'p producer_cache_entry =
  producer :: 'p
  last_used_epoch_secs :: nat

record 'p producers =
  producer_map :: "(string, 'p producer_cache_entry) hash_map"
  cells :: "nat \<Rightarrow> u64"
  next_cell :: nat
  producer_reaper_started :: bool

definition producers_init :: "'p producers" where
  "producers_init = \<lparr>producer_map = [], cells = (\<lambda>_. 0), next_cell = 0, producer_reaper_started = False\<rparr>"

text \<open>\<open>store\<close> on a cell.\<close>

definition store_cell :: "nat \<Rightarrow> u64 \<Rightarrow> 'p producers \<Rightarrow> 'p producers" where
  "store_cell c now s = s\<lparr>cells := (cells s)(c := now)\<rparr>"

section \<open>Operations\<close>

text \<open>
  \<open>elapsed\<close> is the time since \<open>START\<close>, read once at the entry of \<open>get_kafka_producer\<close>; \<open>create\<close>
  is the client library's making of a producer, with its error already as \<open>PubSubError\<close>.
\<close>

definition now_secs :: "duration \<Rightarrow> u64" where
  "now_secs elapsed = as_secs elapsed"

definition get_producer_read ::
  "u64 \<Rightarrow> string \<Rightarrow> 'p producers \<Rightarrow> ('p \<times> 'p producers) option" where
  "get_producer_read now host s =
     map_option (\<lambda>entry. (producer entry, store_cell (last_used_epoch_secs entry) now s))
       (hm_get (producer_map s) host)"

definition get_producer_write ::
  "(string \<Rightarrow> pubsub_error + 'p) \<Rightarrow> u64 \<Rightarrow> string \<Rightarrow> 'p producers \<Rightarrow> (pubsub_error + 'p) \<times> 'p producers" where
  "get_producer_write create now host s =
     (case hm_get (producer_map s) host of
        Some entry \<Rightarrow> (Inr (producer entry), store_cell (last_used_epoch_secs entry) now s)
      | None \<Rightarrow>
          (case create host of
             Inl e \<Rightarrow> (Inl e, s)
           | Inr dflt \<Rightarrow>
               let c = next_cell s;
                   entry = \<lparr>producer = dflt, last_used_epoch_secs = c\<rparr>
               in (Inr dflt, s\<lparr>producer_map := hm_insert (producer_map s) host entry,
                    cells := (cells s)(c := now), next_cell := Suc c, producer_reaper_started := True\<rparr>)))"

definition get_kafka_producer ::
  "(string \<Rightarrow> pubsub_error + 'p) \<Rightarrow> duration \<Rightarrow> string \<Rightarrow> 'p producers \<Rightarrow> (pubsub_error + 'p) \<times> 'p producers" where
  "get_kafka_producer create elapsed host s =
     (let now = now_secs elapsed in
      case get_producer_read now host s of
        Some (p, s') \<Rightarrow> (Inr p, s')
      | None \<Rightarrow> get_producer_write create now host s)"

text \<open>One pass of the reaper; \<open>elapsed\<close> is read before the write lock is taken.\<close>

definition reap_unused_producers :: "duration \<Rightarrow> 'p producers \<Rightarrow> 'p producers" where
  "reap_unused_producers elapsed s =
     (let evict_after_secs = as_secs EVICT_AFTER_IDLE;
          now = now_secs elapsed
      in s\<lparr>producer_map := retain (\<lambda>_ entry.
           if saturating_sub now (cells s (last_used_epoch_secs entry)) < evict_after_secs
           then Some entry else None) (producer_map s)\<rparr>)"

section \<open>Interleavings\<close>

text \<open>
  The steps of concurrent callers: a clone taken under the read lock leaves a store to be done
  (host, cell and time), which happens at any later point; the write section and the pass of
  the reaper run under the write lock.
\<close>

type_synonym 'p producer_world = "'p producers \<times> (string \<times> nat \<times> u64) list"

inductive producer_step :: "'p producer_world \<Rightarrow> 'p producer_world \<Rightarrow> bool" where
  clone_entry: "hm_get (producer_map s) host = Some entry \<Longrightarrow>
    producer_step (s, owed) (s, (host, last_used_epoch_secs entry, now) # owed)"
| late_store: "(host, c, now) \<in> set owed \<Longrightarrow>
    producer_step (s, owed) (store_cell c now s, remove1 (host, c, now) owed)"
| write_section: "get_producer_write create now host s = (r, s') \<Longrightarrow>
    producer_step (s, owed) (s', owed)"
| reaper_pass: "producer_step (s, owed) (reap_unused_producers elapsed s, owed)"

inductive producers_reachable :: "'p producer_world \<Rightarrow> bool" where
  producers_start: "producers_reachable (producers_init, [])"
| producers_next: "producers_reachable w \<Longrightarrow> producer_step w w' \<Longrightarrow> producers_reachable w'"

text \<open>The time stamp of a host's entry.\<close>

definition stamp :: "'p producers \<Rightarrow> string \<Rightarrow> u64 option" where
  "stamp s host = map_option (\<lambda>e. cells s (last_used_epoch_secs e)) (hm_get (producer_map s) host)"

definition producers_inv :: "'p producer_world \<Rightarrow> bool" where
  "producers_inv w \<longleftrightarrow>
     hm_wf (producer_map (fst w)) \<and>
     (\<forall>h e. hm_get (producer_map (fst w)) h = Some e \<longrightarrow> last_used_epoch_secs e < next_cell (fst w)) \<and>
     (\<forall>h c now. (h, c, now) \<in> set (snd w) \<longrightarrow> c < next_cell (fst w)) \<and>
     (\<forall>h h' e e'. hm_get (producer_map (fst w)) h = Some e \<longrightarrow> hm_get (producer_map (fst w)) h' = Some e' \<longrightarrow>
        last_used_epoch_secs e = last_used_epoch_secs e' \<longrightarrow> h = h') \<and>
     (\<forall>h h' e c now. hm_get (producer_map (fst w)) h = Some e \<longrightarrow> (h', c, now) \<in> set (snd w) \<longrightarrow>
        last_used_epoch_secs e = c \<longrightarrow> h = h')"

section \<open>Lemmas\<close>

lemma saturating_sub_less:
  "saturating_sub a b < as_secs EVICT_AFTER_IDLE \<longleftrightarrow> unat a < unat b + 60"
proof -
  have e: "as_secs EVICT_AFTER_IDLE = 60"
    by (simp add: as_secs_def EVICT_AFTER_IDLE_def from_secs_def)
  show ?thesis
  proof (cases "b \<le> a")
    case True
    then have "unat (a - b) = unat a - unat b"
      by (rule unat_sub)
    moreover have "unat b \<le> unat a"
      using True by (simp add: word_le_nat_alt)
    ultimately show ?thesis
      using True by (auto simp: saturating_sub_def e word_less_nat_alt)
  next
    case False
    then have "unat a < unat b"
      by (simp add: word_le_nat_alt)
    with False show ?thesis
      by (simp add: saturating_sub_def e)
  qed
qed

interpretation kafka_producers: double_checked "\<lambda>s host. hm_get (producer_map s) host" producer
  "get_producer_read now" "get_producer_write create now"
  for now and create :: "string \<Rightarrow> pubsub_error + 'p"
  by unfold_locales
    (auto simp: get_producer_read_def get_producer_write_def store_cell_def Let_def
      split: option.splits sum.splits)

lemma get_kafka_producer_eq_write:
  "get_kafka_producer create elapsed host s = get_producer_write create (now_secs elapsed) host s"
  unfolding get_kafka_producer_def Let_def by (rule kafka_producers.read_then_write)

lemma get_producer_write_ok:
  "get_producer_write create now host s = (Inr p, s') \<Longrightarrow>
     map_option producer (hm_get (producer_map s') host) = Some p"
  by (auto simp: get_producer_write_def store_cell_def Let_def split: option.splits sum.splits)

lemma reap_get:
  "hm_wf (producer_map s) \<Longrightarrow>
     hm_get (producer_map (reap_unused_producers elapsed s)) host =
     (case hm_get (producer_map s) host of
        None \<Rightarrow> None
      | Some e \<Rightarrow> if unat (now_secs elapsed) < unat (cells s (last_used_epoch_secs e)) + 60 then Some e else None)"
  by (simp add: reap_unused_producers_def Let_def hm_get_retain saturating_sub_less split: option.splits)

lemma producer_step_inv:
  assumes "producer_step w w'" and "producers_inv w"
  shows "producers_inv w'"
  using assms
proof (induction rule: producer_step.induct)
  case (clone_entry s host entry owed now)
  then show ?case by (auto simp: producers_inv_def)
next
  case (late_store host c now owed s)
  then show ?case
    using set_remove1_subset [of "(host, c, now)" owed] by (auto simp: producers_inv_def store_cell_def) blast+
next
  case (write_section create now host s r s' owed)
  then show ?case
    by (auto simp: producers_inv_def get_producer_write_def store_cell_def Let_def hm_wf_insert
        split: option.splits sum.splits if_splits) (metis less_irrefl less_SucI)+
next
  case (reaper_pass s owed elapsed)
  have "hm_wf (producer_map s)" using reaper_pass by (simp add: producers_inv_def)
  note r = reap_get [OF this, of elapsed]
  have "hm_wf (producer_map (reap_unused_producers elapsed s))"
    and "next_cell (reap_unused_producers elapsed s) = next_cell s"
    using reaper_pass by (simp_all add: producers_inv_def reap_unused_producers_def Let_def hm_wf_retain)
  with reaper_pass show ?case
    by (auto simp: producers_inv_def r split: option.splits if_splits)
qed

lemma producers_reachable_inv: "producers_reachable w \<Longrightarrow> producers_inv w"
proof (induction rule: producers_reachable.induct)
  case producers_start
  then show ?case by (simp add: producers_inv_def producers_init_def)
next
  case (producers_next w w')
  then show ?case using producer_step_inv by blast
qed

section \<open>Properties\<close>

text \<open>
  Once a producer was made for a host, every later call for that host returns this same
  producer, whatever the calls in between and whatever making a new one would give, until a pass
  of the reaper; a call that finds none and cannot make one returns the error and changes nothing.
\<close>

theorem producer_shared:
  assumes "get_kafka_producer create elapsed host s = (Inr p, s1)"
    and "s2 = run_phases (get_producer_read now2) (get_producer_write create2 now2) ps s1"
  shows "fst (get_kafka_producer create3 elapsed3 host s2) = Inr p \<and>
    (hm_get (producer_map s) h = None \<and> create h = Inl e \<longrightarrow>
       get_kafka_producer create elapsed h s = (Inl e, s))"
proof -
  have "map_option producer (hm_get (producer_map s1) host) = Some p"
    using assms(1) by (simp add: get_kafka_producer_eq_write get_producer_write_ok)
  from kafka_producers.phases_keep [OF this, of now2 create2 ps] show ?thesis
    by (auto simp: assms(2) get_kafka_producer_eq_write get_producer_write_def)
qed

theorem producer_shared_witness:
  "fst (get_kafka_producer (\<lambda>_. Inl pubsub_error_default) 0 ''a''
     (run_phases (get_producer_read 5) (get_producer_write (\<lambda>_. Inr 9) 5) [WritePhase ''b'', WritePhase ''a'']
       (snd (get_kafka_producer (\<lambda>_. Inr (7 :: nat)) 0 ''a'' producers_init)))) = Inr 7"
proof -
  have "get_kafka_producer (\<lambda>_. Inr (7 :: nat)) 0 ''a'' producers_init =
      (Inr 7, snd (get_kafka_producer (\<lambda>_. Inr (7 :: nat)) 0 ''a'' producers_init))"
    by (simp add: get_kafka_producer_eq_write get_producer_write_def producers_init_def Let_def)
  from producer_shared [OF this refl] show ?thesis by blast
qed

text \<open>
  In every reachable state a pass of the reaper evicts exactly the producers whose last use
  is at least sixty seconds old by its clock; a use stamped after the clock was read keeps the
  entry, for the subtraction saturates instead of wrapping around.
\<close>

theorem idle_producers_reaped:
  assumes "producers_reachable (s, owed)"
  shows "hm_get (producer_map (reap_unused_producers elapsed s)) host =
    (case stamp s host of
       None \<Rightarrow> None
     | Some t \<Rightarrow> if unat t + 60 \<le> unat (now_secs elapsed) then None else hm_get (producer_map s) host)"
proof -
  have "hm_wf (producer_map s)"
    using producers_reachable_inv [OF assms] by (simp add: producers_inv_def)
  then show ?thesis
    by (auto simp: reap_get stamp_def split: option.splits)
qed

theorem idle_producers_reaped_witness:
  "hm_get (producer_map (reap_unused_producers (from_secs 60)
     (snd (get_producer_write (\<lambda>_. Inr (7 :: nat)) 0 ''a'' producers_init)))) ''a'' = None"
proof -
  let ?s = "snd (get_producer_write (\<lambda>_. Inr (7 :: nat)) 0 ''a'' producers_init)"
  have "producer_step (producers_init, []) (?s, [])"
    by (rule write_section [of "\<lambda>_. Inr 7" 0 "''a''" producers_init]) (simp add: prod_eq_iff)
  then have "producers_reachable (?s, [])"
    by (rule producers_next [OF producers_start])
  from idle_producers_reaped [OF this, of "from_secs 60" "''a''"] show ?thesis
    by (simp add: stamp_def get_producer_write_def producers_init_def Let_def now_secs_def as_secs_def
        from_secs_def)
qed

text \<open>
  A store that comes late, after its entry was evicted or replaced, cannot keep another
  producer alive: in every reachable state it leaves the time stamps of all other hosts alone, and
  that of its own host is afterwards the stored time or what it was.
\<close>

theorem late_store_own_host:
  assumes "producers_reachable (s, owed)" and "(host, c, now) \<in> set owed"
  shows "(other \<noteq> host \<longrightarrow> stamp (store_cell c now s) other = stamp s other) \<and>
    stamp (store_cell c now s) host \<in> {stamp s host, Some now}"
  using producers_reachable_inv [OF assms(1)] assms(2)
  by (cases "hm_get (producer_map s) other"; cases "hm_get (producer_map s) host")
    (auto simp: producers_inv_def stamp_def store_cell_def, blast+)

theorem late_store_own_host_witness:
  "stamp (store_cell 0 9 (snd (get_producer_write (\<lambda>_. Inr (7 :: nat)) 0 ''a'' producers_init))) ''a''
     \<in> {Some 0, Some 9}"
proof -
  let ?s = "snd (get_producer_write (\<lambda>_. Inr (7 :: nat)) 0 ''a'' producers_init)"
  have "producer_step (producers_init, []) (?s, [])"
    by (rule write_section [of "\<lambda>_. Inr 7" 0 "''a''" producers_init]) (simp add: prod_eq_iff)
  then have "producers_reachable (?s, [])"
    by (rule producers_next [OF producers_start])
  moreover have "producer_step (?s, []) (?s, [(''a'', 0, 9)])"
    using clone_entry [of ?s "''a''" "\<lparr>producer = 7, last_used_epoch_secs = 0\<rparr>" "[]" 9]
    by (simp add: get_producer_write_def producers_init_def Let_def)
  ultimately have "producers_reachable (?s, [(''a'', 0, 9)])"
    by (rule producers_next)
  from late_store_own_host [OF this, of "''a''" 0 9] show ?thesis
    by (simp add: stamp_def get_producer_write_def producers_init_def Let_def)
qed

end
