(* ===== verification/Reaper_Time.thy ===== *)
theory Reaper_Time
  imports Kafka_Cache
begin

text \<open>
  The two background loops that clean the caches up, \<open>reap_unused_streams\<close> of \<^verbatim>\<open>src/src/cache.rs\<close> and of
  \<^verbatim>\<open>src/src/kafka_impl/kafka_cache/mod.rs\<close>, over time: how long an entry that nobody uses stays.
  Both are one loop with different passes; the argument is made once, in a locale.
\<close>

section \<open>The loop\<close>

text \<open>
  The rounds of a loop that sleeps for \<open>REAPER_INTERVAL\<close>, reads the clock and makes a pass. The
  list has the readings of the clock: a sleep takes at least its time, and waking up, waiting for
  the lock and making the pass take at most \<open>delay\<close> more, from one reading to the next. Anything
  \<open>others\<close> may do happens before each pass. The loop never ends, so these are its prefixes.
\<close>

inductive reaper_run ::
  "(nat \<Rightarrow> 's \<Rightarrow> 's) \<Rightarrow> ('s \<Rightarrow> 's \<Rightarrow> bool) \<Rightarrow> duration \<Rightarrow> nat \<Rightarrow> 's \<Rightarrow> nat list \<Rightarrow> 's \<Rightarrow> bool"
  for pass others delay t0 s where
  asleep: "reaper_run pass others delay t0 s [] s"
| round: "reaper_run pass others delay t0 s ts s1 \<Longrightarrow> others\<^sup>*\<^sup>* s1 s2 \<Longrightarrow>
     last (t0 # ts) + REAPER_INTERVAL \<le> now \<Longrightarrow> now \<le> last (t0 # ts) + REAPER_INTERVAL + delay \<Longrightarrow>
     reaper_run pass others delay t0 s (ts @ [now]) (pass now s2)"

text \<open>The clock of the rounds.\<close>

lemma reaper_run_clock:
  assumes "reaper_run pass others delay t0 s ts s'"
  shows "t0 + length ts * REAPER_INTERVAL \<le> last (t0 # ts) \<and> sorted ts \<and>
    (dropWhile (\<lambda>t. t < due) ts = t # rest \<longrightarrow> t0 < due \<longrightarrow> t < due + REAPER_INTERVAL + delay)"
  using assms
proof (induction arbitrary: t rest rule: reaper_run.induct)
  case (round ts s1 s2 now)
  have "x \<le> now" if "x \<in> set ts" for x
  proof -
    have "x \<le> last ts"
      using that round.IH by (cases ts rule: rev_cases) (auto simp: sorted_append)
    with that round.hyps(3) show ?thesis by (cases ts) auto
  qed
  moreover have "now < due + REAPER_INTERVAL + delay" if "\<forall>x \<in> set ts. x < due" "t0 < due"
  proof -
    have "last (t0 # ts) \<in> set (t0 # ts)" by (rule last_in_set) simp
    with that have "last (t0 # ts) < due" by auto
    with round.hyps(4) show ?thesis by linarith
  qed
  moreover have "t0 + length (ts @ [now]) * REAPER_INTERVAL \<le> last (t0 # ts @ [now])"
  proof -
    have "t0 + length ts * REAPER_INTERVAL \<le> last (t0 # ts)" using round.IH by blast
    moreover have "last (t0 # ts @ [now]) = now" by simp
    ultimately show ?thesis using round.hyps(3) by (simp only: length_append_singleton mult_Suc)
  qed
  moreover have "t < due + REAPER_INTERVAL + delay"
    if "dropWhile (\<lambda>t. t < due) (ts @ [now]) = t # rest" "t0 < due"
  proof (cases "dropWhile (\<lambda>t. t < due) ts")
    case Nil
    then have "\<forall>x \<in> set ts. x < due" by (simp add: dropWhile_eq_Nil_conv)
    with that calculation(2) show ?thesis by (simp add: dropWhile_append split: if_splits)
  next
    case (Cons u us)
    then have "\<not> (\<forall>x \<in> set ts. x < due)" by (metis dropWhile_eq_Nil_conv list.distinct(1))
    with Cons that(1) have "u = t" by (simp add: dropWhile_append split: if_splits)
    with round.IH [of u us] Cons that(2) show ?thesis by blast
  qed
  ultimately show ?case
    using round.IH by (simp add: sorted_append)
qed simp

text \<open>A run in which nobody does anything and nothing is late.\<close>

definition rounds :: "nat \<Rightarrow> nat \<Rightarrow> nat list" where
  "rounds t0 n = map (\<lambda>i. t0 + Suc i * REAPER_INTERVAL) [0..<n]"

lemma reaper_run_alone: "reaper_run pass others delay t0 s (rounds t0 n) (fold pass (rounds t0 n) s)"
proof (induction n)
  case (Suc n)
  have "last (t0 # rounds t0 n) = t0 + n * REAPER_INTERVAL"
    by (cases n) (simp_all add: rounds_def)
  then have "reaper_run pass others delay t0 s (rounds t0 n @ [t0 + Suc n * REAPER_INTERVAL])
      (pass (t0 + Suc n * REAPER_INTERVAL) (fold pass (rounds t0 n) s))"
    by (intro round [OF Suc rtranclp.rtrancl_refl]) simp_all
  then show ?case by (simp add: rounds_def)
qed (simp add: rounds_def asleep)

section \<open>An entry that is left alone\<close>

text \<open>
  One entry of a cache, with the time of its last use: what others do leaves it alone, and a pass
  removes it when \<open>EVICT_AFTER_IDLE\<close> has passed since. \<open>fine\<close> is what the passes and the others
  preserve.
\<close>

locale idle_entry =
  fixes entry_of :: "'s \<Rightarrow> 'e option" and used_at :: "'e \<Rightarrow> nat" and fine :: "'s \<Rightarrow> bool"
    and pass :: "nat \<Rightarrow> 's \<Rightarrow> 's" and others :: "'s \<Rightarrow> 's \<Rightarrow> bool"
  assumes others_leave: "fine s \<Longrightarrow> others s s' \<Longrightarrow> fine s' \<and> entry_of s' = entry_of s"
    and pass_fine: "fine s \<Longrightarrow> fine (pass now s)"
    and pass_entry: "fine s \<Longrightarrow> now \<le> DURATION_MAX \<Longrightarrow> entry_of (pass now s) =
      (case entry_of s of None \<Rightarrow> None | Some e \<Rightarrow> if used_at e + EVICT_AFTER_IDLE \<le> now then None else Some e)"
begin

lemma others_leave_all: "others\<^sup>*\<^sup>* s s' \<Longrightarrow> fine s \<Longrightarrow> fine s' \<and> entry_of s' = entry_of s"
  by (induction rule: rtranclp_induct) (use others_leave in auto)

lemma entry_during_run:
  assumes "reaper_run pass others delay t0 s ts s'" and "fine s" and "entry_of s = Some e"
    and "list_all (\<lambda>t. t \<le> DURATION_MAX) ts"
  shows "fine s' \<and> entry_of s' = (if list_all (\<lambda>t. t < used_at e + EVICT_AFTER_IDLE) ts then Some e else None)"
  using assms
proof (induction rule: reaper_run.induct)
  case (round ts s1 s2 now)
  then have "fine s2 \<and> entry_of s2 = (if list_all (\<lambda>t. t < used_at e + EVICT_AFTER_IDLE) ts then Some e else None)"
    using others_leave_all [of s1 s2] by simp
  with round.prems show ?case
    using pass_fine [of s2 now] pass_entry [of s2 now] by auto
qed auto

text \<open>The entry is removed in time: by the first reading that is due, which is at most one round late.\<close>

lemma removed_in_time:
  assumes "reaper_run pass others delay t0 s ts s'" and "fine s" and "entry_of s = Some e"
    and "list_all (\<lambda>t. t \<le> DURATION_MAX) ts" and "used_at e \<le> t0" and "t0 < used_at e + EVICT_AFTER_IDLE"
  shows "(dropWhile (\<lambda>t. t < used_at e + EVICT_AFTER_IDLE) ts = [] \<longrightarrow> entry_of s' = Some e \<and> length ts < 6) \<and>
    (dropWhile (\<lambda>t. t < used_at e + EVICT_AFTER_IDLE) ts = t # rest \<longrightarrow>
      entry_of s' = None \<and> t < used_at e + EVICT_AFTER_IDLE + REAPER_INTERVAL + delay)"
proof -
  note clock = reaper_run_clock [OF assms(1), of "used_at e + EVICT_AFTER_IDLE" t rest]
  have six: "6 * REAPER_INTERVAL = EVICT_AFTER_IDLE"
    by (simp add: EVICT_AFTER_IDLE_def REAPER_INTERVAL_def from_secs_def)
  have "\<not> list_all (\<lambda>t. t < used_at e + EVICT_AFTER_IDLE) ts" if "6 \<le> length ts"
  proof -
    have "6 * REAPER_INTERVAL \<le> length ts * REAPER_INTERVAL" by (rule mult_le_mono1 [OF that])
    with clock have "t0 + EVICT_AFTER_IDLE \<le> last (t0 # ts)" using six by linarith
    moreover have "ts \<noteq> []" using that by auto
    ultimately show ?thesis
      using assms(5) by (intro notI) (auto simp: list_all_iff dest!: bspec [OF _ last_in_set])
  qed
  moreover have "dropWhile (\<lambda>t. t < used_at e + EVICT_AFTER_IDLE) ts = [] \<longleftrightarrow>
      list_all (\<lambda>t. t < used_at e + EVICT_AFTER_IDLE) ts"
    by (auto simp: list_all_iff)
  ultimately show ?thesis
    using entry_during_run [OF assms(1-4)] clock assms(6) by (metis (mono_tags, lifting) list.distinct(1) not_le)
qed

end

section \<open>Runtimes\<close>

text \<open>The steps of the callers that are not calls for one key, and of the users of the channels.\<close>

inductive elsewhere ::
  "('c, 'r) byte_broadcast \<Rightarrow> cache_key \<Rightarrow> ('c, 't) process \<times> 't pending \<Rightarrow> ('c, 't) process \<times> 't pending \<Rightarrow> bool"
  for B k where
  other_hit: "cache_key_new h t src \<noteq> k \<Longrightarrow> get_raw_stream_read B (cache_key_new h t src) s = Some (r, s') \<Longrightarrow>
     elsewhere B k (s, ps) (s', ps)"
| any_miss: "get_raw_stream_read B (cache_key_new h t src) s = None \<Longrightarrow>
     elsewhere B k (s, ps) (s, (h, t, src, f) # ps)"
| other_write: "(h, t, src, f) \<in> set ps \<Longrightarrow> cache_key_new h t src \<noteq> k \<Longrightarrow>
     get_raw_stream_write B now h t src f s = (r, s') \<Longrightarrow> elsewhere B k (s, ps) (s', remove1 (h, t, src, f) ps)"
| any_channel: "channel_use B (chans s i) c \<Longrightarrow> elsewhere B k (s, ps) (s\<lparr>chans := (chans s)(i := c)\<rparr>, ps)"

definition without_listener :: "('c, 'r) byte_broadcast \<Rightarrow> cache_key \<Rightarrow> ('c, 't) process \<Rightarrow> bool" where
  "without_listener B k s \<longleftrightarrow> (\<forall>e. hm_get (runtimes s) k = Some e \<longrightarrow> receiver_count B e s = 0)"

definition cache_pass ::
  "('c, 'r) byte_broadcast \<Rightarrow> nat \<Rightarrow> ('c, 't) process \<times> 't pending \<Rightarrow> ('c, 't) process \<times> 't pending" where
  "cache_pass B now c = (reap_pass B now (fst c), snd c)"

text \<open>Nobody asks for the key, nobody listens to its runtime.\<close>

definition abandoned ::
  "('c, 'r) byte_broadcast \<Rightarrow> cache_key \<Rightarrow> ('c, 't) process \<times> 't pending \<Rightarrow> ('c, 't) process \<times> 't pending \<Rightarrow> bool" where
  "abandoned B k c c' \<longleftrightarrow> elsewhere B k c c' \<and> without_listener B k (fst c')"

lemma elsewhere_step: "elsewhere B k c c' \<Longrightarrow> cache_step B c c'"
  by (induction rule: elsewhere.induct) (auto intro: cache_step.intros)

lemma elsewhere_keeps:
  assumes "elsewhere B k c c'"
  shows "hm_get (runtimes (fst c')) k = hm_get (runtimes (fst c)) k \<and> cancelled (fst c') = cancelled (fst c)"
  using assms
proof (induction rule: elsewhere.induct)
  case (other_hit h t src s r s' ps)
  then show ?case
    by (auto simp: get_raw_stream_read_def dest: cached_get_stream_frame)
next
  case (other_write h t src f ps now s r s')
  show ?case
  proof (cases "hm_get (runtimes s) (cache_key_new h t src)")
    case None
    from get_raw_stream_write_miss(1,4) [OF None other_write(3)] other_write(2) show ?thesis
      by (simp add: hm_get_def)
  next
    case (Some e)
    with other_write(3) have "cached_get_stream B e s = (r, s')" by (simp add: get_raw_stream_write_def)
    from cached_get_stream_frame(1,3) [OF this] show ?thesis by simp
  qed
qed auto

text \<open>The token of an entry that is gone is cancelled.\<close>

definition runtime_fine ::
  "('c, 'r) byte_broadcast \<Rightarrow> cache_key \<Rightarrow> nat \<Rightarrow> ('c, 't) process \<times> 't pending \<Rightarrow> bool" where
  "runtime_fine B k token c \<longleftrightarrow> cache_inv (fst c) \<and> without_listener B k (fst c) \<and>
     (case hm_get (runtimes (fst c)) k of
        None \<Rightarrow> token \<in> set (cancelled (fst c))
      | Some e \<Rightarrow> cancel_token e = token \<and> token \<notin> set (cancelled (fst c)))"

lemma entry_not_cancelled:
  assumes "cache_inv s" and "hm_get (runtimes s) k = Some e"
  shows "cancel_token e \<notin> set (cancelled s)"
proof -
  have "hm_wf (runtimes s)" using assms(1) by (simp add: cache_inv_def)
  with assms have "(k, e) \<in> set (runtimes s)" by (simp add: hm_get_in_set)
  from entry_task [OF assms(1) this] show ?thesis by (auto simp: task_view_def running_def)
qed

lemma unlistened_pass:
  assumes "cache_inv s" and "without_listener B k s"
  shows "hm_get (runtimes (reap_pass B now s)) k =
    (case hm_get (runtimes s) k of None \<Rightarrow> None | Some e \<Rightarrow> if last_used e + EVICT_AFTER_IDLE \<le> now then None else Some e)"
  using assms reap_pass_get [of s B now k]
  by (auto simp: cache_inv_def without_listener_def evicted_iff reap_keep_def EVICT_AFTER_IDLE_def from_secs_def
      split: option.splits)

lemma runtime_fine_pass:
  assumes "runtime_fine B k token c"
  shows "runtime_fine B k token (cache_pass B now c)"
proof -
  have inv: "cache_inv (fst c)" "without_listener B k (fst c)" using assms by (auto simp: runtime_fine_def)
  note get = unlistened_pass [OF inv, of now]
  have "without_listener B k (reap_pass B now (fst c))"
    using inv(2) by (auto simp: without_listener_def get split: option.splits if_splits)
      (simp add: receiver_count_def reap_pass_def drop_runtimes_def)
  moreover have "token \<in> set (cancelled (reap_pass B now (fst c)))" if "hm_get (runtimes (fst c)) k = None"
    using assms that by (simp add: runtime_fine_def reap_pass_def drop_runtimes_def)
  ultimately show ?thesis
    using assms inv(1) reap_pass_cancelled [OF inv(1), of k _ B now] get
    by (auto simp: runtime_fine_def cache_pass_def cache_inv_reap split: option.splits if_splits)
qed

interpretation unused_runtime: idle_entry "\<lambda>c. hm_get (runtimes (fst c)) k" last_used "runtime_fine B k token"
  "cache_pass B" "abandoned B k"
  for B :: "('c, 'r) byte_broadcast" and k token
proof
  fix c c' :: "('c, 't) process \<times> 't pending" and now :: nat
  show "runtime_fine B k token c' \<and> hm_get (runtimes (fst c')) k = hm_get (runtimes (fst c)) k"
    if "runtime_fine B k token c" "abandoned B k c c'"
    using that elsewhere_keeps [of B k c c'] cache_step_inv [OF elsewhere_step [of B k c c']]
    by (simp add: runtime_fine_def abandoned_def split: option.splits)
  show "runtime_fine B k token (cache_pass B now c)" if "runtime_fine B k token c"
    using that by (rule runtime_fine_pass)
  show "hm_get (runtimes (fst (cache_pass B now c))) k = (case hm_get (runtimes (fst c)) k of None \<Rightarrow> None
      | Some e \<Rightarrow> if last_used e + EVICT_AFTER_IDLE \<le> now then None else Some e)" if "runtime_fine B k token c"
    using that unlistened_pass [of "fst c" B k now] by (simp add: runtime_fine_def cache_pass_def)
qed

section \<open>Producers\<close>

text \<open>The steps of callers with other hosts.\<close>

inductive other_hosts :: "string \<Rightarrow> 'p producer_world \<Rightarrow> 'p producer_world \<Rightarrow> bool" for host where
  other_clone: "h \<noteq> host \<Longrightarrow> hm_get (producer_map s) h = Some entry \<Longrightarrow>
    other_hosts host (s, owed) (s, (h, last_used_epoch_secs entry, now) # owed)"
| other_store: "h \<noteq> host \<Longrightarrow> (h, c, now) \<in> set owed \<Longrightarrow>
    other_hosts host (s, owed) (store_cell c now s, remove1 (h, c, now) owed)"
| other_section: "h \<noteq> host \<Longrightarrow> get_producer_write create now h s = (r, s') \<Longrightarrow> other_hosts host (s, owed) (s', owed)"

definition producers_pass :: "nat \<Rightarrow> 'p producer_world \<Rightarrow> 'p producer_world" where
  "producers_pass elapsed w = (reap_unused_producers elapsed (fst w), snd w)"

text \<open>The producer of a host with its time stamp.\<close>

definition stamped_producer :: "string \<Rightarrow> 'p producer_world \<Rightarrow> ('p \<times> u64) option" where
  "stamped_producer host w =
     map_option (\<lambda>e. (producer e, cells (fst w) (last_used_epoch_secs e))) (hm_get (producer_map (fst w)) host)"

definition producer_used_at :: "'p \<times> u64 \<Rightarrow> duration" where
  "producer_used_at p = from_secs (unat (snd p))"

text \<open>No caller with this host is between its read lock and its store.\<close>

definition producer_fine :: "string \<Rightarrow> 'p producer_world \<Rightarrow> bool" where
  "producer_fine host w \<longleftrightarrow> producers_inv w \<and> host \<notin> fst ` set (snd w)"

lemma other_hosts_step: "other_hosts host w w' \<Longrightarrow> producer_step w w'"
  by (induction rule: other_hosts.induct) (auto intro: producer_step.intros)

lemma other_hosts_keep:
  assumes "other_hosts host w w'" and "producer_fine host w"
  shows "stamped_producer host w' = stamped_producer host w \<and> host \<notin> fst ` set (snd w')"
  using assms
proof (induction rule: other_hosts.induct)
  case (other_store h c now owed s)
  have "last_used_epoch_secs e \<noteq> c" if "hm_get (producer_map s) host = Some e" for e
    using other_store that unfolding producer_fine_def producers_inv_def fst_conv snd_conv by blast
  with other_store show ?case
    by (cases "hm_get (producer_map s) host")
      (auto simp: stamped_producer_def store_cell_def producer_fine_def dest: notin_set_remove1 set_mp [OF set_remove1_subset])
next
  case (other_section h create now s r s' owed)
  have "last_used_epoch_secs e \<noteq> last_used_epoch_secs e'" "last_used_epoch_secs e < next_cell s"
    if "hm_get (producer_map s) host = Some e" "hm_get (producer_map s) h = Some e'" for e e'
    using other_section that by (auto simp: producer_fine_def producers_inv_def)
  moreover have "last_used_epoch_secs e < next_cell s" if "hm_get (producer_map s) host = Some e" for e
    using other_section that by (auto simp: producer_fine_def producers_inv_def)
  ultimately show ?case
    using other_section
    by (cases "hm_get (producer_map s) host")
      (auto simp: stamped_producer_def producer_fine_def get_producer_write_def store_cell_def Let_def
        split: option.splits sum.splits)
qed (auto simp: stamped_producer_def producer_fine_def)

lemma now_secs_unat: "elapsed \<le> DURATION_MAX \<Longrightarrow> unat (now_secs elapsed) = elapsed div 1000000000"
  by (simp add: now_secs_def as_secs_def DURATION_MAX_def unat_of_nat div_less_iff_less_mult)

interpretation unused_producer: idle_entry "stamped_producer host" producer_used_at "producer_fine host"
  producers_pass "other_hosts host"
  for host
proof
  fix w w' :: "'p producer_world" and now :: nat
  show "producer_fine host w' \<and> stamped_producer host w' = stamped_producer host w"
    if "producer_fine host w" "other_hosts host w w'"
    using that other_hosts_keep [OF that(2,1)] producer_step_inv [OF other_hosts_step [OF that(2)]]
    by (simp add: producer_fine_def)
  have step: "producer_step w (producers_pass now w)"
    using reaper_pass [of "fst w" "snd w" now] by (simp add: producers_pass_def)
  show "producer_fine host (producers_pass now w)" if "producer_fine host w"
    using that producer_step_inv [OF step] by (simp add: producer_fine_def producers_pass_def)
  show "stamped_producer host (producers_pass now w) = (case stamped_producer host w of None \<Rightarrow> None
      | Some e \<Rightarrow> if producer_used_at e + EVICT_AFTER_IDLE \<le> now then None else Some e)"
    if "producer_fine host w" "now \<le> DURATION_MAX"
  proof -
    have "hm_wf (producer_map (fst w))" using that(1) by (simp add: producer_fine_def producers_inv_def)
    moreover have "now div 1000000000 < u + 60 \<longleftrightarrow> \<not> from_secs u + EVICT_AFTER_IDLE \<le> now" for u
      by (simp add: div_less_iff_less_mult from_secs_def EVICT_AFTER_IDLE_def not_le algebra_simps)
    moreover have "cells (reap_unused_producers now (fst w)) = cells (fst w)"
      by (simp add: reap_unused_producers_def Let_def)
    ultimately show ?thesis
      by (auto simp: stamped_producer_def producers_pass_def reap_get producer_used_at_def now_secs_unat [OF that(2)]
          split: option.splits)
  qed
qed

section \<open>Properties\<close>

text \<open>
  C11: An abandoned runtime goes away in time. From a moment on nobody asks for it and nobody
  listens to it; at the passes of the reaper it stays, uncancelled, until the first that reads a
  time sixty seconds after its stamp, which removes it and cancels its task. That is at most ten
  seconds, plus the delay of the loop, later than the sixty, and at most the sixth pass from then
  on. No stamp is later than the last listener, so the bound holds from when that left, too.
\<close>

theorem abandoned_runtime_evicted:
  assumes "cache_reachable B (s, ps)" and "hm_get (runtimes s) k = Some e" and "receiver_count B e s = 0"
    and "reaper_run (cache_pass B) (abandoned B k) delay t0 (s, ps) ts (s', ps')"
    and "list_all (\<lambda>t. t \<le> DURATION_MAX) ts" and "last_used e \<le> t0" and "t0 < last_used e + from_secs 60"
  shows "case dropWhile (\<lambda>t. t < last_used e + from_secs 60) ts of
      [] \<Rightarrow> hm_get (runtimes s') k = Some e \<and> cancel_token e \<notin> set (cancelled s') \<and> length ts < 6
    | t # _ \<Rightarrow> hm_get (runtimes s') k = None \<and> cancel_token e \<in> set (cancelled s') \<and>
        t < last_used e + from_secs 70 + delay"
proof -
  have inv: "cache_inv s" using cache_reachable_inv [OF assms(1)] by simp
  have fine: "runtime_fine B k (cancel_token e) (s, ps)"
    using entry_not_cancelled [OF inv assms(2)] assms(2,3) inv by (simp add: runtime_fine_def without_listener_def)
  have e: "hm_get (runtimes (fst (s, ps))) k = Some e" and grace: "from_secs 60 = EVICT_AFTER_IDLE"
    and seventy: "from_secs 70 = EVICT_AFTER_IDLE + REAPER_INTERVAL"
    using assms(2) by (simp_all add: EVICT_AFTER_IDLE_def REAPER_INTERVAL_def from_secs_def)
  note in_time = unused_runtime.removed_in_time [OF assms(4) fine e assms(5,6) assms(7) [unfolded grace]]
  have "runtime_fine B k (cancel_token e) (s', ps')"
    using unused_runtime.entry_during_run [OF assms(4) fine e assms(5)] by blast
  then show ?thesis
    using in_time unfolding grace seventy by (auto simp: runtime_fine_def add.assoc split: list.splits)
qed

text \<open>The runtime of the first subscription, once its receiver is dropped.\<close>

definition left_alone :: "(nat, unit) process" where
  "left_alone = one_subscriber\<lparr>chans := (chans one_subscriber)(0 := 0)\<rparr>"

lemma left_alone_reachable: "cache_reachable counting_channel (left_alone, [])"
proof -
  have "chans one_subscriber 0 = 1" by (simp add: one_subscriber_simps)
  then have "channel_use counting_channel (chans one_subscriber 0) 0"
    using use_drop [of counting_channel 1 "()"] by (simp add: counting_channel_def)
  from cache_reachable.step [OF one_subscriber_reachable cache_step.channel [OF this]] show ?thesis
    by (simp add: left_alone_def)
qed

theorem abandoned_runtime_evicted_witness:
  "hm_get (runtimes (fst (fold (cache_pass counting_channel) (rounds 0 6) (left_alone, []))))
      (cache_key_new ''h'' ''t'' Kafka) = None \<and>
    hm_get (runtimes (fst (fold (cache_pass counting_channel) (rounds 0 5) (left_alone, []))))
      (cache_key_new ''h'' ''t'' Kafka) = Some \<lparr>cancel_token = 0, sender = 0, last_used = 0\<rparr>"
proof -
  let ?e = "\<lparr>cancel_token = 0, sender = 0, last_used = 0\<rparr>"
  have e: "hm_get (runtimes left_alone) (cache_key_new ''h'' ''t'' Kafka) = Some ?e"
    using one_subscriber_entry by (simp add: left_alone_def)
  have c: "receiver_count counting_channel ?e left_alone = 0"
    by (simp add: receiver_count_def left_alone_def counting_channel_def)
  have r: "rounds 0 6 = map from_secs [10, 20, 30, 40, 50, 60]" "rounds 0 5 = map from_secs [10, 20, 30, 40, 50]"
    by (simp_all add: rounds_def REAPER_INTERVAL_def from_secs_def upt_conv_Cons)
  note run = reaper_run_alone [of "cache_pass counting_channel" "abandoned counting_channel (cache_key_new ''h'' ''t'' Kafka)" 0 0
      "(left_alone, [])"]
  obtain s6 p6 s5 p5 where f: "fold (cache_pass counting_channel) (rounds 0 6) (left_alone, []) = (s6, p6)"
    "fold (cache_pass counting_channel) (rounds 0 5) (left_alone, []) = (s5, p5)"
    by (metis surj_pair)
  show ?thesis
    using abandoned_runtime_evicted [OF left_alone_reachable e c run [of 6, unfolded f]]
      abandoned_runtime_evicted [OF left_alone_reachable e c run [of 5, unfolded f]]
    unfolding f by (simp add: r from_secs_def DURATION_MAX_def)
qed

text \<open>
  C25: The same holds of Kafka producers: one that nobody uses any more is kept until the first pass
  that reads a time sixty seconds after the second of its last use, and removed by that one, at
  most ten seconds plus the delay of the loop later. The 64-bit seconds do not get in the way.
\<close>

theorem unused_producer_evicted:
  assumes "producers_reachable (s, owed)" and "host \<notin> fst ` set owed"
    and "hm_get (producer_map s) host = Some e" and "u = from_secs (unat (cells s (last_used_epoch_secs e)))"
    and "reaper_run producers_pass (other_hosts host) delay t0 (s, owed) ts (s', owed')"
    and "list_all (\<lambda>t. t \<le> DURATION_MAX) ts" and "u \<le> t0" and "t0 < u + from_secs 60"
  shows "case dropWhile (\<lambda>t. t < u + from_secs 60) ts of
      [] \<Rightarrow> map_option producer (hm_get (producer_map s') host) = Some (producer e) \<and> length ts < 6
    | t # _ \<Rightarrow> hm_get (producer_map s') host = None \<and> t < u + from_secs 70 + delay"
proof -
  let ?p = "(producer e, cells s (last_used_epoch_secs e))"
  have fine: "producer_fine host (s, owed)"
    using producers_reachable_inv [OF assms(1)] assms(2) by (simp add: producer_fine_def)
  have p: "stamped_producer host (s, owed) = Some ?p" and u: "producer_used_at ?p = u"
    using assms(3,4) by (simp_all add: stamped_producer_def producer_used_at_def)
  have grace: "from_secs 60 = EVICT_AFTER_IDLE" and seventy: "from_secs 70 = EVICT_AFTER_IDLE + REAPER_INTERVAL"
    by (simp_all add: EVICT_AFTER_IDLE_def REAPER_INTERVAL_def from_secs_def)
  show ?thesis
    using unused_producer.removed_in_time [OF assms(5) fine p assms(6)] assms(7,8)
    unfolding u grace seventy by (auto simp: stamped_producer_def add.assoc split: list.splits) blast
qed

text \<open>One producer, used once in the first second.\<close>

definition one_producer :: "nat producers" where
  "one_producer = snd (get_producer_write (\<lambda>_. Inr 7) 0 ''a'' producers_init)"

theorem unused_producer_evicted_witness:
  "hm_get (producer_map (fst (fold producers_pass (rounds 0 6) (one_producer, [])))) ''a'' = None \<and>
    map_option producer (hm_get (producer_map (fst (fold producers_pass (rounds 0 5) (one_producer, [])))) ''a'') = Some 7"
proof -
  have "producer_step (producers_init, []) (one_producer, [])"
    unfolding one_producer_def by (rule write_section [of "\<lambda>_. Inr 7" 0 "''a''" producers_init]) (simp add: prod_eq_iff)
  then have reach: "producers_reachable (one_producer, [])"
    by (rule producers_next [OF producers_start])
  have e: "hm_get (producer_map one_producer) ''a'' = Some \<lparr>producer = 7, last_used_epoch_secs = 0\<rparr>"
    and u: "0 = from_secs (unat (cells one_producer (last_used_epoch_secs \<lparr>producer = 7 :: nat, last_used_epoch_secs = 0\<rparr>)))"
    by (simp_all add: one_producer_def get_producer_write_def producers_init_def Let_def from_secs_def)
  have r: "rounds 0 6 = map from_secs [10, 20, 30, 40, 50, 60]" "rounds 0 5 = map from_secs [10, 20, 30, 40, 50]"
    by (simp_all add: rounds_def REAPER_INTERVAL_def from_secs_def upt_conv_Cons)
  note run = reaper_run_alone [of producers_pass "other_hosts ''a''" 0 0 "(one_producer, [])"]
  have o: "''a'' \<notin> fst ` set []" by simp
  obtain s6 p6 s5 p5 where f: "fold producers_pass (rounds 0 6) (one_producer, []) = (s6, p6)"
    "fold producers_pass (rounds 0 5) (one_producer, []) = (s5, p5)"
    by (metis surj_pair)
  show ?thesis
    using unused_producer_evicted [OF reach o e u run [of 6, unfolded f]]
      unused_producer_evicted [OF reach o e u run [of 5, unfolded f]]
    unfolding f by (simp add: r from_secs_def DURATION_MAX_def)
qed

end
