(* ===== verification/Redis_Values.thy ===== *)
theory Redis_Values
  imports Messages Double_Checked "HOL-Library.Finite_Map"
begin

text \<open>
  The helpers shared by the two Redis backends, \<^verbatim>\<open>src/src/redis_impls/mod.rs\<close>: the
  normalisation of Redis values into JSON values, their serialisation, and the cache of
  connections per host. The Redis client and the JSON serialiser are parameters.
\<close>

section \<open>Values\<close>

text \<open>
  A Redis value. The source builds and matches the first four shapes; every other one
  (\<open>OtherValue\<close>) is only ever passed to the client library.
\<close>

datatype 'o redis_value =
    RMap "('o redis_value \<times> 'o redis_value) list"
  | RArray "'o redis_value list"
  | RSimpleString string
  | RBulkString bytes
  | ROther 'o

text \<open>The JSON values the source constructs; an object is a finite map.\<close>

datatype json = JString string | JArray "json list" | JObject "(string, json) fmap"

text \<open>
  What is used of the client library: \<open>String::from_redis_value\<close>, the making of a parsing
  error from a text, and the \<open>Debug\<close> rendering of parsing errors.
\<close>

record ('o, 'p) redis_lib =
  from_redis_value :: "'o redis_value \<Rightarrow> 'p + string"
  parsing_error :: "string \<Rightarrow> 'p"
  parsing_error_debug :: "'p \<Rightarrow> string"

text \<open>\<open>serde_json::to_vec\<close> on a JSON value; the error is its \<open>Debug\<close> rendering.\<close>

type_synonym to_vec = "json \<Rightarrow> string + bytes"

section \<open>Normalisation\<close>

fun redis_value_to_json_value :: "('o, 'p) redis_lib \<Rightarrow> 'o redis_value \<Rightarrow> 'p + json"
  and redis_map_loop ::
    "('o, 'p) redis_lib \<Rightarrow> (string, json) fmap \<Rightarrow> ('o redis_value \<times> 'o redis_value) list \<Rightarrow> 'p + json"
  and redis_sequence_loop ::
    "('o, 'p) redis_lib \<Rightarrow> json list \<Rightarrow> 'o redis_value list \<Rightarrow> 'p + json" where
  "redis_value_to_json_value L (RMap entries) = redis_map_loop L fmempty entries"
| "redis_value_to_json_value L (RArray sequence) = redis_sequence_loop L [] sequence"
| "redis_value_to_json_value L (RSimpleString s) =
     res_bind (from_redis_value L (RSimpleString s)) (\<lambda>scalar. Inr (JString scalar))"
| "redis_value_to_json_value L (RBulkString b) =
     res_bind (from_redis_value L (RBulkString b)) (\<lambda>scalar. Inr (JString scalar))"
| "redis_value_to_json_value L (ROther v) =
     res_bind (from_redis_value L (ROther v)) (\<lambda>scalar. Inr (JString scalar))"
| "redis_map_loop L object [] = Inr (JObject object)"
| "redis_map_loop L object ((key, value) # entries) =
     res_bind (from_redis_value L key) (\<lambda>k.
     res_bind (redis_value_to_json_value L value) (\<lambda>j.
     redis_map_loop L (fmupd k j object) entries))"
| "redis_sequence_loop L array [] = Inr (JArray array)"
| "redis_sequence_loop L array (entry # entries) =
     res_bind (redis_value_to_json_value L entry) (\<lambda>j.
     redis_sequence_loop L (array @ [j]) entries)"

definition redis_map_to_json_value ::
  "('o, 'p) redis_lib \<Rightarrow> ('o redis_value \<times> 'o redis_value) list \<Rightarrow> 'p + json" where
  "redis_map_to_json_value L entries = redis_map_loop L fmempty entries"

definition redis_sequence_to_json_value ::
  "('o, 'p) redis_lib \<Rightarrow> 'o redis_value list \<Rightarrow> 'p + json" where
  "redis_sequence_to_json_value L sequence = redis_sequence_loop L [] sequence"

definition json_value_to_bytes :: "('o, 'p) redis_lib \<Rightarrow> to_vec \<Rightarrow> json \<Rightarrow> 'p + bytes" where
  "json_value_to_bytes L tv value =
     map_err (\<lambda>err. parsing_error L (''Failed to convert to bytes: '' @ err)) (tv value)"

definition redis_value_to_json_bytes ::
  "('o, 'p) redis_lib \<Rightarrow> to_vec \<Rightarrow> 'o redis_value \<Rightarrow> 'p + bytes" where
  "redis_value_to_json_bytes L tv value =
     res_bind (redis_value_to_json_value L value) (json_value_to_bytes L tv)"

definition redis_value_to_byte_message ::
  "('o, 'p) redis_lib \<Rightarrow> to_vec \<Rightarrow> 'o redis_value \<Rightarrow> 'p + byte_message" where
  "redis_value_to_byte_message L tv value =
     res_bind (redis_value_to_json_bytes L tv value) (\<lambda>payload. Inr (byte_from_value payload))"

definition pubsub_error_of_parsing :: "('o, 'p) redis_lib \<Rightarrow> 'p \<Rightarrow> pubsub_error" where
  "pubsub_error_of_parsing L value = from_debug (parsing_error_debug L value)"

text \<open>Conversion from a Redis error, given its \<open>Debug\<close> rendering.\<close>

definition pubsub_error_of_redis :: "('e \<Rightarrow> string) \<Rightarrow> 'e \<Rightarrow> pubsub_error" where
  "pubsub_error_of_redis redis_error_debug value = from_debug (redis_error_debug value)"

section \<open>Connections\<close>

text \<open>
  \<open>HOST_MAP\<close> with connections \<open>'c\<close>. \<open>client_open\<close> and \<open>connect\<close> are the client library's;
  their results are those of the call being modelled.
\<close>

type_synonym 'c host_map = "(string, 'c) hash_map"

definition get_connection_read :: "string \<Rightarrow> 'c host_map \<Rightarrow> ('c \<times> 'c host_map) option" where
  "get_connection_read host m = map_option (\<lambda>conn. (conn, m)) (hm_get m host)"

text \<open>
  Opening a connection is an effect on the world outside, so the world is an argument of the second
  section and part of its result. Where only the result of connecting matters there is no world to
  speak of.
\<close>

definition get_connection_write_io ::
  "(string \<Rightarrow> 'e + 'l) \<Rightarrow> ('l \<Rightarrow> 'w \<Rightarrow> ('e + 'c) \<times> 'w) \<Rightarrow> string \<Rightarrow> 'c host_map \<Rightarrow> 'w \<Rightarrow>
     ('e + 'c) \<times> 'c host_map \<times> 'w" where
  "get_connection_write_io client_open connect host m world =
     (case hm_get m host of
        Some conn \<Rightarrow> (Inr conn, m, world)
      | None \<Rightarrow>
          (case client_open host of
             Inl e \<Rightarrow> (Inl e, m, world)
           | Inr client \<Rightarrow>
               (case connect client world of
                  (Inl e, world') \<Rightarrow> (Inl e, m, world')
                | (Inr conn, world') \<Rightarrow> (Inr conn, hm_insert m host conn, world'))))"

definition get_connection_write ::
  "(string \<Rightarrow> 'e + 'l) \<Rightarrow> ('l \<Rightarrow> 'e + 'c) \<Rightarrow> string \<Rightarrow> 'c host_map \<Rightarrow> ('e + 'c) \<times> 'c host_map" where
  "get_connection_write client_open connect host m =
     (let (r, m', _) = get_connection_write_io client_open (\<lambda>client world. (connect client, world)) host m ()
      in (r, m'))"

lemma get_connection_write_eq:
  "get_connection_write client_open connect host m =
     (case hm_get m host of
        Some conn \<Rightarrow> (Inr conn, m)
      | None \<Rightarrow>
          (case client_open host of
             Inl e \<Rightarrow> (Inl e, m)
           | Inr client \<Rightarrow>
               (case connect client of
                  Inl e \<Rightarrow> (Inl e, m)
                | Inr conn \<Rightarrow> (Inr conn, hm_insert m host conn))))"
  by (simp add: get_connection_write_def get_connection_write_io_def split: option.splits sum.splits)

definition get_connection ::
  "(string \<Rightarrow> 'e + 'l) \<Rightarrow> ('l \<Rightarrow> 'e + 'c) \<Rightarrow> string \<Rightarrow> 'c host_map \<Rightarrow> ('e + 'c) \<times> 'c host_map" where
  "get_connection client_open connect host m =
     (case get_connection_read host m of
        Some (conn, m') \<Rightarrow> (Inr conn, m')
      | None \<Rightarrow> get_connection_write client_open connect host m)"

definition evict_connection :: "string \<Rightarrow> 'c host_map \<Rightarrow> 'c host_map" where
  "evict_connection host m = hm_remove m host"

section \<open>Specification of the normalisation\<close>

text \<open>
  The documented contract as a relation: maps become objects in which the last of equal keys
  wins, sequences become arrays of the same length, everything else becomes the string the client
  library converts it to.
\<close>

inductive normalizes :: "('o, 'p) redis_lib \<Rightarrow> 'o redis_value \<Rightarrow> json \<Rightarrow> bool" for L where
  norm_map: "list_all2 (\<lambda>k s. from_redis_value L k = Inr s) (map fst es) ks \<Longrightarrow>
    list_all2 (normalizes L) (map snd es) js \<Longrightarrow>
    normalizes L (RMap es) (JObject (fmap_of_list (rev (zip ks js))))"
| norm_array: "list_all2 (normalizes L) xs js \<Longrightarrow> normalizes L (RArray xs) (JArray js)"
| norm_simple: "from_redis_value L (RSimpleString s) = Inr t \<Longrightarrow>
    normalizes L (RSimpleString s) (JString t)"
| norm_bulk: "from_redis_value L (RBulkString b) = Inr t \<Longrightarrow>
    normalizes L (RBulkString b) (JString t)"
| norm_other: "from_redis_value L (ROther x) = Inr t \<Longrightarrow> normalizes L (ROther x) (JString t)"

inductive_simps normalizes_simps:
  "normalizes L (RMap es) j" "normalizes L (RArray xs) j" "normalizes L (RSimpleString s) j"
  "normalizes L (RBulkString b) j" "normalizes L (ROther x) j"

text \<open>The conversions to strings the normalisation asks for, in the order it asks for them.\<close>

fun conversions :: "'o redis_value \<Rightarrow> 'o redis_value list" where
  "conversions (RMap es) = concat (map (\<lambda>(k, v). k # conversions v) es)"
| "conversions (RArray xs) = concat (map conversions xs)"
| "conversions v = [v]"

section \<open>Lemmas\<close>

lemma fold_fmupd: "fold (\<lambda>(k, j). fmupd k j) zs fmempty = fmap_of_list (rev zs)"
proof -
  have "fold (\<lambda>(k, j). fmupd k j) (rev ys) fmempty = fmap_of_list ys" for ys :: "('a \<times> 'b) list"
    by (induction ys) (auto simp: fmap_of_list_simps)
  from this [of "rev zs"] show ?thesis by simp
qed

lemma ex_list_all2_Cons:
  "(\<exists>ys. list_all2 R (x # xs) ys \<and> P ys) \<longleftrightarrow> (\<exists>y ys. R x y \<and> list_all2 R xs ys \<and> P (y # ys))"
  by (auto simp: list_all2_Cons1)

lemma normalisation_spec:
  "redis_value_to_json_value L v = Inr j \<longleftrightarrow> normalizes L v j"
  "redis_map_loop L object es = Inr j \<longleftrightarrow>
     (\<exists>ks js. list_all2 (\<lambda>k s. from_redis_value L k = Inr s) (map fst es) ks \<and>
        list_all2 (normalizes L) (map snd es) js \<and>
        j = JObject (fold (\<lambda>(k, j). fmupd k j) (zip ks js) object))"
  "redis_sequence_loop L array xs = Inr j \<longleftrightarrow>
     (\<exists>js. list_all2 (normalizes L) xs js \<and> j = JArray (array @ js))"
proof (induction L v and L object es and L array xs arbitrary: j and j and j
    rule: redis_value_to_json_value_redis_map_loop_redis_sequence_loop.induct)
  case (7 L object key val entries)
  have "redis_map_loop L object ((key, val) # entries) = Inr j \<longleftrightarrow>
      (\<exists>k. from_redis_value L key = Inr k \<and> (\<exists>v. normalizes L val v \<and>
        (\<exists>ks js. list_all2 (\<lambda>k s. from_redis_value L k = Inr s) (map fst entries) ks \<and>
          list_all2 (normalizes L) (map snd entries) js \<and>
          j = JObject (fold (\<lambda>(k, j). fmupd k j) (zip ks js) (fmupd k v object)))))"
    by (simp add: res_bind_eq_Inr 7)
  then show ?case
    by (simp add: ex_list_all2_Cons) blast
next
  case (9 L array entry entries)
  then show ?case
    by (auto simp: res_bind_eq_Inr ex_list_all2_Cons)
qed (auto simp: normalizes_simps res_bind_eq_Inr fold_fmupd)

text \<open>Whether a result is an error, and which, without its value.\<close>

definition erase :: "'e + 'a \<Rightarrow> 'e + unit" where
  "erase r = (case r of Inl e \<Rightarrow> Inl e | Inr _ \<Rightarrow> Inr ())"

lemma erase_simps [simp]: "erase (Inl e) = Inl e" "erase (Inr a) = Inr ()"
  by (simp_all add: erase_def)

lemma erase_eq_Inl [simp]: "erase r = Inl e \<longleftrightarrow> r = Inl e"
  by (cases r) simp_all

lemma erase_collect_append:
  "erase (collect_results (xs @ ys)) =
     res_bind (erase (collect_results xs)) (\<lambda>_. erase (collect_results ys))"
proof (induction xs)
  case (Cons x xs)
  then show ?case
    by (cases x; cases "collect_results xs"; cases "collect_results ys";
        cases "collect_results (xs @ ys)") simp_all
qed simp

lemma erase_collect_Cons:
  "erase (collect_results (x # xs)) = res_bind (erase x) (\<lambda>_. erase (collect_results xs))"
  using erase_collect_append [of "[x]" xs] by (cases x) simp_all

lemma erase_bind_const:
  "(\<And>a. erase (f a) = X) \<Longrightarrow> erase (res_bind r f) = res_bind (erase r) (\<lambda>_. X)"
  by (cases r) simp_all

lemma erase_bind_const2:
  "(\<And>a b. erase (f a b) = X) \<Longrightarrow>
     erase (res_bind r (\<lambda>a. res_bind q (f a))) = res_bind (erase r) (\<lambda>_. res_bind (erase q) (\<lambda>_. X))"
  by (intro erase_bind_const) simp

lemma normalisation_errors:
  "erase (redis_value_to_json_value L v) =
     erase (collect_results (map (from_redis_value L) (conversions v)))"
  "erase (redis_map_loop L object es) =
     erase (collect_results (map (from_redis_value L) (conversions (RMap es))))"
  "erase (redis_sequence_loop L array xs) =
     erase (collect_results (map (from_redis_value L) (conversions (RArray xs))))"
proof (induction L v and L object es and L array xs
    rule: redis_value_to_json_value_redis_map_loop_redis_sequence_loop.induct)
  case (7 L object key val entries)
  then show ?case
    by (simp add: erase_bind_const [where X = "erase (collect_results (map (from_redis_value L)
            (conversions (RMap entries))))"] erase_bind_const2 erase_collect_Cons erase_collect_append
        del: collect_results.simps)
next
  case (9 L array entry entries)
  then show ?case
    by (simp add: erase_bind_const erase_collect_append del: collect_results.simps)
next
  case (3 L s)
  then show ?case by (cases "from_redis_value L (RSimpleString s)") simp_all
next
  case (4 L b)
  then show ?case by (cases "from_redis_value L (RBulkString b)") simp_all
next
  case (5 L v)
  then show ?case by (cases "from_redis_value L (ROther v)") simp_all
qed simp_all

interpretation connections: double_checked "\<lambda>m host. hm_get m host" id get_connection_read
  "get_connection_write client_open connect"
  for client_open :: "string \<Rightarrow> 'e + 'l" and connect :: "'l \<Rightarrow> 'e + 'c"
  by unfold_locales
    (auto simp: get_connection_read_def get_connection_write_eq split: option.splits sum.splits)

lemma get_connection_eq_write:
  "get_connection client_open connect host m = get_connection_write client_open connect host m"
  unfolding get_connection_def by (rule connections.read_then_write)

lemma get_connection_write_ok:
  "get_connection_write client_open connect host m = (Inr conn, m') \<Longrightarrow> hm_get m' host = Some conn"
  by (auto simp: get_connection_write_eq split: option.splits sum.splits)

section \<open>Properties\<close>

text \<open>
  C12: Normalising a Redis value gives exactly the JSON value of the documented contract, at
  every nesting depth: objects for maps (the last of equal keys wins), arrays of the same length
  for sequences, strings for everything else; it gives none where the contract has none.
\<close>

theorem normalisation_refines_contract:
  "redis_value_to_json_value L v = Inr j \<longleftrightarrow> normalizes L v j"
  by (rule normalisation_spec)

text \<open>
  Normalisation fails exactly when the conversion of some map key or scalar to a string
  fails, and the error it returns is the first one in document order, a key before its value.
\<close>

theorem normalisation_first_error:
  "redis_value_to_json_value L v = Inl e \<longleftrightarrow>
     collect_results (map (from_redis_value L) (conversions v)) = Inl e"
  using normalisation_errors(1) [of L v] by (metis erase_eq_Inl)

text \<open>
  Once a connection was opened for a host, every later call for that host returns this same
  connection, whatever other calls ran in between and whatever opening a new one would give,
  until the host is evicted.
\<close>

theorem connection_shared:
  assumes "get_connection client_open connect host m = (Inr conn, m1)"
    and "m2 = run_phases get_connection_read (get_connection_write open2 connect2) ps m1"
  shows "get_connection open3 connect3 host m2 = (Inr conn, m2)"
proof -
  have "map_option id (hm_get m1 host) = Some conn"
    using assms(1) by (simp add: get_connection_eq_write get_connection_write_ok)
  from connections.phases_keep [OF this, of open2 connect2 ps] show ?thesis
    by (simp add: assms(2) get_connection_def get_connection_read_def)
qed

theorem connection_shared_witness:
  "get_connection (\<lambda>_. Inl ''down'') (\<lambda>c :: nat. Inr c) ''redis://a''
     (run_phases get_connection_read (get_connection_write (\<lambda>_. Inr (9 :: nat)) Inr)
        [WritePhase ''redis://b'', WritePhase ''redis://a''] [(''redis://a'', 7 :: nat)]) =
   (Inr 7, [(''redis://b'', 9), (''redis://a'', 7)])"
proof -
  have "get_connection (\<lambda>_. Inr ()) (\<lambda>_. Inr (7 :: nat)) ''redis://a'' [] =
      (Inr 7 :: string + nat, [(''redis://a'', 7)])"
    by (simp add: get_connection_def get_connection_read_def get_connection_write_eq
        hm_insert_def hm_remove_def)
  from connection_shared [OF this refl, of "\<lambda>_. Inl ''down''" "\<lambda>c :: nat. Inr c" "\<lambda>_. Inr (9 :: nat)"
      Inr "[WritePhase ''redis://b'', WritePhase ''redis://a'']"]
  show ?thesis
    by (simp add: get_connection_write_eq hm_get_def hm_insert_def hm_remove_def)
qed

text \<open>
  A call for a host without a cached connection opens one: a failure to open or to connect
  is returned as it is and leaves the cache unchanged, a success is cached under that host only;
  in particular this is what happens after an eviction, which leaves the other hosts alone.
\<close>

theorem connection_opened_after_evict:
  "get_connection client_open connect host (evict_connection host m) =
     (let m' = evict_connection host m;
          opened = res_bind (client_open host) connect
      in (opened, case opened of Inl _ \<Rightarrow> m' | Inr conn \<Rightarrow> (host, conn) # m')) \<and>
   (other \<noteq> host \<longrightarrow> hm_get (evict_connection host m) other = hm_get m other)"
proof -
  have none: "hm_get (evict_connection host m) host = None"
    by (simp add: evict_connection_def)
  then show ?thesis
    by (simp add: get_connection_eq_write get_connection_write_eq hm_insert_def hm_remove_id Let_def
        split: sum.splits)
      (simp add: evict_connection_def)
qed

theorem connection_opened_after_evict_witness:
  "get_connection (\<lambda>h. Inr h) (\<lambda>h. Inr (h, 2 :: nat)) ''a''
     (evict_connection ''a'' [(''a'', (''a'', 1)), (''b'', (''b'', 3))]) =
     (Inr (''a'', 2) :: string + string \<times> nat, [(''a'', (''a'', 2)), (''b'', (''b'', 3))]) \<and>
   hm_get (evict_connection ''a'' [(''a'', (''a'', 1 :: nat)), (''b'', (''b'', 3))]) ''b'' = Some (''b'', 3)"
  using connection_opened_after_evict [of "\<lambda>h. Inr h :: string + string" "\<lambda>h. Inr (h, 2 :: nat)"
      "''a''" "[(''a'', (''a'', 1)), (''b'', (''b'', 3))]" "''b''"]
  by (simp add: evict_connection_def hm_remove_def hm_get_def)

end
