(* ===== verification/Reconnect.thy ===== *)
theory Reconnect
  imports Backoff
begin

text \<open>
  The shape the three background tasks share: a loop that makes one connection attempt after
  another until its token is cancelled. The locale has what one backend provides, its loop over a
  list of attempts and the contract of a single attempt; its lemmas lift the contract to whole
  runs. The attempts are what the environment did: the loop itself is a function of them.
\<close>

text \<open>
  After a prefix of attempts a task is at the head of its loop, has returned, has panicked, or
  waits inside an attempt for the next event.
\<close>

datatype 's loop_status = Continue 's | Returned | Panicked | Waiting 's

fun status_ok :: "('s \<Rightarrow> bool) \<Rightarrow> 's loop_status \<Rightarrow> bool" where
  "status_ok P (Continue s) = P s"
| "status_ok P (Waiting s) = P s"
| "status_ok P Returned = True"
| "status_ok P Panicked = False"

locale reconnect_loop =
  fixes inv :: "'s \<Rightarrow> bool"
    and attempt :: "'s \<Rightarrow> 'a \<Rightarrow> effect list \<times> 's loop_status"
    and run :: "'s \<Rightarrow> 'a list \<Rightarrow> effect list \<times> 's loop_status"
    and lo :: nat
    and hi :: nat
  assumes run_Nil: "run s [] = ([], Continue s)"
    and run_Cons: "run s (a # as) =
      (case attempt s a of
         (es, Continue s') \<Rightarrow> (es @ fst (run s' as), snd (run s' as))
       | (es, r) \<Rightarrow> (es, r))"
    and attempt_ok: "inv s \<Longrightarrow> status_ok inv (snd (attempt s a))"
    and attempt_sleeps: "inv s \<Longrightarrow> sleeps (fst (attempt s a)) = [] \<or>
      (\<exists>d. sleeps (fst (attempt s a)) = [d] \<and> lo \<le> d \<and> d \<le> hi)"
begin

lemma run_ok: "inv s \<Longrightarrow> status_ok inv (snd (run s as))"
proof (induction as arbitrary: s)
  case Nil
  then show ?case by (simp add: run_Nil)
next
  case (Cons a as)
  obtain es r where a: "attempt s a = (es, r)" by (cases "attempt s a")
  with attempt_ok [OF Cons.prems, of a] Cons.IH show ?case
    by (cases r) (simp_all add: run_Cons)
qed

lemma run_sleeps:
  "inv s \<Longrightarrow> list_all (\<lambda>d. lo \<le> d \<and> d \<le> hi) (sleeps (fst (run s as))) \<and>
     length (sleeps (fst (run s as))) \<le> length as"
proof (induction as arbitrary: s)
  case Nil
  then show ?case by (simp add: run_Nil)
next
  case (Cons a as)
  obtain es r where a: "attempt s a = (es, r)" by (cases "attempt s a")
  have w: "list_all (\<lambda>d. lo \<le> d \<and> d \<le> hi) (sleeps es)" "length (sleeps es) \<le> 1"
    using attempt_sleeps [OF Cons.prems, of a] a by auto
  show ?case
  proof (cases r)
    case (Continue s')
    then have "inv s'" using attempt_ok [OF Cons.prems, of a] a by simp
    from Cons.IH [OF this] w Continue a show ?thesis
      by (auto simp: run_Cons)
  qed (use a w in \<open>auto simp: run_Cons\<close>)
qed

lemma run_total_wait: "inv s \<Longrightarrow> sum_list (sleeps (fst (run s as))) \<le> hi * length as"
proof -
  assume i: "inv s"
  have "sum_list xs \<le> hi * length xs" if "list_all (\<lambda>d. lo \<le> d \<and> d \<le> hi) xs" for xs
    using that by (induction xs) auto
  then have "sum_list (sleeps (fst (run s as))) \<le> hi * length (sleeps (fst (run s as)))"
    using run_sleeps [OF i] by blast
  also have "\<dots> \<le> hi * length as"
    using run_sleeps [OF i] by simp
  finally show ?thesis .
qed

lemma run_append:
  "snd (run s as) = Continue s' \<Longrightarrow>
     run s (as @ bs) = (fst (run s as) @ fst (run s' bs), snd (run s' bs))"
proof (induction as arbitrary: s)
  case Nil
  then show ?case by (simp add: run_Nil)
next
  case (Cons a as)
  obtain fs r where a: "attempt s a = (fs, r)" by (cases "attempt s a")
  with Cons show ?case
    by (cases r) (auto simp: run_Cons)
qed

end

text \<open>
  A task, in more detail: turns that find the token cancelled end it (\<open>stops\<close>), turns that have
  \<open>ended\<close> do not leave it waiting, and a turn that cannot connect (\<open>fails\<close>) is one call of
  \<open>on_error\<close> with the given arguments, in the states that are \<open>ready\<close> for an attempt.
\<close>

locale task_loop = reconnect_loop inv attempt run lo hi
  for inv :: "'s \<Rightarrow> bool"
    and attempt :: "'s \<Rightarrow> 'a \<Rightarrow> effect list \<times> 's loop_status"
    and run :: "'s \<Rightarrow> 'a list \<Rightarrow> effect list \<times> 's loop_status"
    and lo :: nat
    and hi :: nat +
  fixes stops :: "'a \<Rightarrow> bool"
    and ended :: "'a \<Rightarrow> bool"
    and ready :: "'s \<Rightarrow> bool"
    and outage_of :: "'s \<Rightarrow> 'k outage_state"
    and fails :: "'a \<Rightarrow> 'k \<Rightarrow> string \<Rightarrow> string \<Rightarrow> bool"
  assumes stops_returns: "stops a \<Longrightarrow> attempt s a = ([], Returned)"
    and ended_goes_on: "ended a \<Longrightarrow> snd (attempt s a) \<noteq> Waiting s'"
    and inv_outage: "inv s \<Longrightarrow> outage_inv (outage_of s)"
    and fails_step: "inv s \<Longrightarrow> ready s \<Longrightarrow> fails a k e c \<Longrightarrow>
      \<exists>s'. attempt s a = (fst (on_error (outage_of s) k e c), Continue s') \<and> ready s' \<and>
        snd (on_error (outage_of s) k e c) = Ret (outage_of s')"
begin

lemma run_returned: "snd (run s as) = Returned \<Longrightarrow> run s (as @ bs) = run s as"
proof (induction as arbitrary: s)
  case Nil
  then show ?case by (simp add: run_Nil)
next
  case (Cons a as)
  obtain es r where a: "attempt s a = (es, r)" by (cases "attempt s a")
  with Cons show ?case by (cases r) (simp_all add: run_Cons)
qed

text \<open>A cancelled task returns at its next turn and does nothing more.\<close>

lemma run_cancelled:
  assumes "inv s" and "list_all ended as" and "stops a"
  shows "run s (as @ a # bs) = (fst (run s as), Returned)"
  using assms(1,2)
proof (induction as arbitrary: s)
  case Nil
  then show ?case by (simp add: run_Nil run_Cons stops_returns [OF assms(3)])
next
  case (Cons x as)
  obtain es r where x: "attempt s x = (es, r)" by (cases "attempt s x")
  have ok: "status_ok inv r" using attempt_ok [OF Cons.prems(1), of x] x by simp
  have "r \<noteq> Waiting s'" for s' using ended_goes_on [of x s s'] Cons.prems(2) x by simp
  with ok Cons x show ?case by (cases r) (auto simp: run_Cons)
qed

text \<open>An outage of any length is a sequence of calls of \<open>on_error\<close>; then the task is ready again.\<close>

lemma run_outage:
  assumes "inv s" and "ready s" and "list_all2 (\<lambda>a (k, e, c). fails a k e c) as xs"
  shows "\<exists>s'. run s as = (fst (outage_run (outage_of s) (map (\<lambda>(k, e, c). OnError k e c) xs)), Continue s') \<and>
    inv s' \<and> ready s' \<and>
    snd (outage_run (outage_of s) (map (\<lambda>(k, e, c). OnError k e c) xs)) = Ret (outage_of s')"
  using assms
proof (induction as arbitrary: s xs)
  case Nil
  then show ?case by (auto simp: run_Nil)
next
  case (Cons a as)
  obtain k e c ys where xs: "xs = (k, e, c) # ys" and f: "fails a k e c"
    and fs: "list_all2 (\<lambda>a (k, e, c). fails a k e c) as ys"
    using Cons.prems(3) by (auto simp: list_all2_Cons1)
  obtain s1 where s1: "attempt s a = (fst (on_error (outage_of s) k e c), Continue s1)" "ready s1"
    "snd (on_error (outage_of s) k e c) = Ret (outage_of s1)"
    using fails_step [OF Cons.prems(1,2) f] by blast
  have "inv s1" using attempt_ok [OF Cons.prems(1), of a] s1(1) by simp
  from Cons.IH [OF this s1(2) fs] obtain s2 where s2: "run s1 as =
      (fst (outage_run (outage_of s1) (map (\<lambda>(k, e, c). OnError k e c) ys)), Continue s2)" "inv s2" "ready s2"
    "snd (outage_run (outage_of s1) (map (\<lambda>(k, e, c). OnError k e c) ys)) = Ret (outage_of s2)" by blast
  have "outage_step (outage_of s) (OnError k e c) = (fst (on_error (outage_of s) k e c), Ret (outage_of s1))"
    using s1(3) by (simp add: prod_eq_iff)
  from outage_run_Cons [OF this] s1(1) s2 show ?case
    by (intro exI [of _ s2]) (simp add: xs run_Cons)
qed

lemma run_recovers:
  assumes "inv s" and "ready s" and "outage_of s = outage_default"
    and "\<forall>a \<in> set as. \<exists>k e c. fails a k e c"
  obtains es s' where "run s (as @ [b]) = (es @ fst (attempt s' b), snd (attempt s' b))"
    and "inv s'" and "ready s'" and "sends es = []" and "sleeps es = map backoff_at [0..<length as]"
    and "is_in_outage (outage_of s') \<longleftrightarrow> as \<noteq> []" and "as = [] \<Longrightarrow> s' = s"
proof -
  have "\<exists>xs. list_all2 (\<lambda>a (k, e, c). fails a k e c) as xs"
    using assms(4)
  proof (induction as)
    case (Cons a as)
    then obtain k e c xs where "fails a k e c" "list_all2 (\<lambda>a (k, e, c). fails a k e c) as xs" by auto
    then have "list_all2 (\<lambda>a (k, e, c). fails a k e c) (a # as) ((k, e, c) # xs)" by simp
    then show ?case by blast
  qed (rule exI [of _ "[]"], simp)
  then obtain xs where xs: "list_all2 (\<lambda>a (k, e, c). fails a k e c) as xs" by blast
  let ?ops = "map (\<lambda>(k, e, c). OnError k e c) xs"
  obtain s' where s': "run s as = (fst (outage_run outage_default ?ops), Continue s')" "inv s'" "ready s'"
    "snd (outage_run outage_default ?ops) = Ret (outage_of s')"
    using run_outage [OF assms(1,2) xs] assms(3) by auto
  have len: "length xs = length as" using list_all2_lengthD [OF xs] by simp
  have "next_backoff (outage_default :: 'k outage_state) = backoff_at 0"
    by (simp add: backoff_at_0 outage_default_def)
  note sl = errors_run_from [OF outage_inv_default this, of xs]
  have "run s (as @ [b]) = (fst (outage_run outage_default ?ops) @ fst (attempt s' b), snd (attempt s' b))"
    using run_append [of s as s' "[b]"] s'(1) by (cases "attempt s' b"; cases "snd (attempt s' b)") (simp_all add: run_Cons run_Nil)
  moreover have "sleeps (fst (outage_run outage_default ?ops)) = map backoff_at [0..<length as]"
    using sl len by simp
  moreover have "sends (fst (outage_run outage_default ?ops)) = []"
    by (rule errors_run_quiet)
  moreover have "is_in_outage (outage_of s') \<longleftrightarrow> as \<noteq> []"
    using errors_run_in_outage [OF s'(4)] len by auto
  moreover have "s' = s" if "as = []"
    using s'(1) that by (simp add: run_Nil)
  ultimately show thesis using that s'(2,3) by blast
qed

end

end
