(* ===== verification/Redis_Pubsub.thy ===== *)
theory Redis_Pubsub
  imports Redis_Values Rust_Str Reconnect
begin

text \<open>
  The native Redis pub/sub backend, \<^verbatim>\<open>src/src/redis_impls/pubsub/mod.rs\<close> and
  \<^verbatim>\<open>src/src/redis_impls/pubsub/runtime/mod.rs\<close>: the publisher, the loop that forwards messages
  from one connection, and the reconnect loop around it.
\<close>

section \<open>Publisher\<close>

record redis_publisher =
  rp_host :: string
  rp_topic :: string

definition redis_publisher_new :: "string \<Rightarrow> string \<Rightarrow> redis_publisher" where
  "redis_publisher_new host topic = \<lparr>rp_host = host, rp_topic = topic\<rparr>"

datatype publish_cmd = PublishCmd string bytes

text \<open>\<open>client_open\<close>, \<open>connect\<close>, \<open>publish_on\<close> and the \<open>Debug\<close> of errors are the client library's.\<close>

definition redis_publish ::
  "(string \<Rightarrow> 'e + 'l) \<Rightarrow> ('l \<Rightarrow> 'e + 'c) \<Rightarrow> ('e \<Rightarrow> string) \<Rightarrow> ('c \<Rightarrow> publish_cmd \<Rightarrow> 'e + unit) \<Rightarrow>
     ('m \<Rightarrow> byte_message) \<Rightarrow> redis_publisher \<Rightarrow> 'm \<Rightarrow> 'c host_map \<Rightarrow>
     (pubsub_error + unit) \<times> 'c host_map \<times> publish_cmd list" where
  "redis_publish client_open connect dbg publish_on into_bytes p message m =
     (case get_connection client_open connect (rp_host p) m of
        (Inl e, m') \<Rightarrow> (Inl (pubsub_error_of_redis dbg e), m', [])
      | (Inr conn, m') \<Rightarrow>
          let bs = into_bytes message;
              cmd = PublishCmd (rp_topic p) (byte_extract_value bs)
          in (map_err (pubsub_error_of_redis dbg) (publish_on conn cmd), m', [cmd]))"

section \<open>Forwarding\<close>

datatype drain_outcome = Reconnect | Stop

text \<open>
  What ends the wait of \<open>select!\<close>: the end of the message stream, a message with the result
  of \<open>get_payload\<close>, or the cancellation.
\<close>

datatype ('o, 'p) drain_event =
    Closed
  | Incoming "'p + 'o redis_value"
  | DrainCancelled

definition drain_payload :: "('o, 'p) redis_lib \<Rightarrow> 'p + 'o redis_value \<Rightarrow> effect list" where
  "drain_payload L get_payload =
     (case get_payload of
        Inl e \<Rightarrow> [LogWarn (''Redis pub/sub failed to decode message payload: '' @ parsing_error_debug L e)]
      | Inr (RBulkString b) \<Rightarrow> [Send (byte_from_value b)]
      | Inr other \<Rightarrow>
          (case from_redis_value L other of
             Inr s \<Rightarrow> [Send (byte_from_value (into_bytes_str s))]
           | Inl e \<Rightarrow> [LogWarn (''Redis pub/sub failed to convert message value: '' @ parsing_error_debug L e)]))"

text \<open>The outcome is \<open>None\<close> while the loop waits for an event the list does not have.\<close>

fun drain_messages ::
  "('o, 'p) redis_lib \<Rightarrow> ('o, 'p) drain_event list \<Rightarrow> effect list \<times> drain_outcome option" where
  "drain_messages L [] = ([], None)"
| "drain_messages L (Closed # evs) = ([], Some Reconnect)"
| "drain_messages L (DrainCancelled # evs) = ([], Some Stop)"
| "drain_messages L (Incoming payload # evs) =
     (drain_payload L payload @ fst (drain_messages L evs), snd (drain_messages L evs))"

section \<open>Reconnect loop\<close>

text \<open>
  One connection attempt: the outcomes of opening the client, of connecting and of subscribing,
  and the events on the connection. \<open>PsCancelled\<close> is a cancellation found at the loop head.
\<close>

record ('l, 'c, 'e, 'o, 'p) ps_try =
  ps_open :: "string \<Rightarrow> 'e + 'l"
  ps_get_async_pubsub :: "'l \<Rightarrow> 'e + 'c"
  ps_subscribe :: "'c \<Rightarrow> string \<Rightarrow> 'e + unit"
  ps_events :: "('o, 'p) drain_event list"

datatype ('l, 'c, 'e, 'o, 'p) ps_turn = PsCancelled | PsAttempt "('l, 'c, 'e, 'o, 'p) ps_try"

definition connect_and_subscribe :: "('l, 'c, 'e, 'o, 'p) ps_try \<Rightarrow> string \<Rightarrow> string \<Rightarrow> 'e + 'c" where
  "connect_and_subscribe a host topic =
     res_bind (ps_open a host) (\<lambda>client.
     res_bind (ps_get_async_pubsub a client) (\<lambda>pubsub.
     res_bind (ps_subscribe a pubsub topic) (\<lambda>_. Inr pubsub)))"

text \<open>Errors of the client library: kind, \<open>Debug\<close>, and the making of an error of kind \<open>Io\<close>.\<close>

record ('e, 'k) redis_errors =
  re_kind :: "'e \<Rightarrow> 'k"
  re_debug :: "'e \<Rightarrow> string"
  re_io :: "string \<Rightarrow> string \<Rightarrow> 'e"

definition ps_fail ::
  "('e, 'k) redis_errors \<Rightarrow> 'e \<Rightarrow> string \<Rightarrow> 'k outage_state \<Rightarrow> effect list \<times> 'k outage_state loop_status" where
  "ps_fail R err context st =
     (case on_error st (re_kind R err) (re_debug R err) context of
        (es, Panic) \<Rightarrow> (es, Panicked)
      | (es, Ret st') \<Rightarrow> (es, Continue st'))"

fun ps_attempt ::
  "('o, 'p) redis_lib \<Rightarrow> ('e, 'k) redis_errors \<Rightarrow> string \<Rightarrow> string \<Rightarrow> 'k outage_state \<Rightarrow>
     ('l, 'c, 'e, 'o, 'p) ps_turn \<Rightarrow> effect list \<times> 'k outage_state loop_status" where
  "ps_attempt L R host topic st PsCancelled = ([], Returned)"
| "ps_attempt L R host topic st (PsAttempt a) =
     (case connect_and_subscribe a host topic of
        Inr pubsub \<Rightarrow>
          (let (recovered, st') = on_recovery st;
               logs = (if recovered then [LogInfo (''Redis pub/sub recovered for '' @ host)] else []);
               (es, outcome) = drain_messages L (ps_events a)
           in case outcome of
                None \<Rightarrow> (logs @ es, Waiting st')
              | Some Reconnect \<Rightarrow>
                  (let drop_err = re_io R ''Redis pub/sub connection closed unexpectedly'' host;
                       (fs, r) = ps_fail R drop_err ''Redis pub/sub connection drop'' st'
                   in (logs @ es @ fs, r))
              | Some Stop \<Rightarrow> (logs @ es, Returned))
      | Inl err \<Rightarrow> ps_fail R err ''Redis pub/sub connection error'' st)"

fun ps_loop ::
  "('o, 'p) redis_lib \<Rightarrow> ('e, 'k) redis_errors \<Rightarrow> string \<Rightarrow> string \<Rightarrow> 'k outage_state \<Rightarrow>
     ('l, 'c, 'e, 'o, 'p) ps_turn list \<Rightarrow> effect list \<times> 'k outage_state loop_status" where
  "ps_loop L R host topic st [] = ([], Continue st)"
| "ps_loop L R host topic st (a # as) =
     (case ps_attempt L R host topic st a of
        (es, Continue st') \<Rightarrow>
          (es @ fst (ps_loop L R host topic st' as), snd (ps_loop L R host topic st' as))
      | (es, r) \<Rightarrow> (es, r))"

definition ps_start_stream ::
  "('o, 'p) redis_lib \<Rightarrow> ('e, 'k) redis_errors \<Rightarrow> string \<Rightarrow> string \<Rightarrow>
     ('l, 'c, 'e, 'o, 'p) ps_turn list \<Rightarrow> effect list \<times> 'k outage_state loop_status" where
  "ps_start_stream L R host topic as = ps_loop L R host topic outage_default as"

section \<open>Lemmas\<close>

text \<open>The message a payload becomes, if it does, and the warning if it does not.\<close>

definition payload_message :: "('o, 'p) redis_lib \<Rightarrow> 'p + 'o redis_value \<Rightarrow> byte_message option" where
  "payload_message L p =
     (case p of
        Inl _ \<Rightarrow> None
      | Inr (RBulkString b) \<Rightarrow> Some (byte_from_value b)
      | Inr v \<Rightarrow> (case from_redis_value L v of
                      Inr s \<Rightarrow> Some (byte_from_value (into_bytes_str s)) | Inl _ \<Rightarrow> None))"

lemma drain_payload_effects:
  "sends (drain_payload L p) = (case payload_message L p of Some m \<Rightarrow> [m] | None \<Rightarrow> [])"
  "length (warn_logs (drain_payload L p)) = (if payload_message L p = None then 1 else 0)"
  "sleeps (drain_payload L p) = []" "error_logs (drain_payload L p) = []"
  by (auto simp: drain_payload_def payload_message_def split: sum.splits redis_value.splits)

lemma drain_messages_quiet:
  "sleeps (fst (drain_messages L evs)) = []" "error_logs (fst (drain_messages L evs)) = []"
  by (induction L evs rule: drain_messages.induct) (simp_all add: drain_payload_effects)

text \<open>The payloads that arrive before the stream ends or the token is cancelled.\<close>

fun payloads :: "('o, 'p) drain_event list \<Rightarrow> ('p + 'o redis_value) list" where
  "payloads (Incoming p # evs) = p # payloads evs"
| "payloads _ = []"

lemma drain_messages_sends:
  "sends (fst (drain_messages L evs)) = List.map_filter (payload_message L) (payloads evs)"
  by (induction L evs rule: drain_messages.induct)
    (simp_all add: drain_payload_effects split: option.splits)

lemma drain_messages_warns:
  "length (warn_logs (fst (drain_messages L evs))) =
     length (filter (\<lambda>p. payload_message L p = None) (payloads evs))"
  by (induction L evs rule: drain_messages.induct) (simp_all add: drain_payload_effects)

lemma ps_fail_cases:
  assumes "outage_inv st"
  obtains es st' d where "ps_fail R err c st = (es, Continue st')" and "outage_inv st'"
    and "sleeps es = [d]" and "INITIAL_BACKOFF \<le> d" and "d \<le> MAX_BACKOFF" and "sends es = []"
  using assms by (rule backoff.on_err_cases [of _ "re_kind R err" "re_debug R err" c])
    (simp add: ps_fail_def)

lemma ps_attempt_contract:
  assumes "outage_inv st"
  shows "status_ok outage_inv (snd (ps_attempt L R host topic st a)) \<and>
    (sleeps (fst (ps_attempt L R host topic st a)) = [] \<or>
      (\<exists>d. sleeps (fst (ps_attempt L R host topic st a)) = [d] \<and> INITIAL_BACKOFF \<le> d \<and> d \<le> MAX_BACKOFF))"
proof (cases a)
  case PsCancelled
  then show ?thesis by simp
next
  case (PsAttempt t)
  obtain es outcome where d: "drain_messages L (ps_events t) = (es, outcome)" by fastforce
  have quiet: "sleeps es = []"
    using drain_messages_quiet(1) [of L "ps_events t"] by (simp add: d)
  show ?thesis
  proof (cases "connect_and_subscribe t host topic")
    case (Inl err)
    show ?thesis
      by (rule ps_fail_cases [OF assms, of R err "''Redis pub/sub connection error''"])
        (use PsAttempt Inl in simp)
  next
    case (Inr pubsub)
    show ?thesis
      by (rule ps_fail_cases [OF outage_inv_default, of R
            "re_io R ''Redis pub/sub connection closed unexpectedly'' host" "''Redis pub/sub connection drop''"])
        (use PsAttempt Inr d quiet in \<open>simp add: on_recovery_eq Let_def outage_inv_default
          split: option.splits drain_outcome.splits\<close>)
  qed
qed

text \<open>Turns that do not leave the task waiting, and turns that cannot connect.\<close>

fun ps_ended :: "string \<Rightarrow> string \<Rightarrow> ('l, 'c, 'e, 'o, 'p) ps_turn \<Rightarrow> bool" where
  "ps_ended host topic PsCancelled = True"
| "ps_ended host topic (PsAttempt a) \<longleftrightarrow>
     \<not> is_ok (connect_and_subscribe a host topic) \<or> Closed \<in> set (ps_events a) \<or> DrainCancelled \<in> set (ps_events a)"

definition ps_fails ::
  "('e, 'k) redis_errors \<Rightarrow> string \<Rightarrow> string \<Rightarrow> ('l, 'c, 'e, 'o, 'p) ps_turn \<Rightarrow> 'k \<Rightarrow> string \<Rightarrow> string \<Rightarrow> bool" where
  "ps_fails R host topic a k e c \<longleftrightarrow>
     (\<exists>t err. a = PsAttempt t \<and> connect_and_subscribe t host topic = Inl err \<and>
        k = re_kind R err \<and> e = re_debug R err \<and> c = ''Redis pub/sub connection error'')"

lemma drain_messages_ends:
  "Closed \<in> set evs \<or> DrainCancelled \<in> set evs \<Longrightarrow> snd (drain_messages L evs) \<noteq> None"
  by (induction L evs rule: drain_messages.induct) auto

lemma ps_attempt_ends: "ps_ended host topic a \<Longrightarrow> snd (ps_attempt L R host topic st a) \<noteq> Waiting st'"
proof (cases a)
  case (PsAttempt t)
  assume "ps_ended host topic a"
  then have "is_ok (connect_and_subscribe t host topic) \<Longrightarrow> snd (drain_messages L (ps_events t)) \<noteq> None"
    using PsAttempt drain_messages_ends [of "ps_events t" L] by auto
  then show ?thesis
    using PsAttempt
    by (cases "connect_and_subscribe t host topic"; cases "drain_messages L (ps_events t)")
      (auto simp: ps_fail_def Let_def split: prod.splits outcome.splits option.splits drain_outcome.splits)
qed simp

interpretation redis_pubsub_task: task_loop outage_inv "ps_attempt L R host topic"
  "ps_loop L R host topic" INITIAL_BACKOFF MAX_BACKOFF "\<lambda>a. a = PsCancelled" "ps_ended host topic"
  "\<lambda>_. True" id "ps_fails R host topic"
proof
  show "\<exists>s'. ps_attempt L R host topic s a = (fst (on_error (id s) k e c), Continue s') \<and> True \<and>
      snd (on_error (id s) k e c) = Ret (id s')"
    if "outage_inv s" "ps_fails R host topic a k e c" for s a k e c
    using that by (auto simp: ps_fails_def ps_fail_def on_error_eq)
qed (simp_all add: ps_attempt_contract ps_attempt_ends)

section \<open>Properties\<close>

text \<open>
  Publishing sends the payload alone to the configured channel: two messages with the same
  payload are published alike whatever their keys, and no command is sent when there is no
  connection.
\<close>

theorem redis_publish_payload_only:
  assumes "get_connection opn con (rp_host p) m = (c, m')"
  shows "redis_publish opn con dbg publish_on into_bytes p msg m =
    (case c of
       Inl e \<Rightarrow> (Inl (from_debug (dbg e)), m', [])
     | Inr conn \<Rightarrow>
         let cmd = PublishCmd (rp_topic p) (bm_value (into_bytes msg))
         in (map_err (\<lambda>e. from_debug (dbg e)) (publish_on conn cmd), m', [cmd])) \<and>
    (bm_value (into_bytes msg) = bm_value (into_bytes msg') \<longrightarrow>
       redis_publish opn con dbg publish_on into_bytes p msg m =
       redis_publish opn con dbg publish_on into_bytes p msg' m)"
  using assms
  by (simp add: redis_publish_def byte_extract_value_def Let_def pubsub_error_of_redis_def [abs_def]
      split: sum.splits)

theorem redis_publish_payload_only_witness:
  "redis_publish Inr (\<lambda>_. Inr (1 :: nat)) id (\<lambda>_ _. Inr ()) string_into_bytes
     (redis_publisher_new ''h'' ''t'') (string_new (Some ''k'') ''v'') [] =
   (Inr (), [(''h'', 1)], [PublishCmd ''t'' (into_bytes_str ''v'')])"
proof -
  have "get_connection Inr (\<lambda>_. Inr (1 :: nat)) (rp_host (redis_publisher_new ''h'' ''t'')) [] =
      (Inr 1, [(''h'', 1)])"
    by (simp add: get_connection_eq_write get_connection_write_eq redis_publisher_new_def
        hm_insert_def hm_remove_def)
  from redis_publish_payload_only [OF this, of id "\<lambda>_ _. Inr ()" string_into_bytes
      "string_new (Some ''k'') ''v''"]
  show ?thesis
    by (simp add: redis_publisher_new_def string_defs Let_def)
qed

text \<open>
  Messages are forwarded in the order of arrival, bulk strings byte for byte; a payload that
  cannot be decoded is skipped with one warning and does not stop the loop; the loop ends with
  \<open>Reconnect\<close> when the connection closes and with \<open>Stop\<close> when the token is cancelled.
\<close>

theorem drain_forwards_payloads:
  "sends (fst (drain_messages L evs)) = List.map_filter (payload_message L) (payloads evs) \<and>
   length (warn_logs (fst (drain_messages L evs))) =
     length (filter (\<lambda>p. payload_message L p = None) (payloads evs)) \<and>
   payload_message L (Inr (RBulkString b)) = Some (byte_from_value b) \<and>
   snd (drain_messages L evs) =
     (case drop (length (payloads evs)) evs of
        Closed # _ \<Rightarrow> Some Reconnect | DrainCancelled # _ \<Rightarrow> Some Stop | _ \<Rightarrow> None)"
proof -
  have "snd (drain_messages L evs) =
     (case drop (length (payloads evs)) evs of
        Closed # _ \<Rightarrow> Some Reconnect | DrainCancelled # _ \<Rightarrow> Some Stop | _ \<Rightarrow> None)"
    by (induction L evs rule: drain_messages.induct) simp_all
  then show ?thesis
    by (simp add: drain_messages_sends drain_messages_warns payload_message_def)
qed

text \<open>
  Whatever the server and the network do, the Redis pub/sub task does not panic, and it
  waits at most once per connection attempt, between one and thirty seconds.
\<close>

theorem redis_pubsub_task_safe:
  "snd (ps_start_stream L R host topic as) \<noteq> Panicked \<and>
   list_all (\<lambda>d. from_secs 1 \<le> d \<and> d \<le> from_secs 30) (sleeps (fst (ps_start_stream L R host topic as))) \<and>
   length (sleeps (fst (ps_start_stream L R host topic as))) \<le> length as"
  using redis_pubsub_task.run_ok [OF outage_inv_default, of L R host topic as]
    redis_pubsub_task.run_sleeps [OF outage_inv_default, of L R host topic as]
  by (auto simp: ps_start_stream_def INITIAL_BACKOFF_def MAX_BACKOFF_def)

text \<open>
  C36: Repeated drops are neither deduplicated nor backed off: on a server that accepts every
  connection and then closes it, each round writes its error line again and waits one second, for
  the recovery at the start of the round clears the outage of the round before.
\<close>

theorem repeated_drops_not_deduplicated:
  assumes "\<forall>a \<in> set as. is_ok (connect_and_subscribe a host topic) \<and>
      snd (drain_messages L (ps_events a)) = Some Reconnect"
  shows "sleeps (fst (ps_start_stream L R host topic (map PsAttempt as))) = replicate (length as) (from_secs 1) \<and>
    error_logs (fst (ps_start_stream L R host topic (map PsAttempt as))) =
      replicate (length as) (''Redis pub/sub connection drop: '' @
        re_debug R (re_io R ''Redis pub/sub connection closed unexpectedly'' host))"
proof -
  let ?line = "''Redis pub/sub connection drop: '' @
        re_debug R (re_io R ''Redis pub/sub connection closed unexpectedly'' host)"
  have "sleeps (fst (ps_loop L R host topic st (map PsAttempt as))) = replicate (length as) (from_secs 1) \<and>
      error_logs (fst (ps_loop L R host topic st (map PsAttempt as))) = replicate (length as) ?line" for st
    using assms
  proof (induction as arbitrary: st)
    case (Cons a as)
    obtain pubsub where "connect_and_subscribe a host topic = Inr pubsub"
      using Cons.prems by (cases "connect_and_subscribe a host topic") (auto simp: is_ok_def)
    moreover obtain es where d: "drain_messages L (ps_events a) = (es, Some Reconnect)"
      using Cons.prems by (metis list.set_intros(1) prod.collapse)
    moreover have "sleeps es = []" "error_logs es = []"
      using drain_messages_quiet [of L "ps_events a"] by (simp_all add: d)
    ultimately show ?case
      using Cons
      by (simp add: on_recovery_eq ps_fail_def on_error_eq [OF outage_inv_default] Let_def)
        (simp add: outage_default_def INITIAL_BACKOFF_def)
  qed simp
  then show ?thesis by (simp add: ps_start_stream_def)
qed

theorem repeated_drops_not_deduplicated_witness:
  "sleeps (fst (ps_start_stream
      (\<lparr>from_redis_value = (\<lambda>_. Inr ''x''), parsing_error = id, parsing_error_debug = id\<rparr> :: (unit, string) redis_lib)
      \<lparr>re_kind = fst, re_debug = snd, re_io = (\<lambda>d h. (''Io'', d))\<rparr> ''h'' ''t''
      (map PsAttempt (replicate 3 \<lparr>ps_open = Inr, ps_get_async_pubsub = Inr, ps_subscribe = (\<lambda>_ _. Inr ()),
         ps_events = [Incoming (Inr (RBulkString [1])), Closed]\<rparr>)))) =
    [from_secs 1, from_secs 1, from_secs 1]"
  by (subst repeated_drops_not_deduplicated [THEN conjunct1])
    (simp_all add: connect_and_subscribe_def eval_nat_numeral)

end
