(* ===== verification/Stream_Message.thy ===== *)
theory Stream_Message
  imports Messages
begin

text \<open>
  The message types of the Redis Stream backend,
  \<^verbatim>\<open>src/src/redis_impls/stream/stream_message.rs\<close>: \<open>MapMessage\<close> with every method of the
  \<open>Message\<close> trait, and the field lists of the \<open>StreamMessage\<close> trait. The JSON encoder and
  decoder of string maps are parameters.
\<close>

section \<open>MapMessage\<close>

type_synonym fields = "(string, string) hash_map"

text \<open>
  \<open>serde_json::to_vec\<close> on a string map (the error is its \<open>Debug\<close> rendering) and
  \<open>serde_json::from_slice\<close> to one (the error is discarded).
\<close>

type_synonym map_to_vec = "fields \<Rightarrow> string + bytes"
type_synonym map_from_slice = "bytes \<Rightarrow> fields option"

record map_message =
  mm_key :: "string option"
  mm_fields :: fields

text \<open>\<open>parse_fields\<close>: the decoded map, or the whole input as the one field \<open>data\<close>.\<close>

definition parse_fields :: "map_from_slice \<Rightarrow> bytes \<Rightarrow> fields" where
  "parse_fields from_slice bs =
     (case from_slice bs of
        Some m \<Rightarrow> m
      | None \<Rightarrow> hm_insert [] ''data'' (from_utf8_lossy bs))"

definition map_from_fields :: "fields \<Rightarrow> map_message" where
  "map_from_fields fs = \<lparr>mm_key = None, mm_fields = fs\<rparr>"

definition map_new :: "string option \<Rightarrow> fields \<Rightarrow> map_message" where
  "map_new key value = \<lparr>mm_key = key, mm_fields = value\<rparr>"

definition map_from_value :: "fields \<Rightarrow> map_message" where
  "map_from_value value = \<lparr>mm_key = None, mm_fields = value\<rparr>"

definition map_from_bytes :: "map_from_slice \<Rightarrow> bytes option \<Rightarrow> bytes \<Rightarrow> map_message" where
  "map_from_bytes from_slice key value =
     \<lparr>mm_key = map_option from_utf8_lossy key, mm_fields = parse_fields from_slice value\<rparr>"

definition map_extract_key :: "map_message \<Rightarrow> string option" where
  "map_extract_key m = mm_key m"

definition map_extract_key_value :: "map_message \<Rightarrow> string option \<times> fields" where
  "map_extract_key_value m = (mm_key m, mm_fields m)"

definition map_extract_value :: "map_message \<Rightarrow> fields" where
  "map_extract_value m = mm_fields m"

text \<open>The encoder's error is unwrapped with \<open>expect\<close>.\<close>

definition map_into_bytes :: "map_to_vec \<Rightarrow> map_message \<Rightarrow> byte_message outcome" where
  "map_into_bytes to_vec m =
     (case to_vec (mm_fields m) of
        Inl _ \<Rightarrow> Panic
      | Inr json \<Rightarrow> Ret (byte_new (map_option into_bytes_str (mm_key m)) json))"

definition map_key :: "map_message \<Rightarrow> string option" where
  "map_key m = mm_key m"

definition map_value :: "map_message \<Rightarrow> fields" where
  "map_value m = mm_fields m"

definition map_from :: "map_from_slice \<Rightarrow> byte_message \<Rightarrow> map_message" where
  "map_from from_slice bs =
     (let (byte_key, byte_val) = byte_extract_key_value bs in
      \<lparr>mm_key = map_option from_utf8_lossy byte_key, mm_fields = parse_fields from_slice byte_val\<rparr>)"

section \<open>StreamMessage\<close>

text \<open>The default method, for a type with the given \<open>into_bytes\<close>.\<close>

definition default_into_stream_fields :: "('m \<Rightarrow> byte_message) \<Rightarrow> 'm \<Rightarrow> (string \<times> bytes) list" where
  "default_into_stream_fields into_bytes m = [(''data'', byte_extract_value (into_bytes m))]"

definition byte_into_stream_fields :: "byte_message \<Rightarrow> (string \<times> bytes) list" where
  "byte_into_stream_fields = default_into_stream_fields byte_into_bytes"

definition string_into_stream_fields :: "string_message \<Rightarrow> (string \<times> bytes) list" where
  "string_into_stream_fields = default_into_stream_fields string_into_bytes"

definition map_into_stream_fields :: "map_message \<Rightarrow> (string \<times> bytes) list" where
  "map_into_stream_fields m = map (\<lambda>(k, v). (k, into_bytes_str v)) (mm_fields m)"

text \<open>The strings a \<open>MapMessage\<close> holds are Rust strings and its map has distinct keys.\<close>

definition map_wf :: "map_message \<Rightarrow> bool" where
  "map_wf m \<longleftrightarrow> pred_option valid_str (mm_key m) \<and> hm_wf (mm_fields m) \<and>
     list_all (\<lambda>(k, v). valid_str k \<and> valid_str v) (mm_fields m)"

section \<open>Lemmas\<close>

lemmas map_defs = map_new_def map_from_value_def map_from_bytes_def map_extract_key_def
  map_extract_key_value_def map_extract_value_def map_key_def map_value_def map_from_def
  map_from_fields_def

interpretation map_msg: message_trait map_new map_from_value map_key map_value
  map_extract_key map_extract_key_value map_extract_value
  by unfold_locales (simp_all add: map_defs)

lemma map_from_eq: "map_from from_slice b = map_from_bytes from_slice (bm_key b) (bm_value b)"
  by (simp add: map_defs byte_defs)

lemma lossy_option_into_bytes:
  "pred_option valid_str k \<Longrightarrow> map_option from_utf8_lossy (map_option into_bytes_str k) = k"
  by (cases k) simp_all

lemma lossy_fields:
  "list_all (\<lambda>(k, v). valid_str k \<and> valid_str v) fs \<Longrightarrow>
     map (\<lambda>(k, v). (k, from_utf8_lossy v)) (map (\<lambda>(k, v). (k, into_bytes_str v)) fs) = fs"
  by (induction fs) auto

section \<open>Properties\<close>

text \<open>
  When the JSON encoder succeeds on the fields and the decoder restores the same map from
  its output, a \<open>MapMessage\<close> survives the byte representation: same key, same fields.
\<close>

theorem map_message_roundtrip:
  assumes "map_wf m" and "to_vec (mm_fields m) = Inr json"
    and "from_slice json = Some fs" and "\<And>k. hm_get fs k = hm_get (mm_fields m) k"
  shows "\<exists>b. map_into_bytes to_vec m = Ret b \<and>
    map_key (map_from from_slice b) = map_key m \<and>
    (\<forall>k. hm_get (map_value (map_from from_slice b)) k = hm_get (map_value m) k)"
  using assms
  by (simp add: map_into_bytes_def map_defs byte_defs parse_fields_def map_wf_def
      lossy_option_into_bytes)

theorem map_message_roundtrip_witness:
  "\<exists>b. map_into_bytes (\<lambda>_. Inr (into_bytes_str ''ab''))
      (map_new (Some ''k'') [(''a'', ''1''), (''b'', ''2'')]) = Ret b \<and>
     map_key (map_from (\<lambda>_. Some [(''b'', ''2''), (''a'', ''1'')]) b) =
       map_key (map_new (Some ''k'') [(''a'', ''1''), (''b'', ''2'')]) \<and>
     (\<forall>k. hm_get (map_value (map_from (\<lambda>_. Some [(''b'', ''2''), (''a'', ''1'')]) b)) k =
       hm_get (map_value (map_new (Some ''k'') [(''a'', ''1''), (''b'', ''2'')])) k)"
  by (rule map_message_roundtrip [where json = "into_bytes_str ''ab''"
        and fs = "[(''b'', ''2''), (''a'', ''1'')]"])
    (simp_all add: map_wf_def map_new_def valid_str_ascii hm_wf_def hm_get_def)

text \<open>
  Bytes that do not decode as a string map are kept, as lossy text, under the one field
  \<open>data\<close>; decoding a \<open>MapMessage\<close> therefore never fails, and through \<open>from\<close> and
  \<open>from_bytes\<close> alike.
\<close>

theorem map_message_fallback:
  assumes "from_slice (bm_value b) = None"
  shows "map_value (map_from from_slice b) = [(''data'', from_utf8_lossy (bm_value b))] \<and>
    map_from from_slice b = map_from_bytes from_slice (bm_key b) (bm_value b)"
  using assms by (simp add: map_from_eq) (simp add: map_defs parse_fields_def hm_insert_def hm_remove_def)

theorem map_message_fallback_witness:
  "map_value (map_from (\<lambda>_. None) (byte_from_value (into_bytes_str ''not-json''))) =
     [(''data'', ''not-json'')]"
  using map_message_fallback [of "\<lambda>_. None" "byte_from_value (into_bytes_str ''not-json'')",
      THEN conjunct1]
  by (simp add: byte_from_value_def valid_str_ascii)

text \<open>
  The stream fields of a \<open>MapMessage\<close> are its entries, one field each: decoding the values
  restores the map. Every other built-in type gives the single field \<open>data\<close> with its payload.
\<close>

theorem stream_fields_of_messages:
  "(map_wf m \<longrightarrow>
      map (\<lambda>(k, v). (k, from_utf8_lossy v)) (map_into_stream_fields m) = mm_fields m) \<and>
   string_into_stream_fields s = [(''data'', into_bytes_str (string_value s))] \<and>
   byte_into_stream_fields b = [(''data'', byte_value b)]"
  using lossy_fields [of "mm_fields m"]
  by (simp add: map_into_stream_fields_def map_wf_def string_into_stream_fields_def
      byte_into_stream_fields_def default_into_stream_fields_def string_defs byte_defs)

theorem stream_fields_of_messages_witness:
  "map (\<lambda>(k, v). (k, from_utf8_lossy v))
     (map_into_stream_fields (map_from_fields [(''alpha'', ''one''), (''beta'', ''two'')])) =
   [(''alpha'', ''one''), (''beta'', ''two'')]"
  using stream_fields_of_messages [of "map_from_fields [(''alpha'', ''one''), (''beta'', ''two'')]"
      "string_from_value []" "byte_from_value []"]
  by (simp add: map_wf_def map_from_fields_def valid_str_ascii hm_wf_def)

end
