(* ===== verification/Redis_Stream.thy ===== *)
theory Redis_Stream
  imports Redis_Values Stream_Message
begin

text \<open>
  The Redis Stream backend, \<^verbatim>\<open>src/src/redis_impls/stream/mod.rs\<close>: the publisher with its two
  publish paths and its length settings, the snapshot, and the conversion of stream entries. The
  commands sent to the server are part of the result; the server's answers are parameters.
\<close>

section \<open>Publisher\<close>

definition STREAM_LEN_DEFAULT :: nat where
  "STREAM_LEN_DEFAULT = 100000"

datatype stream_maxlen = Approx nat | Equals nat

record stream_publisher =
  sp_host :: string
  sp_max_len :: stream_maxlen
  sp_topic :: string

definition stream_publisher_new :: "string \<Rightarrow> string \<Rightarrow> stream_publisher" where
  "stream_publisher_new host topic =
     \<lparr>sp_host = host, sp_max_len = Approx STREAM_LEN_DEFAULT, sp_topic = topic\<rparr>"

definition set_approx_stream_max_len :: "nat \<Rightarrow> stream_publisher \<Rightarrow> stream_publisher" where
  "set_approx_stream_max_len new_max p = p\<lparr>sp_max_len := Approx new_max\<rparr>"

definition set_exact_stream_max_len :: "nat \<Rightarrow> stream_publisher \<Rightarrow> stream_publisher" where
  "set_exact_stream_max_len new_max p = p\<lparr>sp_max_len := Equals new_max\<rparr>"

text \<open>\<open>xadd_maxlen\<close> with its arguments: key, trimming, entry id, fields.\<close>

datatype xadd = XaddMaxlen string stream_maxlen string "(string \<times> bytes) list"

text \<open>What opening and using a connection gives at the time of the call.\<close>

record ('l, 'c, 'e) conn_env =
  client_open :: "string \<Rightarrow> 'e + 'l"
  connect :: "'l \<Rightarrow> 'e + 'c"
  redis_error_debug :: "'e \<Rightarrow> string"

definition stream_publish ::
  "('l, 'c, 'e) conn_env \<Rightarrow> ('c \<Rightarrow> xadd \<Rightarrow> 'e + unit) \<Rightarrow> ('m \<Rightarrow> byte_message) \<Rightarrow>
     stream_publisher \<Rightarrow> 'm \<Rightarrow> 'c host_map \<Rightarrow> (pubsub_error + unit) \<times> 'c host_map \<times> xadd list" where
  "stream_publish E xadd_maxlen into_bytes p message m =
     (case get_connection (client_open E) (connect E) (sp_host p) m of
        (Inl e, m') \<Rightarrow> (Inl (pubsub_error_of_redis (redis_error_debug E) e), m', [])
      | (Inr conn, m') \<Rightarrow>
          let bs = into_bytes message;
              cmd = XaddMaxlen (sp_topic p) (sp_max_len p) ''*'' [(''data'', byte_value bs)]
          in (map_err (pubsub_error_of_redis (redis_error_debug E)) (xadd_maxlen conn cmd), m', [cmd]))"

definition stream_publish_stream ::
  "('l, 'c, 'e) conn_env \<Rightarrow> ('c \<Rightarrow> xadd \<Rightarrow> 'e + unit) \<Rightarrow> ('m \<Rightarrow> (string \<times> bytes) list) \<Rightarrow>
     stream_publisher \<Rightarrow> 'm \<Rightarrow> 'c host_map \<Rightarrow> (pubsub_error + unit) \<times> 'c host_map \<times> xadd list" where
  "stream_publish_stream E xadd_maxlen into_stream_fields p message m =
     (case get_connection (client_open E) (connect E) (sp_host p) m of
        (Inl e, m') \<Rightarrow> (Inl (pubsub_error_of_redis (redis_error_debug E) e), m', [])
      | (Inr conn, m') \<Rightarrow>
          let fields = into_stream_fields message;
              field_refs = map (\<lambda>(k, v). (k, v)) fields;
              cmd = XaddMaxlen (sp_topic p) (sp_max_len p) ''*'' field_refs
          in (map_err (pubsub_error_of_redis (redis_error_debug E)) (xadd_maxlen conn cmd), m', [cmd]))"

section \<open>Stream entries and snapshot\<close>

text \<open>An entry of a stream reply: its identifier and its field map.\<close>

record 'o stream_id =
  sid_id :: string
  sid_map :: "(string, 'o redis_value) hash_map"

definition stream_entry_to_redis_value :: "'o stream_id \<Rightarrow> 'o redis_value" where
  "stream_entry_to_redis_value entry =
     RMap (map (\<lambda>(key, value). (RSimpleString key, value)) (sid_map entry))"

definition stream_entry_to_byte_message ::
  "('o, 'p) redis_lib \<Rightarrow> to_vec \<Rightarrow> 'o stream_id \<Rightarrow> pubsub_error + byte_message" where
  "stream_entry_to_byte_message L tv entry =
     map_err (pubsub_error_of_parsing L)
       (redis_value_to_byte_message L tv (stream_entry_to_redis_value entry))"

text \<open>
  \<open>xrange_all\<close> and the conversion of its reply into entries are the client library's;
  \<open>convert\<close> is \<open>M::from\<close>.
\<close>

definition redis_snapshot_get ::
  "('l, 'c, 'e) conn_env \<Rightarrow> ('c \<Rightarrow> string \<Rightarrow> 'e + 'o redis_value) \<Rightarrow>
     ('o redis_value \<Rightarrow> 'p + 'o stream_id list) \<Rightarrow> ('o, 'p) redis_lib \<Rightarrow> to_vec \<Rightarrow>
     (byte_message \<Rightarrow> 'm) \<Rightarrow> string \<Rightarrow> string \<Rightarrow> 'c host_map \<Rightarrow>
     (pubsub_error + 'm list) \<times> 'c host_map" where
  "redis_snapshot_get E xrange_all range_reply L tv convert host topic m =
     (case get_connection (client_open E) (connect E) host m of
        (Inl e, m') \<Rightarrow> (Inl (pubsub_error_of_redis (redis_error_debug E) e), m')
      | (Inr conn, m') \<Rightarrow>
          (res_bind (map_err (pubsub_error_of_redis (redis_error_debug E)) (xrange_all conn topic)) (\<lambda>raw_reply.
           res_bind (map_err (pubsub_error_of_parsing L) (range_reply raw_reply)) (\<lambda>ids.
           res_bind (collect_results (map (stream_entry_to_byte_message L tv) ids)) (\<lambda>vals.
           Inr (map convert vals)))), m'))"

section \<open>Lemmas\<close>

text \<open>
  What the client library documents of strings: a simple string converts to itself, a bulk
  string to its text when that is well-formed UTF-8.
\<close>

definition string_conversions :: "('o, 'p) redis_lib \<Rightarrow> bool" where
  "string_conversions L \<longleftrightarrow>
     (\<forall>s. from_redis_value L (RSimpleString s) = Inr s) \<and>
     (\<forall>b. valid_utf8 b \<longrightarrow> from_redis_value L (RBulkString b) = Inr (str_of_bytes b))"

lemma redis_map_loop_bulk:
  assumes "string_conversions L" and "list_all (\<lambda>(k, v). valid_utf8 v) fs"
  shows "redis_map_loop L object (map (\<lambda>(k, v). (RSimpleString k, RBulkString v)) fs) =
    Inr (JObject (fold (\<lambda>(k, v). fmupd k (JString (str_of_bytes v))) fs object))"
  using assms(2)
  by (induction fs arbitrary: object) (use assms(1) in \<open>auto simp: string_conversions_def\<close>)

text \<open>An entry as the server returns it for the given fields: every value a bulk string.\<close>

definition entry_of_fields :: "string \<Rightarrow> (string \<times> bytes) list \<Rightarrow> 'o stream_id" where
  "entry_of_fields i fs = \<lparr>sid_id = i, sid_map = map (\<lambda>(k, v). (k, RBulkString v)) fs\<rparr>"

definition object_of_fields :: "(string \<times> bytes) list \<Rightarrow> json" where
  "object_of_fields fs =
     JObject (fmap_of_list (rev (map (\<lambda>(k, v). (k, JString (str_of_bytes v))) fs)))"

lemma entry_of_fields_json:
  assumes "string_conversions L" and "list_all (\<lambda>(k, v). valid_utf8 v) fs"
  shows "redis_value_to_json_value L (stream_entry_to_redis_value (entry_of_fields i fs)) =
    Inr (object_of_fields fs)"
proof -
  have 1: "fold (\<lambda>(k, v). fmupd k (JString (str_of_bytes v))) fs fmempty =
      fmap_of_list (rev (map (\<lambda>(k, v). (k, JString (str_of_bytes v))) fs))"
    unfolding fold_fmupd [symmetric] by (simp add: fold_map case_prod_unfold comp_def)
  have 2: "stream_entry_to_redis_value (entry_of_fields i fs) =
      RMap (map (\<lambda>(k, v). (RSimpleString k, RBulkString v)) fs)"
    by (simp add: stream_entry_to_redis_value_def entry_of_fields_def case_prod_unfold comp_def)
  show ?thesis
    by (simp add: 2 redis_map_loop_bulk [OF assms] 1 object_of_fields_def)
qed

lemma entry_of_fields_message:
  assumes "string_conversions L" and "list_all (\<lambda>(k, v). valid_utf8 v) fs"
    and "tv (object_of_fields fs) = Inr json"
  shows "stream_entry_to_byte_message L tv (entry_of_fields i fs) = Inr (byte_from_value json)"
  by (simp add: stream_entry_to_byte_message_def redis_value_to_byte_message_def
      redis_value_to_json_bytes_def entry_of_fields_json [OF assms(1,2)] json_value_to_bytes_def assms(3))

section \<open>Properties\<close>

text \<open>
  Publishing writes one entry to the configured topic with the configured trimming: the
  single field \<open>data\<close> with the payload for \<open>publish\<close> (the key is not sent), all fields of the
  message in order for \<open>publish_stream\<close>. It issues no command when no connection can be had,
  and reports the server's error.
\<close>

theorem stream_publish_commands:
  assumes "get_connection (client_open E) (connect E) (sp_host p) m = (c, m')"
  shows "stream_publish E xadd_maxlen into_bytes p msg m =
      (case c of
         Inl e \<Rightarrow> (Inl (from_debug (redis_error_debug E e)), m', [])
       | Inr conn \<Rightarrow>
           let cmd = XaddMaxlen (sp_topic p) (sp_max_len p) ''*'' [(''data'', bm_value (into_bytes msg))]
           in (map_err (\<lambda>e. from_debug (redis_error_debug E e)) (xadd_maxlen conn cmd), m', [cmd])) \<and>
    stream_publish_stream E xadd_maxlen into_fields p msg m =
      (case c of
         Inl e \<Rightarrow> (Inl (from_debug (redis_error_debug E e)), m', [])
       | Inr conn \<Rightarrow>
           let cmd = XaddMaxlen (sp_topic p) (sp_max_len p) ''*'' (into_fields msg)
           in (map_err (\<lambda>e. from_debug (redis_error_debug E e)) (xadd_maxlen conn cmd), m', [cmd]))"
  using assms
  by (simp add: stream_publish_def stream_publish_stream_def byte_value_def Let_def
      pubsub_error_of_redis_def [abs_def] split: sum.splits)

theorem stream_publish_commands_witness:
  "stream_publish \<lparr>client_open = (\<lambda>h. Inr h), connect = (\<lambda>h. Inr (1 :: nat)), redis_error_debug = id\<rparr>
     (\<lambda>_ _. Inr ()) string_into_bytes
     (set_exact_stream_max_len 250 (stream_publisher_new ''h'' ''t'')) (string_new (Some ''k'') ''v'') [] =
   (Inr (), [(''h'', 1)], [XaddMaxlen ''t'' (Equals 250) ''*'' [(''data'', into_bytes_str ''v'')]])"
proof -
  let ?E = "\<lparr>client_open = (\<lambda>h. Inr h), connect = (\<lambda>h. Inr (1 :: nat)), redis_error_debug = id\<rparr>
    :: (string, nat, string) conn_env"
  have "get_connection (client_open ?E) (connect ?E)
      (sp_host (set_exact_stream_max_len 250 (stream_publisher_new ''h'' ''t''))) [] =
      (Inr 1, [(''h'', 1)])"
    by (simp add: get_connection_eq_write get_connection_write_eq set_exact_stream_max_len_def
        stream_publisher_new_def hm_insert_def hm_remove_def)
  from stream_publish_commands [OF this, of "\<lambda>_ _. Inr ()" string_into_bytes
      "string_new (Some ''k'') ''v''" string_into_stream_fields]
  show ?thesis
    by (simp add: set_exact_stream_max_len_def stream_publisher_new_def string_defs Let_def)
qed

text \<open>
  A snapshot is all or nothing and keeps the order of the stream: it returns one message
  per retained entry exactly when every entry converts, and else the error of the first entry
  that does not.
\<close>

theorem snapshot_all_or_first_error:
  assumes "get_connection (client_open E) (connect E) host m = (Inr conn, m')"
    and "xrange_all conn topic = Inr raw" and "range_reply raw = Inr ids"
  shows "redis_snapshot_get E xrange_all range_reply L tv convert host topic m =
    (case collect_results (map (stream_entry_to_byte_message L tv) ids) of
       Inl e \<Rightarrow> Inl e | Inr bs \<Rightarrow> Inr (map convert bs), m') \<and>
    (fst (redis_snapshot_get E xrange_all range_reply L tv convert host topic m) = Inr ms \<longleftrightarrow>
      (\<exists>bs. map (stream_entry_to_byte_message L tv) ids = map Inr bs \<and> ms = map convert bs))"
  using assms
  by (auto simp: redis_snapshot_get_def res_bind_eq_Inr collect_results_Inr_iff split: sum.splits)

theorem snapshot_all_or_first_error_witness:
  "fst (redis_snapshot_get \<lparr>client_open = (\<lambda>h. Inr h), connect = (\<lambda>h. Inr ()), redis_error_debug = id\<rparr>
      (\<lambda>_ _. Inr (RArray [])) (\<lambda>_. Inr [entry_of_fields ''1-0'' [(''data'', [])]])
      (\<lparr>from_redis_value = (\<lambda>_. Inr ''x''), parsing_error = id, parsing_error_debug = id\<rparr> :: (unit, string) redis_lib)
      (\<lambda>_. Inr [1]) byte_from ''h'' ''t'' [] :: (pubsub_error + byte_message list) \<times> unit host_map) =
    Inr [byte_from_value [1]]"
proof -
  let ?E = "\<lparr>client_open = (\<lambda>h. Inr h), connect = (\<lambda>h. Inr ()), redis_error_debug = id\<rparr>
    :: (string, unit, string) conn_env"
  have "get_connection (client_open ?E) (connect ?E) ''h'' [] = (Inr (), [(''h'', ())])"
    by (simp add: get_connection_eq_write get_connection_write_eq hm_insert_def hm_remove_def)
  from snapshot_all_or_first_error [OF this, where xrange_all = "\<lambda>_ _. Inr (RArray [])"
      and topic = "''t''" and raw = "RArray []" and range_reply = "\<lambda>_. Inr [entry_of_fields ''1-0'' [(''data'', [])]]"
      and ids = "[entry_of_fields ''1-0'' [(''data'', [])]]" and tv = "\<lambda>_. Inr [1]" and convert = byte_from
      and L = "\<lparr>from_redis_value = (\<lambda>_. Inr ''x''), parsing_error = id, parsing_error_debug = id\<rparr> :: (unit, string) redis_lib"
      and ms = "[byte_from_value [1]]", THEN conjunct1]
  show ?thesis
    by (simp add: byte_from_def stream_entry_to_byte_message_def redis_value_to_byte_message_def
        redis_value_to_json_bytes_def stream_entry_to_redis_value_def entry_of_fields_def
        json_value_to_bytes_def)
qed

end
