(* ===== verification/Kafka.thy ===== *)
theory Kafka
  imports Kafka_Cache
begin

text \<open>
  The Kafka publisher and snapshot, \<^verbatim>\<open>src/src/kafka_impl/mod.rs\<close>. The Kafka client (producers,
  consumers, metadata, watermarks, the message stream) is a parameter; its answers during the
  snapshot are the list of events the loop sees.
\<close>

section \<open>Client library\<close>

text \<open>
  Errors of the client: their \<open>Debug\<close> rendering, and the two the source makes,
  \<open>MetadataFetch(InvalidPartitions)\<close> and \<open>MessageConsumption(PartitionEOF)\<close>. \<open>elapsed_debug\<close> is
  the \<open>Debug\<close> rendering of a timeout's \<open>Elapsed\<close>.
\<close>

record 'e kafka_lib =
  kafka_error_debug :: "'e \<Rightarrow> string"
  metadata_fetch_invalid_partitions :: 'e
  message_consumption_partition_eof :: 'e
  elapsed_debug :: string

record ('c, 'e) consumer_env =
  create_consumer :: "(string \<times> string) list \<Rightarrow> 'e + 'c"
  subscribe :: "'c \<Rightarrow> string list \<Rightarrow> 'e + unit"
  fetch_metadata :: "'c \<Rightarrow> string option \<Rightarrow> duration \<Rightarrow> 'e + int list list"
  fetch_watermarks :: "'c \<Rightarrow> string \<Rightarrow> int \<Rightarrow> duration \<Rightarrow> 'e + int \<times> int"

definition pubsub_error_of_kafka :: "'e kafka_lib \<Rightarrow> 'e \<Rightarrow> pubsub_error" where
  "pubsub_error_of_kafka K e = from_debug (kafka_error_debug K e)"

text \<open>A consumed message.\<close>

record kafka_msg =
  km_partition :: int
  km_offset :: int
  km_key :: "bytes option"
  km_payload :: "bytes option"

text \<open>\<open>env_get\<close> reads an environment variable with a default.\<close>

definition get_kafka_timeout_val :: "(string \<Rightarrow> u64 \<Rightarrow> u64) \<Rightarrow> duration" where
  "get_kafka_timeout_val env_get =
     (let secs = env_get ''KAFKA_CONNECTION_SECONDS'' 1 in from_secs (unat secs))"

definition convert_to_message ::
  "(bytes option \<Rightarrow> bytes \<Rightarrow> 'm) \<Rightarrow> kafka_msg \<Rightarrow> pubsub_error + 'm" where
  "convert_to_message from_bytes incoming =
     (case km_payload incoming of
        None \<Rightarrow> Inl pubsub_error_default
      | Some v \<Rightarrow> Inr (from_bytes (km_key incoming) v))"

section \<open>Publisher\<close>

record kafka_publisher =
  kp_host :: string
  kp_topic :: string

definition kafka_publisher_new :: "string \<Rightarrow> string \<Rightarrow> kafka_publisher" where
  "kafka_publisher_new host topic = \<lparr>kp_host = host, kp_topic = topic\<rparr>"

record future_record =
  fr_topic :: string
  fr_payload :: bytes
  fr_key :: "bytes option"

definition kafka_publish ::
  "'e kafka_lib \<Rightarrow> (string \<Rightarrow> u64 \<Rightarrow> u64) \<Rightarrow> (string \<Rightarrow> pubsub_error + 'p) \<Rightarrow> duration \<Rightarrow>
     ('p \<Rightarrow> future_record \<Rightarrow> duration \<Rightarrow> 'e + unit) \<Rightarrow> ('m \<Rightarrow> byte_message) \<Rightarrow> kafka_publisher \<Rightarrow> 'm \<Rightarrow>
     'p producers \<Rightarrow> (pubsub_error + unit) \<times> 'p producers \<times> future_record list" where
  "kafka_publish K env_get create elapsed send into_bytes p message s =
     (case get_kafka_producer create elapsed (kp_host p) s of
        (Inl e, s') \<Rightarrow> (Inl e, s', [])
      | (Inr pr, s') \<Rightarrow>
          let bs = into_bytes message;
              record0 = \<lparr>fr_topic = kp_topic p, fr_payload = bm_value bs, fr_key = None\<rparr>;
              record1 = (case bm_key bs of Some k \<Rightarrow> record0\<lparr>fr_key := Some k\<rparr> | None \<Rightarrow> record0)
          in (case send pr record1 (get_kafka_timeout_val env_get) of
                Inr _ \<Rightarrow> Inr ()
              | Inl err \<Rightarrow> Inl (pubsub_error_of_kafka K err), s', [record1]))"

section \<open>Snapshot\<close>

definition configure_consumer ::
  "'e kafka_lib \<Rightarrow> ('c, 'e) consumer_env \<Rightarrow> string \<Rightarrow> string \<Rightarrow> string \<Rightarrow> pubsub_error + 'c" where
  "configure_consumer K E uuid host topic =
     res_bind (map_err (pubsub_error_of_kafka K)
       (create_consumer E [(''bootstrap.servers'', host), (''group.id'', uuid), (''auto.offset.reset'', ''earliest'')]))
     (\<lambda>consumer.
     res_bind (map_err (pubsub_error_of_kafka K) (subscribe E consumer [topic])) (\<lambda>_. Inr consumer))"

fun max_offsets_loop ::
  "('c, 'e) consumer_env \<Rightarrow> 'c \<Rightarrow> string \<Rightarrow> duration \<Rightarrow> (int, int) hash_map \<Rightarrow> int list \<Rightarrow> 'e + (int, int) hash_map" where
  "max_offsets_loop E consumer topic timeout offsets [] = Inr offsets"
| "max_offsets_loop E consumer topic timeout offsets (part # ps) =
     res_bind (fetch_watermarks E consumer topic part timeout) (\<lambda>(_, high).
       max_offsets_loop E consumer topic timeout
         (if high > 0 then hm_insert offsets part (high - 1) else offsets) ps)"

definition determine_max_offsets ::
  "'e kafka_lib \<Rightarrow> ('c, 'e) consumer_env \<Rightarrow> (string \<Rightarrow> u64 \<Rightarrow> u64) \<Rightarrow> 'c \<Rightarrow> string \<Rightarrow> 'e + (int, int) hash_map" where
  "determine_max_offsets K E env_get consumer topic =
     (let timeout = get_kafka_timeout_val env_get in
      res_bind (fetch_metadata E consumer (Some topic) timeout) (\<lambda>topics.
        case topics of
          partitions # _ \<Rightarrow> max_offsets_loop E consumer topic timeout [] partitions
        | [] \<Rightarrow> Inl (metadata_fetch_invalid_partitions K)))"

definition SNAPSHOT_MESSAGE_TIMEOUT :: duration where
  "SNAPSHOT_MESSAGE_TIMEOUT = from_secs 5"

text \<open>
  What \<open>timeout(SNAPSHOT_MESSAGE_TIMEOUT, stream.next())\<close> gives: the timeout, the end of the
  stream, an error or a message.
\<close>

datatype 'e snapshot_event = TimedOut | StreamEnded | ConsumeError 'e | Consumed kafka_msg

text \<open>The result is \<open>None\<close> while the loop waits for an event the list does not have.\<close>

fun snapshot_loop ::
  "'e kafka_lib \<Rightarrow> (bytes option \<Rightarrow> bytes \<Rightarrow> 'm) \<Rightarrow> (int, int) hash_map \<Rightarrow> 'm list \<Rightarrow>
     'e snapshot_event list \<Rightarrow> (pubsub_error + 'm list) option" where
  "snapshot_loop K from_bytes offsets data evs =
     (if offsets = [] then Some (Inr data)
      else
        case evs of
          [] \<Rightarrow> None
        | TimedOut # _ \<Rightarrow> Some (Inl (from_debug (elapsed_debug K)))
        | StreamEnded # _ \<Rightarrow> Some (Inl (pubsub_error_of_kafka K (message_consumption_partition_eof K)))
        | ConsumeError e # _ \<Rightarrow> Some (Inl (pubsub_error_of_kafka K e))
        | Consumed msg # evs' \<Rightarrow>
            (let offsets' = retain (\<lambda>k v. if k \<noteq> km_partition msg \<or> v > km_offset msg then Some v else None) offsets
             in case convert_to_message from_bytes msg of
                  Inl e \<Rightarrow> Some (Inl e)
                | Inr m \<Rightarrow> snapshot_loop K from_bytes offsets' (data @ [m]) evs'))"

declare snapshot_loop.simps [simp del]

definition kafka_snapshot_get ::
  "'e kafka_lib \<Rightarrow> ('c, 'e) consumer_env \<Rightarrow> (string \<Rightarrow> u64 \<Rightarrow> u64) \<Rightarrow> string \<Rightarrow>
     (bytes option \<Rightarrow> bytes \<Rightarrow> 'm) \<Rightarrow> string \<Rightarrow> string \<Rightarrow> 'e snapshot_event list \<Rightarrow>
     (pubsub_error + 'm list) option" where
  "kafka_snapshot_get K E env_get uuid from_bytes host topic evs =
     (case configure_consumer K E uuid host topic of
        Inl e \<Rightarrow> Some (Inl e)
      | Inr consumer \<Rightarrow>
          (case determine_max_offsets K E env_get consumer topic of
             Inl e \<Rightarrow> Some (Inl (pubsub_error_of_kafka K e))
           | Inr offsets \<Rightarrow> snapshot_loop K from_bytes offsets [] evs))"

section \<open>Lemmas\<close>

text \<open>The bounds still open after some messages, and when none is.\<close>

definition covers :: "kafka_msg list \<Rightarrow> int \<times> int \<Rightarrow> bool" where
  "covers ms pv \<longleftrightarrow> (\<exists>m \<in> set ms. km_partition m = fst pv \<and> snd pv \<le> km_offset m)"

definition remaining :: "(int, int) hash_map \<Rightarrow> kafka_msg list \<Rightarrow> (int, int) hash_map" where
  "remaining offsets ms = filter (\<lambda>pv. \<not> covers ms pv) offsets"

lemma remaining_Nil [simp]: "remaining offsets [] = offsets"
  by (simp add: remaining_def covers_def)

lemma retain_step:
  "retain (\<lambda>k v. if k \<noteq> km_partition msg \<or> v > km_offset msg then Some v else None) offsets =
     remaining offsets [msg]"
proof -
  have "retain (\<lambda>k v. if P k v then Some v else None) m = filter (\<lambda>(k, v). P k v) m" for P and m :: "(int, int) hash_map"
    by (induction m) auto
  from this [of "\<lambda>k v. k \<noteq> km_partition msg \<or> v > km_offset msg" offsets] show ?thesis
    by (auto simp: remaining_def covers_def not_le case_prod_unfold intro!: filter_cong)
qed

lemma remaining_Cons: "remaining (remaining offsets [m]) ms = remaining offsets (m # ms)"
  by (auto simp: remaining_def covers_def intro!: filter_cong)

lemma remaining_mono: "set ms \<subseteq> set ms' \<Longrightarrow> remaining offsets ms = [] \<Longrightarrow> remaining offsets ms' = []"
  unfolding remaining_def covers_def filter_empty_conv by blast

definition conv :: "(bytes option \<Rightarrow> bytes \<Rightarrow> 'm) \<Rightarrow> kafka_msg \<Rightarrow> 'm" where
  "conv from_bytes m = from_bytes (km_key m) (the (km_payload m))"

lemma snapshot_loop_Consumed:
  "offsets \<noteq> [] \<Longrightarrow> km_payload m \<noteq> None \<Longrightarrow>
     snapshot_loop K fb offsets data (Consumed m # evs) =
     snapshot_loop K fb (remaining offsets [m]) (data @ [conv fb m]) evs"
  unfolding snapshot_loop.simps [of K fb offsets data "Consumed m # evs"] retain_step
  by (auto simp: convert_to_message_def conv_def)

lemma snapshot_loop_messages:
  assumes "\<forall>n < length ms. remaining offsets (take n ms) \<noteq> []"
    and "\<forall>m \<in> set ms. km_payload m \<noteq> None"
  shows "snapshot_loop K fb offsets data (map Consumed ms @ rest) =
    snapshot_loop K fb (remaining offsets ms) (data @ map (conv fb) ms) rest"
  using assms
proof (induction ms arbitrary: offsets data)
  case Nil
  then show ?case by simp
next
  case (Cons m ms)
  have ne: "offsets \<noteq> []" using Cons.prems(1) by force
  have "\<forall>n < length ms. remaining (remaining offsets [m]) (take n ms) \<noteq> []"
    using Cons.prems(1) by (auto simp: remaining_Cons dest: spec [where x = "Suc _"])
  note ih = Cons.IH [OF this, of "data @ [conv fb m]"]
  show ?case
    using ne ih Cons.prems(2) by (simp add: snapshot_loop_Consumed remaining_Cons)
qed

text \<open>The shortest prefix after which no bound is open.\<close>

lemma shortest_prefix:
  assumes "remaining offsets ms = []"
  obtains n where "n \<le> length ms" and "remaining offsets (take n ms) = []"
    and "\<forall>k < n. remaining offsets (take k ms) \<noteq> []"
proof -
  let ?P = "\<lambda>n. remaining offsets (take n ms) = []"
  have "?P (length ms)" using assms by simp
  then have "?P (LEAST n. ?P n)" and "(LEAST n. ?P n) \<le> length ms"
    by (rule LeastI, rule Least_le)
  then show ?thesis
    using that not_less_Least by blast
qed

lemma max_offsets_loop_get:
  "max_offsets_loop E c topic t offsets ps = Inr r \<Longrightarrow>
     hm_get r p =
     (if p \<in> set ps
      then case fetch_watermarks E c topic p t of
             Inr (low, high) \<Rightarrow> if high > 0 then Some (high - 1) else hm_get offsets p
           | Inl e \<Rightarrow> None
      else hm_get offsets p)"
proof (induction ps arbitrary: offsets)
  case (Cons q ps)
  from Cons.prems obtain low high where w: "fetch_watermarks E c topic q t = Inr (low, high)"
    by (auto simp: res_bind_eq_Inr)
  from Cons.prems w Cons.IH [of "if high > 0 then hm_insert offsets q (high - 1) else offsets"]
  show ?case
    by (cases "p = q") (auto split: sum.splits)
qed simp

lemma max_offsets_loop_wf:
  "hm_wf offsets \<Longrightarrow> max_offsets_loop E c topic t offsets ps = Inr r \<Longrightarrow> hm_wf r"
  by (induction ps arbitrary: offsets)
    (auto simp: res_bind_eq_Inr split: if_splits, blast intro: hm_wf_insert)

lemma max_offsets_loop_error:
  "max_offsets_loop E c topic t offsets ps = Inl e \<longleftrightarrow>
     collect_results (map (\<lambda>p. fetch_watermarks E c topic p t) ps) = Inl e"
  by (induction ps arbitrary: offsets) (auto simp: res_bind_eq_Inl)

text \<open>The loop waits exactly as long as only messages came and a bound is open.\<close>

lemma snapshot_loop_None:
  "snapshot_loop K fb offsets data evs = None \<longleftrightarrow>
     (\<exists>ms. evs = map Consumed ms \<and> (\<forall>m \<in> set ms. km_payload m \<noteq> None) \<and> remaining offsets ms \<noteq> [])"
proof (induction evs arbitrary: offsets data)
  case Nil
  then show ?case by (simp add: snapshot_loop.simps)
next
  case (Cons ev evs)
  show ?case
  proof (cases "offsets = []")
    case True
    then show ?thesis by (simp add: snapshot_loop.simps remaining_def)
  next
    case False
    show ?thesis
    proof (cases ev)
      case (Consumed m)
      show ?thesis
      proof (cases "km_payload m")
        case None
        then have "snapshot_loop K fb offsets data (ev # evs) \<noteq> None"
          using False Consumed by (simp add: snapshot_loop.simps convert_to_message_def)
        with None Consumed show ?thesis by (auto simp: Cons_eq_map_conv)
      next
        case (Some b)
        then have "snapshot_loop K fb offsets data (ev # evs) =
            snapshot_loop K fb (remaining offsets [m]) (data @ [conv fb m]) evs"
          using False Consumed by (simp add: snapshot_loop_Consumed)
        moreover have "(\<exists>ns. ev # evs = map Consumed ns \<and> Q ns) \<longleftrightarrow> (\<exists>ms. evs = map Consumed ms \<and> Q (m # ms))" for Q
          by (simp add: Consumed Cons_eq_map_conv) blast
        ultimately show ?thesis using Some by (simp add: Cons.IH remaining_Cons)
      qed
    qed (use False in \<open>auto simp: snapshot_loop.simps\<close>)
  qed
qed

text \<open>The loop returns at the shortest prefix of the messages that reaches every bound.\<close>

lemma snapshot_reaches_bounds:
  assumes "configure_consumer K E uuid host topic = Inr consumer"
    and "determine_max_offsets K E env_get consumer topic = Inr offsets"
    and "\<forall>m \<in> set delivered. km_payload m \<noteq> None"
    and "remaining offsets delivered = []"
    and "\<forall>p. sorted_wrt (<) (map km_offset (filter (\<lambda>m. km_partition m = p) delivered))"
  shows "\<exists>n \<le> length delivered.
    kafka_snapshot_get K E env_get uuid from_bytes host topic (map Consumed delivered @ rest) =
      Some (Inr (map (conv from_bytes) (take n delivered))) \<and>
    (\<forall>k < n. remaining offsets (take k delivered) \<noteq> []) \<and>
    (\<forall>m \<in> set delivered. \<forall>v. (km_partition m, v) \<in> set offsets \<longrightarrow> km_offset m \<le> v \<longrightarrow>
       m \<in> set (take n delivered))"
proof -
  obtain n where n: "n \<le> length delivered" "remaining offsets (take n delivered) = []"
    "\<forall>k < n. remaining offsets (take k delivered) \<noteq> []"
    using shortest_prefix [OF assms(4)] by blast
  have "snapshot_loop K from_bytes offsets [] (map Consumed (take n delivered) @ (map Consumed (drop n delivered) @ rest)) =
      Some (Inr (map (conv from_bytes) (take n delivered)))"
    by (subst snapshot_loop_messages)
      (use n assms(3) in \<open>auto simp: min_def dest: in_set_takeD, simp add: snapshot_loop.simps\<close>)
  then have get: "kafka_snapshot_get K E env_get uuid from_bytes host topic (map Consumed delivered @ rest) =
      Some (Inr (map (conv from_bytes) (take n delivered)))"
    by (simp add: kafka_snapshot_get_def assms(1,2) flip: append_assoc map_append)
  have "m \<in> set (take n delivered)"
    if m: "m \<in> set delivered" "(km_partition m, v) \<in> set offsets" "km_offset m \<le> v" for m v
  proof (rule ccontr)
    assume "m \<notin> set (take n delivered)"
    then have late: "m \<in> set (drop n delivered)"
      using m(1) by (metis Un_iff append_take_drop_id set_append)
    obtain x where x: "x \<in> set (take n delivered)" "km_partition x = km_partition m" "v \<le> km_offset x"
      using n(2) m(2) by (force simp: remaining_def covers_def filter_empty_conv)
    let ?f = "filter (\<lambda>y. km_partition y = km_partition m)"
    have "sorted_wrt (<) (map km_offset (?f (take n delivered) @ ?f (drop n delivered)))"
      using assms(5) by (metis append_take_drop_id filter_append)
    then have "km_offset x < km_offset m"
      using x late by (auto simp: sorted_wrt_append)
    with x m(3) show False by simp
  qed
  with n get show ?thesis by blast
qed

section \<open>Properties\<close>

text \<open>
  Publishing sends one record to the configured topic with the message's payload and its key
  if it has one, none when there is no producer, and reports the producer's or the broker's error.
\<close>

theorem kafka_publish_record:
  assumes "get_kafka_producer create elapsed (kp_host p) s = (r, s')"
  shows "kafka_publish K env_get create elapsed send into_bytes p message s =
    (case r of
       Inl e \<Rightarrow> (Inl e, s', [])
     | Inr pr \<Rightarrow>
         let fr = \<lparr>fr_topic = kp_topic p, fr_payload = bm_value (into_bytes message),
                   fr_key = bm_key (into_bytes message)\<rparr>
         in (map_err (\<lambda>e. from_debug (kafka_error_debug K e)) (send pr fr (get_kafka_timeout_val env_get)), s', [fr]))"
  using assms
  by (auto simp: kafka_publish_def pubsub_error_of_kafka_def Let_def split: sum.splits option.splits)

theorem kafka_publish_record_witness:
  "snd (snd (kafka_publish \<lparr>kafka_error_debug = id, metadata_fetch_invalid_partitions = ''m'',
       message_consumption_partition_eof = ''c'', elapsed_debug = ''e''\<rparr> (\<lambda>_ d. d) (\<lambda>_. Inr (1 :: nat)) 0
       (\<lambda>_ _ _. Inr ()) string_into_bytes (kafka_publisher_new ''h'' ''t'') (string_new (Some ''k'') ''v'') producers_init)) =
   [\<lparr>fr_topic = ''t'', fr_payload = into_bytes_str ''v'', fr_key = Some (into_bytes_str ''k'')\<rparr>]"
proof -
  have "get_kafka_producer (\<lambda>_. Inr (1 :: nat)) 0 (kp_host (kafka_publisher_new ''h'' ''t'')) producers_init =
      (Inr 1, snd (get_kafka_producer (\<lambda>_. Inr (1 :: nat)) 0 (kp_host (kafka_publisher_new ''h'' ''t'')) producers_init))"
    by (simp add: get_kafka_producer_eq_write get_producer_write_def producers_init_def Let_def)
  then show ?thesis
    by (subst kafka_publish_record) (assumption, simp add: string_defs kafka_publisher_new_def Let_def)
qed

text \<open>
  The bounds of a snapshot: every partition of the topic with a positive high watermark is
  bound by the offset before it, no other partition is bound, and the first watermark that cannot
  be fetched is the error. The low watermark plays no part.
\<close>

theorem max_offsets_bounds:
  assumes "fetch_metadata E consumer (Some topic) (get_kafka_timeout_val env_get) = Inr (ps # others)"
  shows "(determine_max_offsets K E env_get consumer topic = Inl e \<longleftrightarrow>
      collect_results (map (\<lambda>p. fetch_watermarks E consumer topic p (get_kafka_timeout_val env_get)) ps) = Inl e) \<and>
    (determine_max_offsets K E env_get consumer topic = Inr offsets \<longrightarrow>
      hm_wf offsets \<and>
      (hm_get offsets p = Some v \<longleftrightarrow>
        p \<in> set ps \<and> 0 \<le> v \<and>
        (\<exists>low. fetch_watermarks E consumer topic p (get_kafka_timeout_val env_get) = Inr (low, v + 1))))"
proof -
  have d: "determine_max_offsets K E env_get consumer topic =
      max_offsets_loop E consumer topic (get_kafka_timeout_val env_get) [] ps"
    using assms by (simp add: determine_max_offsets_def Let_def)
  show ?thesis
    unfolding d
    by (auto simp: max_offsets_loop_error max_offsets_loop_get split: sum.splits if_splits
        intro: max_offsets_loop_wf [of "[]"])
qed

text \<open>A broker with two partitions, of which the second has lost all its records, for the witnesses.\<close>

definition example_kafka :: "string kafka_lib" where
  "example_kafka = \<lparr>kafka_error_debug = id, metadata_fetch_invalid_partitions = ''m'',
     message_consumption_partition_eof = ''c'', elapsed_debug = ''Elapsed(())''\<rparr>"

definition example_broker :: "(int \<times> int) list \<Rightarrow> (unit, string) consumer_env" where
  "example_broker ws = \<lparr>create_consumer = (\<lambda>_. Inr ()), subscribe = (\<lambda>_ _. Inr ()),
     fetch_metadata = (\<lambda>_ _ _. Inr [map int [0..<length ws]]),
     fetch_watermarks = (\<lambda>_ _ p _. Inr (ws ! nat p))\<rparr>"

definition example_msg :: "int \<Rightarrow> int \<Rightarrow> kafka_msg" where
  "example_msg p n = \<lparr>km_partition = p, km_offset = n, km_key = None, km_payload = Some [of_int n]\<rparr>"

lemma example_configure: "configure_consumer example_kafka (example_broker ws) u h t = Inr ()"
  by (simp add: configure_consumer_def example_broker_def)

lemma example_offsets:
  "determine_max_offsets example_kafka (example_broker [(0, 2), (4, 5)]) (\<lambda>_ d. d) () t = Inr [(1, 4), (0, 1)]"
  by (simp add: determine_max_offsets_def example_broker_def get_kafka_timeout_val_def Let_def
      hm_insert_def hm_remove_def eval_nat_numeral)

theorem max_offsets_bounds_witness:
  "determine_max_offsets example_kafka (example_broker [(0, 2), (4, 5)]) (\<lambda>_ d. d) () ''t'' = Inr [(1, 4), (0, 1)] \<and>
   hm_get [(1, 4), (0, 1)] (1 :: int) = Some (4 :: int)"
proof -
  have "fetch_metadata (example_broker [(0, 2), (4, 5)]) () (Some ''t'') (get_kafka_timeout_val (\<lambda>_ d. d)) =
      Inr ([0, 1] # [])"
    by (simp add: example_broker_def eval_nat_numeral)
  from max_offsets_bounds [OF this, THEN conjunct2, THEN mp, OF example_offsets, of 1 4] show ?thesis
    by (simp add: example_offsets) (simp add: example_broker_def)
qed

text \<open>
  If the messages delivered reach the bound of every partition, the snapshot returns, and it
  returns the shortest prefix of them that does so; within each partition delivered in offset
  order, every delivered message up to the bound is in the result.
\<close>

theorem kafka_snapshot_complete:
  assumes "configure_consumer K E uuid host topic = Inr consumer"
    and "determine_max_offsets K E env_get consumer topic = Inr offsets"
    and "\<forall>m \<in> set delivered. km_payload m \<noteq> None"
    and "remaining offsets delivered = []"
    and "\<forall>p. sorted_wrt (<) (map km_offset (filter (\<lambda>m. km_partition m = p) delivered))"
  shows "\<exists>n \<le> length delivered.
    kafka_snapshot_get K E env_get uuid from_bytes host topic (map Consumed delivered @ rest) =
      Some (Inr (map (conv from_bytes) (take n delivered))) \<and>
    (\<forall>k < n. remaining offsets (take k delivered) \<noteq> []) \<and>
    (\<forall>m \<in> set delivered. \<forall>v. (km_partition m, v) \<in> set offsets \<longrightarrow> km_offset m \<le> v \<longrightarrow>
       m \<in> set (take n delivered))"
  by (rule snapshot_reaches_bounds [OF assms])

theorem kafka_snapshot_complete_witness:
  "\<exists>n \<le> length [example_msg 0 0, example_msg 1 4, example_msg 0 1, example_msg 0 2].
    kafka_snapshot_get example_kafka (example_broker [(0, 2), (4, 5)]) (\<lambda>_ d. d) ''u'' byte_from_bytes ''h'' ''t''
      (map Consumed [example_msg 0 0, example_msg 1 4, example_msg 0 1, example_msg 0 2] @ [TimedOut]) =
    Some (Inr (map (conv byte_from_bytes) (take n [example_msg 0 0, example_msg 1 4, example_msg 0 1, example_msg 0 2])))"
proof -
  let ?ms = "[example_msg 0 0, example_msg 1 4, example_msg 0 1, example_msg 0 2]"
  have "\<forall>m \<in> set ?ms. km_payload m \<noteq> None"
    and "remaining [(1, 4), (0, 1)] ?ms = []"
    and "\<forall>p. sorted_wrt (<) (map km_offset (filter (\<lambda>m. km_partition m = p) ?ms))"
    by (auto simp: example_msg_def remaining_def covers_def)
  from kafka_snapshot_complete [OF example_configure example_offsets this, where uuid = "''u''" and host = "''h''"
      and from_bytes = byte_from_bytes and rest = "[TimedOut]" and topic = "''t''"]
  show ?thesis by blast
qed

text \<open>
  C31: A snapshot that cannot reach a bound does not return what it has: with messages that leave
  some bound open, five seconds of silence, the end of the stream or a consumer error is the
  result, and so is a message without payload. A bound is open for ever on a partition whose
  records below the high watermark are gone, since no message reaches it.
\<close>

theorem kafka_snapshot_errors:
  assumes "configure_consumer K E uuid host topic = Inr consumer"
    and "determine_max_offsets K E env_get consumer topic = Inr offsets"
    and "\<forall>m \<in> set ms. km_payload m \<noteq> None"
    and "(p, v) \<in> set offsets" and "\<forall>m \<in> set ms. km_partition m = p \<longrightarrow> km_offset m < v"
  shows "kafka_snapshot_get K E env_get uuid from_bytes host topic (map Consumed ms @ ev # rest) =
    (case ev of
       TimedOut \<Rightarrow> Some (Inl (from_debug (elapsed_debug K)))
     | StreamEnded \<Rightarrow> Some (Inl (from_debug (kafka_error_debug K (message_consumption_partition_eof K))))
     | ConsumeError e \<Rightarrow> Some (Inl (from_debug (kafka_error_debug K e)))
     | Consumed m \<Rightarrow>
         if km_payload m = None then Some (Inl pubsub_error_default)
         else snapshot_loop K from_bytes (remaining offsets (ms @ [m])) (map (conv from_bytes) (ms @ [m])) rest)"
proof -
  have open_bound: "remaining offsets (take n ms) \<noteq> []" for n
    using assms(4,5) by (force simp: remaining_def covers_def filter_empty_conv dest: in_set_takeD)
  then have loop: "snapshot_loop K from_bytes offsets [] (map Consumed ms @ x # rest) =
      snapshot_loop K from_bytes (remaining offsets ms) (map (conv from_bytes) ms) (x # rest)" for x
    by (subst snapshot_loop_messages) (simp_all add: assms(3))
  have ne: "remaining offsets ms \<noteq> []"
    using open_bound [of "length ms"] by simp
  have again: "remaining (remaining offsets ms) [m] = remaining offsets (ms @ [m])" for m
    by (auto simp: remaining_def covers_def intro!: filter_cong)
  show ?thesis
  proof (cases ev)
    case (Consumed m)
    show ?thesis
    proof (cases "km_payload m")
      case None
      with Consumed ne show ?thesis
        by (simp add: kafka_snapshot_get_def assms(1,2) loop
            snapshot_loop.simps [of _ _ _ _ "_ # _"] convert_to_message_def Let_def)
    next
      case (Some x)
      with Consumed ne show ?thesis
        by (simp add: kafka_snapshot_get_def assms(1,2) loop snapshot_loop_Consumed again)
    qed
  qed (use ne in \<open>simp_all add: kafka_snapshot_get_def assms(1,2) loop pubsub_error_of_kafka_def
      snapshot_loop.simps [of _ _ _ _ "_ # _"]\<close>)
qed

theorem kafka_snapshot_errors_witness:
  "kafka_snapshot_get example_kafka (example_broker [(0, 2), (4, 5)]) (\<lambda>_ d. d) ''u'' byte_from_bytes ''h'' ''t''
     (map Consumed [example_msg 0 0, example_msg 0 1] @ TimedOut # []) = Some (Inl (from_debug ''Elapsed(())''))"
  by (subst kafka_snapshot_errors [OF example_configure example_offsets, where p = 1 and v = 4])
    (simp_all add: example_msg_def, simp add: example_kafka_def)

text \<open>
  C30: When the snapshot returns: it still waits exactly when nothing but messages came, all with a
  payload, and some partition has not delivered a message at or beyond its bound. Every timeout,
  error and end of the stream makes it return, and so does the message that closes the last bound.
  The timeout is one of a single wait: a partition that cannot reach its bound keeps the snapshot
  from returning as long as the others go on receiving messages.
\<close>

theorem kafka_snapshot_waits_iff:
  assumes "configure_consumer K E uuid host topic = Inr consumer"
    and "determine_max_offsets K E env_get consumer topic = Inr offsets"
  shows "(kafka_snapshot_get K E env_get uuid from_bytes host topic evs = None \<longleftrightarrow>
      (\<exists>ms. evs = map Consumed ms \<and> (\<forall>m \<in> set ms. km_payload m \<noteq> None) \<and> remaining offsets ms \<noteq> [])) \<and>
    ((p, v) \<in> set offsets \<and> (\<forall>m \<in> set ms. km_payload m \<noteq> None \<and> km_partition m \<noteq> p) \<longrightarrow>
      kafka_snapshot_get K E env_get uuid from_bytes host topic (map Consumed ms) = None)"
proof -
  have g: "kafka_snapshot_get K E env_get uuid from_bytes host topic evs = snapshot_loop K from_bytes offsets [] evs" for evs
    using assms by (simp add: kafka_snapshot_get_def)
  have "(p, v) \<in> set (remaining offsets ms)" if "(p, v) \<in> set offsets" "\<forall>m \<in> set ms. km_partition m \<noteq> p"
    using that by (auto simp: remaining_def covers_def)
  then show ?thesis
    unfolding g snapshot_loop_None by (metis empty_iff list.set(1))
qed

theorem kafka_snapshot_waits_iff_witness:
  "kafka_snapshot_get example_kafka (example_broker [(0, 2), (4, 5)]) (\<lambda>_ d. d) ''u'' byte_from_bytes ''h'' ''t''
     (map Consumed (map (\<lambda>n. example_msg 0 (int n)) [0..<1000])) = None"
  by (rule kafka_snapshot_waits_iff [OF example_configure example_offsets, THEN conjunct2, THEN mp, of 1 4])
    (simp add: example_msg_def)

end
