(* ===== verification/Publish.thy ===== *)
theory Publish
  imports Redis_Pubsub Redis_Stream Kafka
begin

text \<open>
  The trait \<open>Publisher\<close> of \<^verbatim>\<open>src/src/lib.rs\<close>: the contract of \<open>publish\<close> as a locale, interpreted for
  the publish functions of the three backends. What one call meets - whether a client can be
  opened, what the client answers - is an argument of the call, so a sequence of calls is one
  under any pattern of failures.
\<close>

section \<open>Contract\<close>

text \<open>
  The abstract publisher keeps the client it has opened. A call without one tries to open it,
  and fails without sending when it cannot; otherwise it gives one command to the client and
  returns the answer. A client is kept, whatever it answers.
\<close>

definition contract_publish ::
  "('v \<Rightarrow> 'e + 'c) \<Rightarrow> ('v \<Rightarrow> 'c \<Rightarrow> 'k \<Rightarrow> 'e + unit) \<Rightarrow> ('m \<Rightarrow> 'k) \<Rightarrow> 'v \<Rightarrow> 'm \<Rightarrow> 'c option \<Rightarrow>
     ('e + unit) \<times> 'c option \<times> 'k list" where
  "contract_publish dial submit command v m client =
     (case (case client of Some c \<Rightarrow> Inr c | None \<Rightarrow> dial v) of
        Inl e \<Rightarrow> (Inl e, None, [])
      | Inr c \<Rightarrow> (submit v c (command m), Some c, [command m]))"

text \<open>A sequence of calls: their results, the state after them, and the commands sent.\<close>

fun publish_run ::
  "('v \<Rightarrow> 'm \<Rightarrow> 's \<Rightarrow> 'r \<times> 's \<times> 'k list) \<Rightarrow> ('v \<times> 'm) list \<Rightarrow> 's \<Rightarrow> 'r list \<times> 's \<times> 'k list" where
  "publish_run publish [] s = ([], s, [])"
| "publish_run publish ((v, m) # calls) s =
     (let (r, s1, ks) = publish v m s;
          (rs, s2, ks') = publish_run publish calls s1
      in (r # rs, s2, ks @ ks'))"

text \<open>
  The promise of the trait's documentation that a publisher reconnects on the next call: while
  no client can be opened every call tries, returns the error and sends nothing; from the first
  call that opens one on, every call gives it its command, in order, whatever it answers.
\<close>

definition reconnects ::
  "('s \<Rightarrow> 'c option) \<Rightarrow> ('v \<Rightarrow> 'e + 'c) \<Rightarrow> ('v \<Rightarrow> 'c \<Rightarrow> 'k \<Rightarrow> 'e + unit) \<Rightarrow> ('m \<Rightarrow> 'k) \<Rightarrow>
     ('v \<Rightarrow> 'm \<Rightarrow> 's \<Rightarrow> ('e + unit) \<times> 's \<times> 'k list) \<Rightarrow> bool" where
  "reconnects client_of dial submit command publish \<longleftrightarrow>
     (\<forall>s down v m later c.
        client_of s = None \<longrightarrow> list_all (\<lambda>(v, m). \<not> is_ok (dial v)) down \<longrightarrow> dial v = Inr c \<longrightarrow>
        (let (rs, s', ks) = publish_run publish (down @ (v, m) # later) s in (rs, client_of s', ks)) =
          (map (\<lambda>(v, m). map_sum id (\<lambda>_. ()) (dial v)) down @ map (\<lambda>(v, m). submit v c (command m)) ((v, m) # later),
           Some c, map (\<lambda>(v, m). command m) ((v, m) # later)))"

locale publisher_trait =
  fixes client_of :: "'s \<Rightarrow> 'c option"
    and dial :: "'v \<Rightarrow> 'e + 'c"
    and submit :: "'v \<Rightarrow> 'c \<Rightarrow> 'k \<Rightarrow> 'e + unit"
    and command :: "'m \<Rightarrow> 'k"
    and publish :: "'v \<Rightarrow> 'm \<Rightarrow> 's \<Rightarrow> ('e + unit) \<times> 's \<times> 'k list"
  assumes publish_contract:
    "(let (r, s', ks) = publish v m s in (r, client_of s', ks)) = contract_publish dial submit command v m (client_of s)"
begin

lemma run_contract:
  "(let (rs, s', ks) = publish_run publish calls s in (rs, client_of s', ks)) =
     publish_run (contract_publish dial submit command) calls (client_of s)"
proof (induction calls arbitrary: s)
  case (Cons call calls)
  obtain v m where call: "call = (v, m)" by (cases call)
  obtain r s1 ks where p: "publish v m s = (r, s1, ks)" by (cases "publish v m s")
  have c: "contract_publish dial submit command v m (client_of s) = (r, client_of s1, ks)"
    using publish_contract [of v m s] by (simp add: p)
  show ?case
    using Cons.IH [of s1] by (simp add: call p c case_prod_unfold Let_def prod_eq_iff)
qed simp

text \<open>As long as no client can be opened nothing is sent and every call tries again.\<close>

lemma run_refused:
  assumes "client_of s = None" and "list_all (\<lambda>(v, m). \<not> is_ok (dial v)) calls"
  shows "(let (rs, s', ks) = publish_run publish calls s in (rs, client_of s', ks)) =
    (map (\<lambda>(v, m). map_sum id (\<lambda>_. ()) (dial v)) calls, None, [])"
proof -
  have "publish_run (contract_publish dial submit command) calls None =
      (map (\<lambda>(v, m). map_sum id (\<lambda>_. ()) (dial v)) calls, None, [])"
    using assms(2)
    by (induction calls) (auto simp: contract_publish_def is_ok_def split: sum.splits)
  then show ?thesis by (simp add: run_contract assms(1))
qed

text \<open>With a client every call gives it one command, in the order of the calls.\<close>

lemma run_sends:
  assumes "client_of s = Some c"
  shows "(let (rs, s', ks) = publish_run publish calls s in (rs, client_of s', ks)) =
    (map (\<lambda>(v, m). submit v c (command m)) calls, Some c, map (\<lambda>(v, m). command m) calls)"
proof -
  have "publish_run (contract_publish dial submit command) calls (Some c) =
      (map (\<lambda>(v, m). submit v c (command m)) calls, Some c, map (\<lambda>(v, m). command m) calls)"
    by (induction calls) (auto simp: contract_publish_def)
  then show ?thesis by (simp add: run_contract assms)
qed

lemma publish_run_append:
  "publish_run publish (xs @ ys) s =
     (let (rs, s1, ks) = publish_run publish xs s; (rs', s2, ks') = publish_run publish ys s1
      in (rs @ rs', s2, ks @ ks'))"
  by (induction xs arbitrary: s) (auto simp: case_prod_unfold Let_def)

lemma publisher_reconnects: "reconnects client_of dial submit command publish"
  unfolding reconnects_def
proof (intro allI impI)
  fix s c v m and down later :: "('v \<times> 'm) list"
  assume none: "client_of s = None" and down: "list_all (\<lambda>(v, m). \<not> is_ok (dial v)) down" and up: "dial v = Inr c"
  obtain rs s1 ks where d: "publish_run publish down s = (rs, s1, ks)" by (cases "publish_run publish down s")
  with run_refused [OF none down]
  have d': "rs = map (\<lambda>(v, m). map_sum id (\<lambda>_. ()) (dial v)) down" "client_of s1 = None" "ks = []" by simp_all
  obtain r s2 js where u: "publish v m s1 = (r, s2, js)" by (cases "publish v m s1")
  with publish_contract [of v m s1] up d'(2)
  have u': "r = submit v c (command m)" "client_of s2 = Some c" "js = [command m]"
    by (simp_all add: contract_publish_def)
  show "(let (rs, s', ks) = publish_run publish (down @ (v, m) # later) s in (rs, client_of s', ks)) =
      (map (\<lambda>(v, m). map_sum id (\<lambda>_. ()) (dial v)) down @ map (\<lambda>(v, m). submit v c (command m)) ((v, m) # later),
       Some c, map (\<lambda>(v, m). command m) ((v, m) # later))"
    using run_sends [OF u'(2), of later] d' u'
    by (simp add: publish_run_append d u case_prod_unfold Let_def prod_eq_iff)
qed

end

section \<open>The three backends\<close>

text \<open>What a call of a Redis publisher meets: opening the client and the answer to the command.\<close>

record ('l, 'c, 'e, 'k) redis_call =
  rc_env :: "('l, 'c, 'e) conn_env"
  rc_answer :: "'c \<Rightarrow> 'k \<Rightarrow> 'e + unit"

definition redis_dial :: "string \<Rightarrow> ('l, 'c, 'e, 'k) redis_call \<Rightarrow> pubsub_error + 'c" where
  "redis_dial host v =
     map_err (pubsub_error_of_redis (redis_error_debug (rc_env v)))
       (res_bind (client_open (rc_env v) host) (connect (rc_env v)))"

definition redis_submit :: "('l, 'c, 'e, 'k) redis_call \<Rightarrow> 'c \<Rightarrow> 'k \<Rightarrow> pubsub_error + unit" where
  "redis_submit v c k = map_err (pubsub_error_of_redis (redis_error_debug (rc_env v))) (rc_answer v c k)"

definition redis_pubsub_call ::
  "('m \<Rightarrow> byte_message) \<Rightarrow> redis_publisher \<Rightarrow> ('l, 'c, 'e, publish_cmd) redis_call \<Rightarrow> 'm \<Rightarrow> 'c host_map \<Rightarrow>
     (pubsub_error + unit) \<times> 'c host_map \<times> publish_cmd list" where
  "redis_pubsub_call into_bytes p v =
     redis_publish (client_open (rc_env v)) (connect (rc_env v)) (redis_error_debug (rc_env v)) (rc_answer v) into_bytes p"

definition redis_stream_call ::
  "('m \<Rightarrow> byte_message) \<Rightarrow> stream_publisher \<Rightarrow> ('l, 'c, 'e, xadd) redis_call \<Rightarrow> 'm \<Rightarrow> 'c host_map \<Rightarrow>
     (pubsub_error + unit) \<times> 'c host_map \<times> xadd list" where
  "redis_stream_call into_bytes p v = stream_publish (rc_env v) (rc_answer v) into_bytes p"

definition redis_stream_fields_call ::
  "('m \<Rightarrow> (string \<times> bytes) list) \<Rightarrow> stream_publisher \<Rightarrow> ('l, 'c, 'e, xadd) redis_call \<Rightarrow> 'm \<Rightarrow> 'c host_map \<Rightarrow>
     (pubsub_error + unit) \<times> 'c host_map \<times> xadd list" where
  "redis_stream_fields_call into_stream_fields p v = stream_publish_stream (rc_env v) (rc_answer v) into_stream_fields p"

interpretation redis_pubsub_publisher: publisher_trait "\<lambda>m. hm_get m (rp_host p)" "redis_dial (rp_host p)" redis_submit
  "\<lambda>msg. PublishCmd (rp_topic p) (byte_extract_value (into_bytes msg))" "redis_pubsub_call into_bytes p" for into_bytes p
  by unfold_locales
    (auto simp: redis_pubsub_call_def redis_publish_def contract_publish_def redis_dial_def redis_submit_def Let_def
      get_connection_eq_write get_connection_write_eq split: option.splits sum.splits)

interpretation redis_stream_publisher: publisher_trait "\<lambda>m. hm_get m (sp_host p)" "redis_dial (sp_host p)" redis_submit
  "\<lambda>msg. XaddMaxlen (sp_topic p) (sp_max_len p) ''*'' [(''data'', byte_value (into_bytes msg))]"
  "redis_stream_call into_bytes p" for into_bytes p
  by unfold_locales
    (auto simp: redis_stream_call_def stream_publish_def contract_publish_def redis_dial_def redis_submit_def Let_def
      get_connection_eq_write get_connection_write_eq split: option.splits sum.splits)

interpretation redis_fields_publisher: publisher_trait "\<lambda>m. hm_get m (sp_host p)" "redis_dial (sp_host p)" redis_submit
  "\<lambda>msg. XaddMaxlen (sp_topic p) (sp_max_len p) ''*'' (into_stream_fields msg)"
  "redis_stream_fields_call into_stream_fields p" for into_stream_fields p
  by unfold_locales
    (auto simp: redis_stream_fields_call_def stream_publish_stream_def contract_publish_def redis_dial_def redis_submit_def Let_def
      get_connection_eq_write get_connection_write_eq split: option.splits sum.splits)

record ('p, 'e) kafka_call =
  kc_env_get :: "string \<Rightarrow> u64 \<Rightarrow> u64"
  kc_create :: "string \<Rightarrow> pubsub_error + 'p"
  kc_elapsed :: duration
  kc_send :: "'p \<Rightarrow> future_record \<Rightarrow> duration \<Rightarrow> 'e + unit"

definition kafka_call_publish ::
  "'e kafka_lib \<Rightarrow> ('m \<Rightarrow> byte_message) \<Rightarrow> kafka_publisher \<Rightarrow> ('p, 'e) kafka_call \<Rightarrow> 'm \<Rightarrow> 'p producers \<Rightarrow>
     (pubsub_error + unit) \<times> 'p producers \<times> future_record list" where
  "kafka_call_publish K into_bytes p v =
     kafka_publish K (kc_env_get v) (kc_create v) (kc_elapsed v) (kc_send v) into_bytes p"

definition kafka_submit :: "'e kafka_lib \<Rightarrow> ('p, 'e) kafka_call \<Rightarrow> 'p \<Rightarrow> future_record \<Rightarrow> pubsub_error + unit" where
  "kafka_submit K v c r = map_err (pubsub_error_of_kafka K) (kc_send v c r (get_kafka_timeout_val (kc_env_get v)))"

interpretation kafka_trait_publisher: publisher_trait "\<lambda>s. map_option producer (hm_get (producer_map s) (kp_host p))"
  "\<lambda>v. kc_create v (kp_host p)" "kafka_submit K"
  "\<lambda>msg. \<lparr>fr_topic = kp_topic p, fr_payload = bm_value (into_bytes msg), fr_key = bm_key (into_bytes msg)\<rparr>"
  "kafka_call_publish K into_bytes p" for K into_bytes p
  by unfold_locales
    (auto simp: kafka_call_publish_def kafka_publish_def contract_publish_def kafka_submit_def Let_def store_cell_def
      get_kafka_producer_eq_write get_producer_write_def split: option.splits sum.splits)

section \<open>Properties\<close>

text \<open>
  C9: The publishers of all three backends, and \<open>publish_stream\<close>, follow one contract, for every
  sequence of calls and every pattern of failures: results, commands sent and the cached client
  are those of the abstract publisher, which opens a client only when it has none, gives it one
  command per call and keeps it whatever it answers. The commands carry the value of the message
  and, on Kafka, its key.
\<close>

theorem publishers_follow_contract:
  "(let (rs, m', ks) = publish_run (redis_pubsub_call into_bytes p) cs m in (rs, hm_get m' (rp_host p), ks)) =
     publish_run (contract_publish (redis_dial (rp_host p)) redis_submit
       (\<lambda>msg. PublishCmd (rp_topic p) (byte_extract_value (into_bytes msg)))) cs (hm_get m (rp_host p)) \<and>
   (let (rs, m', ks) = publish_run (redis_stream_call into_bytes q) ds n in (rs, hm_get m' (sp_host q), ks)) =
     publish_run (contract_publish (redis_dial (sp_host q)) redis_submit
       (\<lambda>msg. XaddMaxlen (sp_topic q) (sp_max_len q) ''*'' [(''data'', byte_value (into_bytes msg))])) ds (hm_get n (sp_host q)) \<and>
   (let (rs, m', ks) = publish_run (redis_stream_fields_call into_fields q) es n in (rs, hm_get m' (sp_host q), ks)) =
     publish_run (contract_publish (redis_dial (sp_host q)) redis_submit
       (\<lambda>msg. XaddMaxlen (sp_topic q) (sp_max_len q) ''*'' (into_fields msg))) es (hm_get n (sp_host q)) \<and>
   (let (rs, s', ks) = publish_run (kafka_call_publish K into_bytes k) fs s
    in (rs, map_option producer (hm_get (producer_map s') (kp_host k)), ks)) =
     publish_run (contract_publish (\<lambda>v. kc_create v (kp_host k)) (kafka_submit K)
       (\<lambda>msg. \<lparr>fr_topic = kp_topic k, fr_payload = bm_value (into_bytes msg), fr_key = bm_key (into_bytes msg)\<rparr>))
       fs (map_option producer (hm_get (producer_map s) (kp_host k)))"
  by (intro conjI redis_pubsub_publisher.run_contract redis_stream_publisher.run_contract
      redis_fields_publisher.run_contract kafka_trait_publisher.run_contract)

text \<open>
  Every publisher recovers from an outage by itself, as the trait documents: calls that cannot
  connect return the error, send nothing and leave the next call to try again; from the first that
  connects on, each call sends its command, in order.
\<close>

theorem publishers_reconnect:
  "reconnects (\<lambda>m. hm_get m (rp_host p)) (redis_dial (rp_host p)) redis_submit
     (\<lambda>msg. PublishCmd (rp_topic p) (byte_extract_value (into_bytes msg))) (redis_pubsub_call into_bytes p) \<and>
   reconnects (\<lambda>m. hm_get m (sp_host q)) (redis_dial (sp_host q)) redis_submit
     (\<lambda>msg. XaddMaxlen (sp_topic q) (sp_max_len q) ''*'' [(''data'', byte_value (into_bytes msg))])
     (redis_stream_call into_bytes q) \<and>
   reconnects (\<lambda>m. hm_get m (sp_host q)) (redis_dial (sp_host q)) redis_submit
     (\<lambda>msg. XaddMaxlen (sp_topic q) (sp_max_len q) ''*'' (into_fields msg)) (redis_stream_fields_call into_fields q) \<and>
   reconnects (\<lambda>s. map_option producer (hm_get (producer_map s) (kp_host k))) (\<lambda>v. kc_create v (kp_host k)) (kafka_submit K)
     (\<lambda>msg. \<lparr>fr_topic = kp_topic k, fr_payload = bm_value (into_bytes msg), fr_key = bm_key (into_bytes msg)\<rparr>)
     (kafka_call_publish K into_bytes k)"
  by (intro conjI redis_pubsub_publisher.publisher_reconnects redis_stream_publisher.publisher_reconnects
      redis_fields_publisher.publisher_reconnects kafka_trait_publisher.publisher_reconnects)

end
