(* ===== verification/Kafka_Log.thy ===== *)
theory Kafka_Log
  imports Publish
begin

text \<open>
  Kafka publisher and snapshot of \<^verbatim>\<open>src/src/kafka_impl/mod.rs\<close> together, over a topic of the broker:
  what was published before a snapshot is in it. The topic is a log per partition; where a record
  goes is the broker's and the client library's choice.
\<close>

section \<open>A topic\<close>

text \<open>A record as the broker delivers it to consumers.\<close>

definition kafka_delivery :: "int \<Rightarrow> int \<Rightarrow> future_record \<Rightarrow> kafka_msg" where
  "kafka_delivery part offset r =
     \<lparr>km_partition = part, km_offset = offset, km_key = fr_key r, km_payload = Some (fr_payload r)\<rparr>"

type_synonym topic_log = "int \<Rightarrow> kafka_msg list"

definition append_record :: "int \<Rightarrow> future_record \<Rightarrow> topic_log \<Rightarrow> topic_log" where
  "append_record p r log = log(p := log p @ [kafka_delivery p (int (length (log p))) r])"

fun store_all :: "(int \<times> future_record) list \<Rightarrow> topic_log \<Rightarrow> topic_log" where
  "store_all [] log = log"
| "store_all ((p, r) # rs) log = store_all rs (append_record p r log)"

text \<open>Partitions hold their own records, numbered from 0.\<close>

definition log_ok :: "topic_log \<Rightarrow> bool" where
  "log_ok log \<longleftrightarrow> (\<forall>p. list_all (\<lambda>m. km_partition m = p \<and> km_payload m \<noteq> None) (log p) \<and>
     map km_offset (log p) = map int [0..<length (log p)])"

abbreviation of_partition :: "int \<Rightarrow> kafka_msg list \<Rightarrow> kafka_msg list" where
  "of_partition p ms \<equiv> filter (\<lambda>m. km_partition m = p) ms"

text \<open>
  What is documented of a consumer's view of a topic: its partitions, and as their watermarks the
  offset of the first record and the one after the last.
\<close>

definition consumer_sees :: "('c, 'e) consumer_env \<Rightarrow> 'c \<Rightarrow> string \<Rightarrow> int list \<Rightarrow> topic_log \<Rightarrow> bool" where
  "consumer_sees E consumer topic parts log \<longleftrightarrow>
     (\<forall>t. fetch_metadata E consumer (Some topic) t = Inr [parts]) \<and>
     (\<forall>t. \<forall>p \<in> set parts. fetch_watermarks E consumer topic p t = Inr (0, int (length (log p)))) \<and>
     (\<forall>p. p \<notin> set parts \<longrightarrow> log p = [])"

text \<open>
  Consumed from the start, a partition comes in order; partitions mix in any way, and records that
  are appended meanwhile may follow.
\<close>

definition consumed_from :: "topic_log \<Rightarrow> kafka_msg list \<Rightarrow> bool" where
  "consumed_from log delivered \<longleftrightarrow>
     (\<exists>later. log_ok later \<and> (\<forall>p. prefix (log p) (of_partition p delivered) \<and> prefix (of_partition p delivered) (later p)))"

section \<open>Lemmas\<close>

lemma log_ok_append: "log_ok log \<Longrightarrow> log_ok (append_record p r log)"
  by (auto simp: log_ok_def append_record_def kafka_delivery_def)

lemma log_ok_store: "log_ok log \<Longrightarrow> log_ok (store_all rs log)"
  by (induction rs log rule: store_all.induct) (auto simp: log_ok_append)

lemma log_ok_empty: "log_ok (\<lambda>_. [])"
  by (simp add: log_ok_def)

text \<open>What a message type reads from a partition.\<close>

lemma read_store:
  "map (conv from_bytes) (store_all rs log p) =
     map (conv from_bytes) (log p) @ map (\<lambda>(q, r). from_bytes (fr_key r) (fr_payload r)) (filter (\<lambda>(q, r). q = p) rs)"
proof (induction rs log rule: store_all.induct)
  case (2 q r rs log)
  have "map (conv from_bytes) (append_record q r log p) =
      map (conv from_bytes) (log p) @ (if q = p then [from_bytes (fr_key r) (fr_payload r)] else [])"
    by (simp add: append_record_def conv_def kafka_delivery_def)
  with 2 show ?case by simp
qed simp

lemma log_sorted:
  assumes "log_ok log" and "prefix ms (log p)"
  shows "sorted_wrt (<) (map km_offset ms)"
proof -
  have "sorted_wrt (<) (map int [0..<n])" for n
    by (simp add: sorted_wrt_map)
  then have "sorted_wrt (<) (map km_offset (log p))" using assms(1) by (simp add: log_ok_def)
  then show ?thesis using assms(2) by (auto simp: prefix_def sorted_wrt_append)
qed

lemma offsets_of_log:
  assumes "consumer_sees E consumer topic parts log"
  obtains offsets where "determine_max_offsets K E env_get consumer topic = Inr offsets" and "hm_wf offsets"
    and "\<And>p. hm_get offsets p = (if log p = [] then None else Some (int (length (log p)) - 1))"
proof -
  let ?t = "get_kafka_timeout_val env_get"
  have w: "fetch_watermarks E consumer topic p ?t = Inr (0, int (length (log p)))" if "p \<in> set parts" for p
    using assms that by (simp add: consumer_sees_def)
  then have "\<exists>ws. collect_results (map (\<lambda>p. fetch_watermarks E consumer topic p ?t) parts) = Inr ws"
    by (auto simp: collect_results_Inr_iff intro!: exI [of _ "map (\<lambda>p. (0, int (length (log p)))) parts"])
  moreover have "max_offsets_loop E consumer topic ?t [] parts \<noteq> Inl e \<or>
      collect_results (map (\<lambda>p. fetch_watermarks E consumer topic p ?t) parts) = Inl e" for e
    using max_offsets_loop_error [of E consumer topic ?t "[]" parts e] by blast
  ultimately obtain offsets where o: "max_offsets_loop E consumer topic ?t [] parts = Inr offsets"
    by (cases "max_offsets_loop E consumer topic ?t [] parts") auto
  have "hm_wf offsets" by (rule max_offsets_loop_wf [OF _ o]) (simp add: hm_wf_def)
  moreover have "hm_get offsets p = (if log p = [] then None else Some (int (length (log p)) - 1))" for p
    using max_offsets_loop_get [OF o, of p] w [of p] assms by (auto simp: consumer_sees_def hm_get_def)
  moreover have "determine_max_offsets K E env_get consumer topic = Inr offsets"
    using o assms by (simp add: determine_max_offsets_def consumer_sees_def Let_def)
  ultimately show thesis using that by blast
qed

text \<open>Two prefixes of one partition, of which the longer has the last record of the shorter.\<close>

lemma prefix_with_last:
  assumes "prefix xs zs" and "prefix ys zs" and "distinct zs" and "xs \<noteq> [] \<Longrightarrow> last xs \<in> set ys"
  shows "prefix xs ys"
proof (rule ccontr)
  assume "\<not> prefix xs ys"
  with assms(1,2) have "strict_prefix ys xs"
    using prefix_same_cases by (auto simp: strict_prefix_def)
  then obtain us where us: "xs = ys @ us" "us \<noteq> []" by (auto simp: strict_prefix_def prefix_def)
  then have "last xs \<in> set us" "last xs \<in> set ys" using assms(4) by auto
  moreover have "distinct xs" using assms(1,3) by (auto simp: prefix_def)
  ultimately show False using us(1) by auto
qed

lemma take_of_partition: "prefix (of_partition p (take n ms)) (of_partition p ms)"
  using filter_append [of _ "take n ms" "drop n ms"] by (metis append_take_drop_id prefixI)

text \<open>A part of a log that comes first, and its last record.\<close>

lemma offsets_numbered:
  assumes "log_ok log" and "prefix ms (log p)" and "i < length ms"
  shows "km_offset (ms ! i) = int i"
proof -
  have "log p ! i = ms ! i" "i < length (log p)"
    using assms(2,3) by (auto simp: prefix_def nth_append)
  moreover have "map km_offset (log p) ! i = map int [0..<length (log p)] ! i"
    using assms(1) by (simp add: log_ok_def)
  ultimately show ?thesis by simp
qed

lemma last_record:
  assumes "log_ok log" and "prefix ms (log p)" and "ms \<noteq> []"
  shows "km_partition (last ms) = p \<and> km_offset (last ms) = int (length ms) - 1"
proof -
  have "last ms \<in> set (log p)" using assms(2,3) by (auto simp: prefix_def)
  then have "km_partition (last ms) = p" using assms(1) by (auto simp: log_ok_def list_all_iff)
  then show ?thesis
    using offsets_numbered [OF assms(1,2), of "length ms - 1"] assms(3) by (simp add: last_conv_nth of_nat_diff Suc_leI)
qed

lemma consumed_payloads:
  assumes "log_ok later" and "\<And>p. prefix (of_partition p delivered) (later p)"
  shows "\<forall>m \<in> set delivered. km_payload m \<noteq> None"
proof
  fix m assume "m \<in> set delivered"
  then have "m \<in> set (of_partition (km_partition m) delivered)" by simp
  then have "m \<in> set (later (km_partition m))" using assms(2) by (meson set_mono_prefix subset_iff)
  then show "km_payload m \<noteq> None" using assms(1) by (auto simp: log_ok_def list_all_iff)
qed

lemma consumed_reaches:
  assumes "log_ok later" and "\<And>p. prefix (log p) (later p)" and "\<And>p. prefix (log p) (of_partition p delivered)"
    and "hm_wf offsets" and "\<And>p. hm_get offsets p = (if log p = [] then None else Some (int (length (log p)) - 1))"
  shows "remaining offsets delivered = []"
proof -
  have "covers delivered (p, v)" if "(p, v) \<in> set offsets" for p v
  proof -
    have "hm_get offsets p = Some v" using that hm_get_in_set [OF assms(4)] by blast
    with assms(5) have ne: "log p \<noteq> []" and v: "v = int (length (log p)) - 1" by (auto split: if_splits)
    have "last (log p) \<in> set (of_partition p delivered)"
      using set_mono_prefix [OF assms(3)] last_in_set [OF ne] by (rule subsetD)
    then have "last (log p) \<in> set delivered" by simp
    with last_record [OF assms(1,2) ne] v show ?thesis by (auto simp: covers_def)
  qed
  then show ?thesis by (auto simp: remaining_def filter_empty_conv)
qed

text \<open>A snapshot has every record its topic had when the offsets were determined.\<close>

lemma snapshot_has_log:
  assumes "configure_consumer K E uuid host topic = Inr consumer"
    and "consumer_sees E consumer topic parts log" and "consumed_from log delivered"
  shows "\<exists>n \<le> length delivered.
    kafka_snapshot_get K E env_get uuid from_bytes host topic (map Consumed delivered @ rest) =
      Some (Inr (map (conv from_bytes) (take n delivered))) \<and>
    (\<forall>p. prefix (log p) (of_partition p (take n delivered)))"
proof -
  obtain later where later: "log_ok later" "\<And>p. prefix (log p) (of_partition p delivered)"
    "\<And>p. prefix (of_partition p delivered) (later p)"
    using assms(3) by (auto simp: consumed_from_def)
  obtain offsets where o: "determine_max_offsets K E env_get consumer topic = Inr offsets" "hm_wf offsets"
    and get: "\<And>p. hm_get offsets p = (if log p = [] then None else Some (int (length (log p)) - 1))"
    using offsets_of_log [OF assms(2)] by metis
  have whole: "prefix (log p) (later p)" for p
    using later(2,3) [of p] by (rule prefix_order.trans)
  have sorted: "\<forall>p. sorted_wrt (<) (map km_offset (of_partition p delivered))"
    using log_sorted [OF later(1)] later(3) by blast
  from snapshot_reaches_bounds [OF assms(1) o(1) consumed_payloads [OF later(1,3)]
      consumed_reaches [OF later(1) whole later(2) o(2) get] sorted, of from_bytes rest]
  obtain n where n: "n \<le> length delivered"
    "kafka_snapshot_get K E env_get uuid from_bytes host topic (map Consumed delivered @ rest) =
      Some (Inr (map (conv from_bytes) (take n delivered)))"
    and all: "\<And>m v. m \<in> set delivered \<Longrightarrow> (km_partition m, v) \<in> set offsets \<Longrightarrow> km_offset m \<le> v \<Longrightarrow> m \<in> set (take n delivered)"
    by blast
  have "prefix (log p) (of_partition p (take n delivered))" for p
  proof (rule prefix_with_last [OF whole])
    show "prefix (of_partition p (take n delivered)) (later p)"
      using take_of_partition later(3) by (rule prefix_order.trans)
    have "map km_offset (later p) = map int [0..<length (later p)]" using later(1) by (simp add: log_ok_def)
    then have "distinct (map km_offset (later p))" by (simp add: distinct_map)
    then show "distinct (later p)" by (simp add: distinct_map)
    show "last (log p) \<in> set (of_partition p (take n delivered))" if ne: "log p \<noteq> []"
    proof -
      have "(p, int (length (log p)) - 1) \<in> set offsets"
        using get [of p] ne hm_get_in_set [OF o(2)] by simp
      moreover have "last (log p) \<in> set (of_partition p delivered)"
        using set_mono_prefix [OF later(2)] last_in_set [OF ne] by (rule subsetD)
      ultimately show ?thesis
        using all [of "last (log p)"] last_record [OF later(1) whole ne] by simp
    qed
  qed
  with n show ?thesis by blast
qed

text \<open>What one publisher's texts read as, in the partitions they went to.\<close>

lemma published_log:
  assumes "map_option producer (hm_get (producer_map s) (kp_host pub)) = Some pr"
    and "publish_run (kafka_call_publish K string_into_bytes pub) calls s = (rs, s', records)"
    and "list_all (\<lambda>(v, msg). string_wf msg) calls"
  shows "map (conv string_from_bytes) (store_all (zip parts_chosen records) before p) =
    map (conv string_from_bytes) (before p) @
    map snd (filter (\<lambda>(q, msg). q = p) (zip parts_chosen (map snd calls)))"
proof -
  let ?sent_as = "\<lambda>msg. \<lparr>fr_topic = kp_topic pub, fr_payload = bm_value (string_into_bytes msg), fr_key = bm_key (string_into_bytes msg)\<rparr>"
  have records: "records = map ?sent_as (map snd calls)"
    using kafka_trait_publisher.run_sends [OF assms(1), where K = K and into_bytes = string_into_bytes and calls = calls] assms(2)
    by (simp add: case_prod_unfold comp_def)
  have read: "string_from_bytes (fr_key (?sent_as msg)) (fr_payload (?sent_as msg)) = msg" if "string_wf msg" for msg
    using string_from_into_bytes [OF that] by (simp add: string_from_eq)
  have "map (\<lambda>(q, r). string_from_bytes (fr_key r) (fr_payload r)) (filter (\<lambda>(q, r). q = p) (zip qs (map ?sent_as msgs))) =
      map snd (filter (\<lambda>(q, msg). q = p) (zip qs msgs))" if "list_all string_wf msgs" for qs msgs
    using that
  proof (induction msgs arbitrary: qs)
    case (Cons msg msgs)
    then show ?case using read [of msg] by (cases qs) simp_all
  qed simp
  from this [of "map snd calls"] assms(3) show ?thesis
    by (simp add: records read_store list.pred_map comp_def case_prod_unfold)
qed

section \<open>Properties\<close>

text \<open>
  C5: What was published before is in the snapshot: when texts were published by one publisher and
  the broker has stored them, in whatever partitions, a snapshot that then determines its bounds
  returns, and has for each partition all of its texts first, with key and value, in the order in
  which they were published; anything published meanwhile comes after them.
\<close>

theorem kafka_publish_then_snapshot:
  assumes "map_option producer (hm_get (producer_map s) (kp_host pub)) = Some pr"
    and "publish_run (kafka_call_publish K string_into_bytes pub) calls s = (rs, s', records)"
    and "list_all (\<lambda>(v, msg). string_wf msg) calls"
    and "log = store_all (zip parts_chosen records) (\<lambda>_. [])"
    and "configure_consumer K E uuid host (kp_topic pub) = Inr consumer"
    and "consumer_sees E consumer (kp_topic pub) parts log" and "consumed_from log delivered"
  shows "\<exists>n \<le> length delivered.
    kafka_snapshot_get K E env_get uuid string_from_bytes host (kp_topic pub) (map Consumed delivered @ rest) =
      Some (Inr (map (conv string_from_bytes) (take n delivered))) \<and>
    (\<forall>p. prefix (map snd (filter (\<lambda>(q, msg). q = p) (zip parts_chosen (map snd calls))))
      (map (conv string_from_bytes) (of_partition p (take n delivered))))"
proof -
  have log: "map (conv string_from_bytes) (log p) = map snd (filter (\<lambda>(q, msg). q = p) (zip parts_chosen (map snd calls)))" for p
    using published_log [OF assms(1-3), of parts_chosen "\<lambda>_. []" p] by (simp add: assms(4))
  from snapshot_has_log [OF assms(5-7), of env_get string_from_bytes rest]
  show ?thesis by (metis log map_mono_prefix)
qed

text \<open>Two texts in a partition each, consumed with a third that was published in between.\<close>

definition example_texts :: "string_message list" where
  "example_texts = [string_new (Some ''k'') ''a'', string_from_value ''b'']"

definition example_record :: "string_message \<Rightarrow> future_record" where
  "example_record msg = \<lparr>fr_topic = ''t'', fr_payload = bm_value (string_into_bytes msg), fr_key = bm_key (string_into_bytes msg)\<rparr>"

definition example_log :: topic_log where
  "example_log = store_all (zip [0, 1] (map example_record example_texts)) (\<lambda>_. [])"

definition example_delivered :: "kafka_msg list" where
  "example_delivered = example_log 1 @ append_record 0 (example_record (string_from_value ''c'')) example_log 0"

lemma example_consumed: "consumed_from example_log example_delivered"
proof -
  let ?later = "append_record 0 (example_record (string_from_value ''c'')) example_log"
  have "log_ok ?later"
    unfolding example_log_def by (intro log_ok_append log_ok_store log_ok_empty)
  moreover have "of_partition p example_delivered = ?later p \<and> prefix (example_log p) (?later p)" for p
    by (simp add: example_delivered_def example_log_def example_texts_def append_record_def kafka_delivery_def)
  ultimately show ?thesis unfolding consumed_from_def by (metis prefix_order.refl)
qed

lemma example_sees: "consumer_sees (example_broker [(0, 1), (0, 1)]) () ''t'' [0, 1] example_log"
  by (auto simp: consumer_sees_def example_broker_def example_log_def example_texts_def append_record_def eval_nat_numeral)

text \<open>The two texts published through a producer that is already cached.\<close>

definition example_calls :: "((unit, string) kafka_call \<times> string_message) list" where
  "example_calls = map (Pair \<lparr>kc_env_get = (\<lambda>_ d. d), kc_create = (\<lambda>_. Inr ()), kc_elapsed = 0,
     kc_send = (\<lambda>_ _ _. Inr ())\<rparr>) example_texts"

definition example_producers :: "unit producers" where
  "example_producers = snd (get_producer_write (\<lambda>_. Inr ()) 0 ''h'' producers_init)"

lemma example_producer_cached:
  "map_option producer (hm_get (producer_map example_producers) (kp_host (kafka_publisher_new ''h'' ''t''))) = Some ()"
  by (simp add: example_producers_def get_producer_write_def producers_init_def kafka_publisher_new_def Let_def)

lemma example_published:
  obtains rs s' where "publish_run (kafka_call_publish example_kafka string_into_bytes (kafka_publisher_new ''h'' ''t''))
    example_calls example_producers = (rs, s', map example_record example_texts)"
proof -
  obtain rs s' records where r: "publish_run (kafka_call_publish example_kafka string_into_bytes (kafka_publisher_new ''h'' ''t''))
    example_calls example_producers = (rs, s', records)"
    by (metis prod_cases3)
  moreover have "records = map example_record example_texts"
    using kafka_trait_publisher.run_sends [OF example_producer_cached, where K = example_kafka
      and into_bytes = string_into_bytes and calls = example_calls] r
    by (simp add: case_prod_unfold comp_def example_record_def [abs_def] kafka_publisher_new_def example_calls_def)
  ultimately show ?thesis using that by blast
qed

lemma example_texts_wf: "list_all (\<lambda>(v, msg). string_wf msg) example_calls"
  by (simp add: example_calls_def example_texts_def string_wf_def string_defs valid_str_ascii)

theorem kafka_publish_then_snapshot_witness:
  "\<exists>n. kafka_snapshot_get example_kafka (example_broker [(0, 1), (0, 1)]) (\<lambda>_ d. d) ''u'' string_from_bytes ''h'' ''t''
      (map Consumed example_delivered) = Some (Inr (map (conv string_from_bytes) (take n example_delivered))) \<and>
    prefix [string_new (Some ''k'') ''a''] (map (conv string_from_bytes) (of_partition 0 (take n example_delivered))) \<and>
    prefix [string_from_value ''b''] (map (conv string_from_bytes) (of_partition 1 (take n example_delivered)))"
proof -
  let ?pub = "kafka_publisher_new ''h'' ''t''"
  obtain rs s' where r: "publish_run (kafka_call_publish example_kafka string_into_bytes ?pub) example_calls example_producers =
      (rs, s', map example_record example_texts)"
    by (rule example_published)
  have topic: "kp_topic ?pub = ''t''" by (simp add: kafka_publisher_new_def)
  from kafka_publish_then_snapshot [OF example_producer_cached r example_texts_wf example_log_def, unfolded topic,
      OF example_configure example_sees example_consumed, of "\<lambda>_ d. d" "''u''" "''h''" "[]"]
  obtain n where "kafka_snapshot_get example_kafka (example_broker [(0, 1), (0, 1)]) (\<lambda>_ d. d) ''u'' string_from_bytes ''h'' ''t''
      (map Consumed example_delivered) = Some (Inr (map (conv string_from_bytes) (take n example_delivered)))"
    and p: "\<And>p. prefix (map snd (filter (\<lambda>(q, msg). q = p) (zip [0, 1] (map snd example_calls))))
      (map (conv string_from_bytes) (of_partition p (take n example_delivered)))"
    by auto
  with p [of 0] p [of 1] show ?thesis by (auto simp: example_texts_def example_calls_def)
qed

end
