(* ===== verification/Redis_Stream_Runtime.thy ===== *)
theory Redis_Stream_Runtime
  imports Redis_Stream Reconnect
begin

text \<open>
  The background task of the Redis Stream subscriber,
  \<^verbatim>\<open>src/src/redis_impls/stream/runtime/mod.rs\<close>: the polling loop \<open>monitor_stream\<close> and the
  reconnect loop \<open>start_stream\<close>. Both run over what the environment did: the replies to the
  polls, the connection attempts, and the point where the token is cancelled.
\<close>

section \<open>Polling\<close>

definition READ_BLOCK_TIME_MS :: nat where
  "READ_BLOCK_TIME_MS = 250"

text \<open>\<open>XREAD BLOCK ms STREAMS key id\<close>.\<close>

datatype xread = Xread (xread_block: nat) (xread_key: string) (xread_id: string)

text \<open>
  What ends the wait for a reply: the reply (per key the entries), an error, or the
  cancellation, which drops the whole loop (\<open>run_until_cancelled\<close>).
\<close>

datatype ('o, 'e) xread_event =
    XReply "(string \<times> 'o stream_id list) list"
  | XError 'e
  | XCancelled

datatype 'e monitor_result = MonitorErr 'e | MonitorCancelled | MonitorPending

text \<open>What the loop uses of the libraries: conversions, serialiser and \<open>Debug\<close> of an entry.\<close>

record ('o, 'p) entry_env =
  entry_lib :: "('o, 'p) redis_lib"
  entry_to_vec :: to_vec
  entry_debug :: "'o stream_id \<Rightarrow> string"

fun monitor_entries ::
  "('o, 'p) entry_env \<Rightarrow> string \<Rightarrow> 'o stream_id list \<Rightarrow> string \<times> effect list" where
  "monitor_entries V latest_id [] = (latest_id, [])"
| "monitor_entries V latest_id (entry # entries) =
     (let latest_id' = sid_id entry;
          es = (case stream_entry_to_byte_message (entry_lib V) (entry_to_vec V) entry of
                  Inr message \<Rightarrow> [Send message]
                | Inl _ \<Rightarrow> [LogWarn (''Failed to convert message: '' @ entry_debug V entry)]);
          (latest_id'', fs) = monitor_entries V latest_id' entries
      in (latest_id'', es @ fs))"

fun monitor_loop ::
  "('o, 'p) entry_env \<Rightarrow> string \<Rightarrow> string \<Rightarrow> ('o, 'e) xread_event list \<Rightarrow>
     xread list \<times> effect list \<times> 'e monitor_result" where
  "monitor_loop V topic latest_id [] =
     ([Xread READ_BLOCK_TIME_MS topic latest_id], [], MonitorPending)"
| "monitor_loop V topic latest_id (XError e # evs) =
     ([Xread READ_BLOCK_TIME_MS topic latest_id], [], MonitorErr e)"
| "monitor_loop V topic latest_id (XCancelled # evs) =
     ([Xread READ_BLOCK_TIME_MS topic latest_id], [], MonitorCancelled)"
| "monitor_loop V topic latest_id (XReply keys # evs) =
     (let entries = concat (map snd keys);
          (latest_id', es) = monitor_entries V latest_id entries;
          (cs, fs, r) = monitor_loop V topic latest_id' evs
      in (Xread READ_BLOCK_TIME_MS topic latest_id # cs, es @ fs, r))"

definition monitor_stream ::
  "('o, 'p) entry_env \<Rightarrow> string \<Rightarrow> ('o, 'e) xread_event list \<Rightarrow>
     xread list \<times> effect list \<times> 'e monitor_result" where
  "monitor_stream V topic evs = monitor_loop V topic ''$'' evs"

section \<open>Reconnect loop\<close>

text \<open>
  The state of the task: its \<open>OutageState\<close>, the shared connections, and whether the token is
  cancelled. \<open>TokenCancelled\<close> is a cancellation found at the loop head. In an attempt, opening
  and connecting have the given outcomes, then the polls see the given events; \<open>att_before\<close> and
  \<open>att_during\<close> are what other tasks did to the shared connections before the attempt and
  while it ran.
\<close>

record ('c, 'k) rs_state =
  rs_outage :: "'k outage_state"
  rs_hosts :: "'c host_map"
  rs_cancelled :: bool

record ('l, 'c, 'e, 'o) rs_try =
  att_open :: "string \<Rightarrow> 'e + 'l"
  att_connect :: "'l \<Rightarrow> 'e + 'c"
  att_events :: "('o, 'e) xread_event list"
  att_before :: "'c host_map \<Rightarrow> 'c host_map"
  att_during :: "'c host_map \<Rightarrow> 'c host_map"

datatype ('l, 'c, 'e, 'o) rs_turn =
    TokenCancelled
  | Attempt "('l, 'c, 'e, 'o) rs_try"

record ('e, 'k) error_env =
  error_kind :: "'e \<Rightarrow> 'k"
  error_debug :: "'e \<Rightarrow> string"

definition rs_fail ::
  "('e, 'k) error_env \<Rightarrow> 'e \<Rightarrow> string \<Rightarrow> ('c, 'k) rs_state \<Rightarrow> effect list \<times> ('c, 'k) rs_state loop_status" where
  "rs_fail R err context st =
     (case on_error (rs_outage st) (error_kind R err) (error_debug R err) context of
        (es, Panic) \<Rightarrow> (es, Panicked)
      | (es, Ret o') \<Rightarrow> (es, Continue (st\<lparr>rs_outage := o'\<rparr>)))"

fun rs_attempt ::
  "('o, 'p) entry_env \<Rightarrow> ('e, 'k) error_env \<Rightarrow> string \<Rightarrow> string \<Rightarrow> ('c, 'k) rs_state \<Rightarrow>
     ('l, 'c, 'e, 'o) rs_turn \<Rightarrow> effect list \<times> ('c, 'k) rs_state loop_status" where
  "rs_attempt V R host topic st TokenCancelled = ([], Returned)"
| "rs_attempt V R host topic st (Attempt a) =
     (if rs_cancelled st then ([], Returned)
      else
        (case get_connection (att_open a) (att_connect a) host (att_before a (rs_hosts st)) of
           (Inr conn, m) \<Rightarrow>
             (let (recovered, o') = on_recovery (rs_outage st);
                  logs = (if recovered then [LogInfo (''Redis stream recovered for '' @ host)] else []);
                  (_, es, xread_err) = monitor_stream V topic (att_events a);
                  st' = st\<lparr>rs_outage := o', rs_hosts := att_during a m\<rparr>
              in case xread_err of
                   MonitorErr err \<Rightarrow>
                     (let (fs, r) = rs_fail R err ''Redis stream XREAD error''
                        (st'\<lparr>rs_hosts := evict_connection host (rs_hosts st')\<rparr>)
                      in (logs @ es @ fs, r))
                 | MonitorCancelled \<Rightarrow> (logs @ es, Continue (st'\<lparr>rs_cancelled := True\<rparr>))
                 | MonitorPending \<Rightarrow> (logs @ es, Waiting st'))
         | (Inl err, m) \<Rightarrow>
             rs_fail R err ''Redis stream connection error'' (st\<lparr>rs_hosts := m\<rparr>)))"

fun rs_loop ::
  "('o, 'p) entry_env \<Rightarrow> ('e, 'k) error_env \<Rightarrow> string \<Rightarrow> string \<Rightarrow> ('c, 'k) rs_state \<Rightarrow>
     ('l, 'c, 'e, 'o) rs_turn list \<Rightarrow> effect list \<times> ('c, 'k) rs_state loop_status" where
  "rs_loop V R host topic st [] = ([], Continue st)"
| "rs_loop V R host topic st (a # as) =
     (case rs_attempt V R host topic st a of
        (es, Continue st') \<Rightarrow>
          (es @ fst (rs_loop V R host topic st' as), snd (rs_loop V R host topic st' as))
      | (es, r) \<Rightarrow> (es, r))"

definition rs_start_stream ::
  "('o, 'p) entry_env \<Rightarrow> ('e, 'k) error_env \<Rightarrow> string \<Rightarrow> string \<Rightarrow> 'c host_map \<Rightarrow>
     ('l, 'c, 'e, 'o) rs_turn list \<Rightarrow> effect list \<times> ('c, 'k) rs_state loop_status" where
  "rs_start_stream V R host topic m as =
     rs_loop V R host topic \<lparr>rs_outage = outage_default, rs_hosts = m, rs_cancelled = False\<rparr> as"

section \<open>Lemmas\<close>

subsection \<open>Polling\<close>

text \<open>The message an entry becomes, if it does.\<close>

definition entry_message :: "('o, 'p) entry_env \<Rightarrow> 'o stream_id \<Rightarrow> byte_message option" where
  "entry_message V entry =
     (case stream_entry_to_byte_message (entry_lib V) (entry_to_vec V) entry of
        Inr message \<Rightarrow> Some message | Inl _ \<Rightarrow> None)"

lemma monitor_entries_latest:
  "fst (monitor_entries V i es) = last (i # map sid_id es)"
  by (induction es arbitrary: i) (auto simp: Let_def case_prod_unfold)

lemma monitor_entries_effects:
  "sends (snd (monitor_entries V i es)) = List.map_filter (entry_message V) es"
  "sleeps (snd (monitor_entries V i es)) = []"
  "error_logs (snd (monitor_entries V i es)) = []"
  "warn_logs (snd (monitor_entries V i es)) =
     map (\<lambda>e. ''Failed to convert message: '' @ entry_debug V e) (filter (\<lambda>e. entry_message V e = None) es)"
  by (induction es arbitrary: i)
    (auto simp: Let_def case_prod_unfold entry_message_def split: sum.splits)

lemma monitor_loop_XReply:
  "monitor_loop V topic i (XReply keys # evs) =
     (let rest = monitor_loop V topic (last (i # map sid_id (concat (map snd keys)))) evs
      in (Xread READ_BLOCK_TIME_MS topic i # fst rest,
          snd (monitor_entries V i (concat (map snd keys))) @ fst (snd rest), snd (snd rest)))"
  by (simp add: Let_def case_prod_unfold monitor_entries_latest del: last.simps)

declare monitor_loop.simps(4) [simp del]

lemma monitor_loop_sleeps: "sleeps (fst (snd (monitor_loop V topic i evs))) = []"
proof (induction evs arbitrary: i)
  case (Cons ev evs)
  then show ?case
    by (cases ev) (simp_all add: monitor_loop_XReply Let_def monitor_entries_effects del: last.simps)
qed simp

lemma monitor_stream_sleeps: "sleeps (fst (snd (monitor_stream V topic evs))) = []"
  by (simp add: monitor_stream_def monitor_loop_sleeps)

text \<open>The entries of the replies up to the event that ends the loop.\<close>

fun received :: "('o, 'e) xread_event list \<Rightarrow> 'o stream_id list" where
  "received (XReply keys # evs) = concat (map snd keys) @ received evs"
| "received _ = []"

lemma monitor_loop_sends:
  "sends (fst (snd (monitor_loop V topic i evs))) = List.map_filter (entry_message V) (received evs)"
proof (induction evs arbitrary: i)
  case (Cons ev evs)
  then show ?case
    by (cases ev) (simp_all add: monitor_loop_XReply Let_def monitor_entries_effects del: last.simps)
qed simp

lemma monitor_loop_warns:
  "warn_logs (fst (snd (monitor_loop V topic i evs))) =
     map (\<lambda>e. ''Failed to convert message: '' @ entry_debug V e)
       (filter (\<lambda>e. entry_message V e = None) (received evs))"
proof (induction evs arbitrary: i)
  case (Cons ev evs)
  then show ?case
    by (cases ev) (simp_all add: monitor_loop_XReply Let_def monitor_entries_effects del: last.simps)
qed simp

text \<open>The identifiers polled for: each poll asks for what follows the last entry seen so far.\<close>

fun polled_ids :: "string \<Rightarrow> ('o, 'e) xread_event list \<Rightarrow> string list" where
  "polled_ids i (XReply keys # evs) =
     i # polled_ids (last (i # map sid_id (concat (map snd keys)))) evs"
| "polled_ids i _ = [i]"

lemma monitor_loop_commands:
  "fst (monitor_loop V topic i evs) = map (Xread READ_BLOCK_TIME_MS topic) (polled_ids i evs)"
proof (induction evs arbitrary: i)
  case (Cons ev evs)
  then show ?case
    by (cases ev) (simp_all add: monitor_loop_XReply Let_def del: last.simps)
qed simp

subsection \<open>Attempts\<close>

definition rs_inv :: "('c, 'k) rs_state \<Rightarrow> bool" where
  "rs_inv st = outage_inv (rs_outage st)"

lemma rs_fail_cases:
  assumes "outage_inv (rs_outage st)"
  obtains es o' d where "rs_fail R err c st = (es, Continue (st\<lparr>rs_outage := o'\<rparr>))"
    and "outage_inv o'" and "sleeps es = [d]" and "INITIAL_BACKOFF \<le> d" and "d \<le> MAX_BACKOFF"
    and "sends es = []"
  using assms by (rule backoff.on_err_cases [of _ "error_kind R err" "error_debug R err" c])
    (simp add: rs_fail_def)

lemma rs_attempt_contract:
  assumes "rs_inv st"
  shows "status_ok rs_inv (snd (rs_attempt V R host topic st a)) \<and>
    (sleeps (fst (rs_attempt V R host topic st a)) = [] \<or>
      (\<exists>d. sleeps (fst (rs_attempt V R host topic st a)) = [d] \<and> INITIAL_BACKOFF \<le> d \<and> d \<le> MAX_BACKOFF))"
proof (cases a)
  case TokenCancelled
  then show ?thesis by simp
next
  case (Attempt t)
  obtain c m where g: "get_connection (att_open t) (att_connect t) host (att_before t (rs_hosts st)) = (c, m)"
    by fastforce
  obtain cs es x where mon: "monitor_stream V topic (att_events t) = (cs, es, x)"
    by (metis prod_cases3)
  have quiet: "sleeps es = []"
    using monitor_stream_sleeps [of V topic "att_events t"] by (simp add: mon)
  obtain rec where rec: "on_recovery (rs_outage st) = (rec, outage_default)"
    by (metis on_recovery_default prod.collapse)
  let ?logs = "if rec then [LogInfo (''Redis stream recovered for '' @ host)] else []"
  have logs: "sleeps ?logs = []" by simp
  show ?thesis
  proof (cases "rs_cancelled st")
    case True
    with Attempt show ?thesis by simp
  next
    case alive: False
    show ?thesis
    proof (cases c)
      case (Inl err)
      from assms have "outage_inv (rs_outage (st\<lparr>rs_hosts := m\<rparr>))" by (simp add: rs_inv_def)
      then show ?thesis
        by (rule rs_fail_cases [of _ R err "''Redis stream connection error''"])
          (use Attempt alive g Inl in \<open>simp add: rs_inv_def\<close>)
    next
      case (Inr conn)
      let ?st = "st\<lparr>rs_outage := outage_default, rs_hosts := att_during t m\<rparr>"
      show ?thesis
      proof (cases x)
        case (MonitorErr err)
        have "outage_inv (rs_outage (?st\<lparr>rs_hosts := evict_connection host (rs_hosts ?st)\<rparr>))"
          by (simp add: outage_inv_default)
        then show ?thesis
          by (rule rs_fail_cases [of _ R err "''Redis stream XREAD error''"])
            (use Attempt alive g Inr mon rec MonitorErr quiet in \<open>simp add: rs_inv_def Let_def\<close>)
      qed (use Attempt alive g Inr mon rec quiet in \<open>simp_all add: rs_inv_def Let_def outage_inv_default\<close>)
    qed
  qed
qed

text \<open>
  Turns that do not leave the task waiting, and turns that cannot connect: opening or connecting
  fails and nobody else puts a connection to the host into the map.
\<close>

fun rs_ended :: "('l, 'c, 'e, 'o) rs_turn \<Rightarrow> bool" where
  "rs_ended TokenCancelled = True"
| "rs_ended (Attempt a) \<longleftrightarrow> XCancelled \<in> set (att_events a) \<or> (\<exists>e. XError e \<in> set (att_events a))"

definition rs_fails ::
  "('e, 'k) error_env \<Rightarrow> string \<Rightarrow> ('l, 'c, 'e, 'o) rs_turn \<Rightarrow> 'k \<Rightarrow> string \<Rightarrow> string \<Rightarrow> bool" where
  "rs_fails R host a k e c \<longleftrightarrow>
     (\<exists>t err. a = Attempt t \<and> res_bind (att_open t host) (att_connect t) = Inl err \<and>
        (\<forall>m. hm_get m host = None \<longrightarrow> hm_get (att_before t m) host = None) \<and>
        k = error_kind R err \<and> e = error_debug R err \<and> c = ''Redis stream connection error'')"

lemma monitor_loop_ends:
  "XCancelled \<in> set evs \<or> (\<exists>e. XError e \<in> set evs) \<Longrightarrow> snd (snd (monitor_loop V topic i evs)) \<noteq> MonitorPending"
proof (induction evs arbitrary: i)
  case (Cons ev evs)
  then show ?case by (cases ev) (auto simp: monitor_loop_XReply Let_def simp del: last.simps)
qed simp

lemma rs_fail_not_waiting: "snd (rs_fail R err c st) \<noteq> Waiting st'"
  by (simp add: rs_fail_def split: prod.splits outcome.splits)

lemma rs_attempt_ends:
  assumes "rs_ended a"
  shows "snd (rs_attempt V R host topic st a) \<noteq> Waiting st'"
proof (cases a)
  case (Attempt t)
  obtain cs es r where m: "monitor_stream V topic (att_events t) = (cs, es, r)" by (metis prod_cases3)
  have "r \<noteq> MonitorPending"
    using assms Attempt monitor_loop_ends [of "att_events t" V topic "''$''"] m by (auto simp: monitor_stream_def)
  then show ?thesis
    using Attempt m
    by (cases "get_connection (att_open t) (att_connect t) host (att_before t (rs_hosts st))")
      (auto simp: rs_fail_not_waiting on_recovery_eq Let_def case_prod_unfold split: sum.splits monitor_result.splits)
qed simp

lemma get_connection_fails:
  "hm_get m host = None \<Longrightarrow> res_bind (opn host) con = Inl err \<Longrightarrow> get_connection opn con host m = (Inl err, m)"
  by (cases "opn host") (auto simp: get_connection_eq_write get_connection_write_eq)

interpretation redis_stream_task: task_loop rs_inv "rs_attempt V R host topic"
  "rs_loop V R host topic" INITIAL_BACKOFF MAX_BACKOFF "\<lambda>a. a = TokenCancelled" rs_ended
  "\<lambda>st. \<not> rs_cancelled st \<and> hm_get (rs_hosts st) host = None" rs_outage "rs_fails R host"
proof
  show "\<exists>s'. rs_attempt V R host topic s a = (fst (on_error (rs_outage s) k e c), Continue s') \<and>
      (\<not> rs_cancelled s' \<and> hm_get (rs_hosts s') host = None) \<and>
      snd (on_error (rs_outage s) k e c) = Ret (rs_outage s')"
    if "rs_inv s" "\<not> rs_cancelled s \<and> hm_get (rs_hosts s) host = None" "rs_fails R host a k e c" for s a k e c
    using that
    by (auto simp: rs_fails_def rs_fail_def rs_inv_def on_error_eq get_connection_fails)
qed (simp_all add: rs_attempt_contract rs_attempt_ends rs_inv_def [symmetric])

section \<open>The server's answers\<close>

text \<open>
  What is documented of \<open>XREAD BLOCK\<close> on one stream without \<open>COUNT\<close>: given the entries
  present when the command arrives and those that arrive before it answers, \<open>$\<close> stands for
  the last entry present, and an entry's identifier asks for everything after that entry.
\<close>

definition xread_documented :: "('o stream_id list \<Rightarrow> string \<Rightarrow> 'o stream_id list \<Rightarrow> 'o stream_id list) \<Rightarrow> bool" where
  "xread_documented srv \<longleftrightarrow>
     (\<forall>log arr. srv log ''$'' arr = arr) \<and>
     (\<forall>pre e post arr. distinct (map sid_id (pre @ e # post @ arr)) \<longrightarrow> sid_id e \<noteq> ''$'' \<longrightarrow>
        srv (pre @ e # post) (sid_id e) arr = post @ arr)"

text \<open>
  The replies a task sees that starts with the given identifier: per poll, \<open>gap\<close> is what is
  added to the stream before the command arrives, \<open>arr\<close> what is added while it waits.
\<close>

fun serve ::
  "('o stream_id list \<Rightarrow> string \<Rightarrow> 'o stream_id list \<Rightarrow> 'o stream_id list) \<Rightarrow> string \<Rightarrow>
     'o stream_id list \<Rightarrow> string \<Rightarrow> ('o stream_id list \<times> 'o stream_id list) list \<Rightarrow> ('o, 'e) xread_event list" where
  "serve srv topic log i [] = []"
| "serve srv topic log i ((gap, arr) # ps) =
     (let ids = srv (log @ gap) i arr
      in XReply (if ids = [] then [] else [(topic, ids)]) #
         serve srv topic (log @ gap @ arr) (last (i # map sid_id ids)) ps)"

lemma xread_after:
  "xread_documented srv \<Longrightarrow> distinct (map sid_id (pre @ e # post @ arr)) \<Longrightarrow> sid_id e \<noteq> ''$'' \<Longrightarrow>
     srv (pre @ e # post) (sid_id e) arr = post @ arr"
  unfolding xread_documented_def by blast

text \<open>Everything added to the stream during a sequence of polls.\<close>

fun added :: "('a list \<times> 'a list) list \<Rightarrow> 'a list" where
  "added [] = []"
| "added ((gap, arr) # ps) = gap @ arr @ added ps"

lemma added_append [simp]: "added (ps @ qs) = added ps @ added qs"
  by (induction ps rule: added.induct) simp_all

lemma serve_followed:
  assumes "xread_documented srv"
    and "distinct (map sid_id (log @ e # post @ added ps))"
    and "\<forall>x \<in> set (e # post @ added ps). sid_id x \<noteq> ''$''"
  shows "received (serve srv topic (log @ e # post) (sid_id e) ps :: ('o, 'e) xread_event list) =
    (if ps = [] then [] else post @ added ps)"
  using assms(2,3)
proof (induction ps arbitrary: log e post)
  case Nil
  then show ?case by simp
next
  case (Cons p ps)
  obtain gap arr where p: "p = (gap, arr)" by (cases p)
  have "distinct (map sid_id (log @ e # (post @ gap) @ arr))"
    using Cons.prems(1) by (simp add: p Int_Un_distrib)
  from xread_after [OF assms(1) this] have ids: "srv (log @ e # post @ gap) (sid_id e) arr = post @ gap @ arr"
    using Cons.prems(2) by simp
  show ?case
  proof (cases "post @ gap @ arr" rule: rev_cases)
    case Nil
    then show ?thesis
      using Cons.IH [of log e "[]"] Cons.prems ids by (simp add: p)
  next
    case (snoc ys y)
    have tail: "post @ gap @ arr @ added ps = ys @ y # added ps"
      using arg_cong [OF snoc, of "\<lambda>z. z @ added ps"] by simp
    have "distinct (map sid_id ((log @ e # ys) @ y # [] @ added ps))"
      using Cons.prems(1) unfolding p added.simps tail by simp
    moreover have "\<forall>x \<in> set (y # [] @ added ps). sid_id x \<noteq> ''$''"
      using Cons.prems(2) unfolding p added.simps tail by simp
    ultimately have "received (serve srv topic ((log @ e # ys) @ y # []) (sid_id y) ps
        :: ('o, 'e) xread_event list) = added ps"
      using Cons.IH [of "log @ e # ys" y "[]"] by (cases "ps = []") simp_all
    then show ?thesis
      using ids snoc by (simp add: p Let_def tail)
  qed
qed

lemma serve_quiet:
  assumes "xread_documented srv" and "\<forall>(g, a) \<in> set quiet. a = []"
  shows "received (serve srv topic log ''$'' (quiet @ ps) :: ('o, 'e) xread_event list) =
    received (serve srv topic (log @ concat (map fst quiet)) ''$'' ps :: ('o, 'e) xread_event list)"
  using assms(2)
proof (induction quiet arbitrary: log)
  case (Cons q quiet)
  have "srv (log @ fst q) ''$'' [] = []"
    using assms(1) by (simp add: xread_documented_def)
  then show ?case
    using Cons by (cases q) auto
qed simp

section \<open>Properties\<close>

lemma polled_ids_nth:
  "n < length (polled_ids i evs) \<Longrightarrow>
     polled_ids i evs ! n = last (i # map sid_id (received (take n evs)))"
proof (induction i evs arbitrary: n rule: polled_ids.induct)
  case (1 i keys evs)
  then show ?case
    by (cases n) (auto simp: last_append)
qed (simp_all)

text \<open>
  Whatever the server, the network and the other tasks do, the Redis Stream task does not
  panic, and it waits at most once per connection attempt, between one and thirty seconds.
\<close>

theorem redis_stream_task_safe:
  "snd (rs_start_stream V R host topic m as) \<noteq> Panicked \<and>
   list_all (\<lambda>d. from_secs 1 \<le> d \<and> d \<le> from_secs 30) (sleeps (fst (rs_start_stream V R host topic m as))) \<and>
   length (sleeps (fst (rs_start_stream V R host topic m as))) \<le> length as"
proof -
  have i: "rs_inv \<lparr>rs_outage = outage_default, rs_hosts = m, rs_cancelled = False\<rparr>"
    by (simp add: rs_inv_def outage_inv_default)
  show ?thesis
    using redis_stream_task.run_ok [OF i, of V R host topic as]
      redis_stream_task.run_sleeps [OF i, of V R host topic as]
    by (auto simp: rs_start_stream_def INITIAL_BACKOFF_def MAX_BACKOFF_def)
qed

text \<open>
  On an established connection each poll asks for what follows the last entry seen so far,
  and before any entry for what follows \<open>$\<close>; the messages sent are the conversions of the
  received entries in their order, and every entry that does not convert is logged and skipped.
\<close>

theorem redis_stream_polling:
  "monitor_stream V topic evs = (cs, es, r) \<Longrightarrow>
     list_all (\<lambda>c. xread_block c = 250 \<and> xread_key c = topic) cs \<and>
     (\<forall>n < length cs. xread_id (cs ! n) = last (''$'' # map sid_id (received (take n evs)))) \<and>
     sends es = List.map_filter (entry_message V) (received evs) \<and>
     warn_logs es = map (\<lambda>e. ''Failed to convert message: '' @ entry_debug V e)
       (filter (\<lambda>e. entry_message V e = None) (received evs))"
  using monitor_loop_commands [of V topic "''$''" evs] monitor_loop_sends [of V topic "''$''" evs]
    monitor_loop_warns [of V topic "''$''" evs]
  by (simp add: monitor_stream_def list_all_iff polled_ids_nth READ_BLOCK_TIME_MS_def)

text \<open>Libraries that convert every value to the same text, for the witnesses.\<close>

definition example_env :: "(unit, string) entry_env" where
  "example_env =
     \<lparr>entry_lib = \<lparr>from_redis_value = (\<lambda>_. Inr ''x''), parsing_error = id, parsing_error_debug = id\<rparr>,
      entry_to_vec = (\<lambda>_. Inr [7]), entry_debug = (\<lambda>_. [])\<rparr>"

theorem redis_stream_polling_witness:
  "\<exists>cs es r. monitor_stream example_env ''t'' [XReply [], XReply [(''t'', [entry_of_fields ''2-0'' []])], XError ()] = (cs, es, r) \<and>
     xread_id (cs ! 2) = ''2-0'' \<and> length cs = 3"
proof -
  let ?evs = "[XReply [], XReply [(''t'', [entry_of_fields ''2-0'' []])], XError ()]
    :: (unit, unit) xread_event list"
  obtain cs es r where m: "monitor_stream example_env ''t'' ?evs = (cs, es, r)"
    by (metis prod_cases3)
  moreover have len: "length cs = 3"
    using monitor_loop_commands [of example_env "''t''" "''$''" ?evs] m by (simp add: monitor_stream_def)
  moreover have "xread_id (cs ! 2) = ''2-0''"
    using redis_stream_polling [OF m] len by (simp add: entry_of_fields_def numeral_2_eq_2)
  ultimately show ?thesis by blast
qed

lemma received_from_first:
  assumes "xread_documented srv"
    and "\<forall>(g, a) \<in> set quiet. a = []"
    and "arr \<noteq> []"
    and "distinct (map sid_id (log @ added (quiet @ (gap, arr) # ps)))"
    and "\<forall>x \<in> set (added (quiet @ (gap, arr) # ps)). sid_id x \<noteq> ''$''"
  shows "received (serve srv topic log ''$'' (quiet @ (gap, arr) # ps) :: ('o, 'e) xread_event list) = arr @ added ps"
proof -
  let ?log = "log @ concat (map fst quiet) @ gap"
  have quiet: "added quiet = concat (map fst quiet)"
    using assms(2) by (induction quiet rule: added.induct) auto
  have first: "srv ?log ''$'' arr = arr"
    using assms(1) by (simp add: xread_documented_def)
  obtain ys y where arr: "arr = ys @ [y]"
    using assms(3) by (cases arr rule: rev_cases) auto
  have "distinct (map sid_id ((?log @ ys) @ y # [] @ added ps))"
    using assms(4) by (simp add: quiet arr)
  then have "received (serve srv topic ((?log @ ys) @ y # []) (sid_id y) ps :: ('o, 'e) xread_event list) = added ps"
    by (subst serve_followed [OF assms(1)]) (use assms(5) in \<open>auto simp: arr\<close>)
  then show ?thesis
    using assms(3) first by (simp add: serve_quiet [OF assms(1,2)] arr Let_def)
qed

text \<open>
  C14: Against a server that behaves as documented, nothing is lost and nothing repeated from the
  first entry received on: after polls that brought nothing, the entries received are those that
  arrived during the first successful poll followed by everything added later, between polls or
  during them. What was added between polls before that is not delivered.
\<close>

theorem redis_stream_follows_log:
  assumes "xread_documented srv"
    and "\<forall>(g, a) \<in> set quiet. a = []"
    and "arr \<noteq> []"
    and "distinct (map sid_id (log @ added (quiet @ (gap, arr) # ps)))"
    and "\<forall>x \<in> set (added (quiet @ (gap, arr) # ps)). sid_id x \<noteq> ''$''"
  shows "sends (fst (snd (monitor_stream V topic 
      (serve srv topic log ''$'' (quiet @ (gap, arr) # ps) :: ('o, 'e) xread_event list)))) =
    List.map_filter (entry_message V) (arr @ added ps)"
  using received_from_first [OF assms, of topic, where 'e = 'e]
  by (simp add: monitor_stream_def monitor_loop_sends)

text \<open>A server that behaves as documented, for the witness.\<close>

definition example_server :: "'o stream_id list \<Rightarrow> string \<Rightarrow> 'o stream_id list \<Rightarrow> 'o stream_id list" where
  "example_server log i arr =
     (if i = ''$'' then arr else tl (dropWhile (\<lambda>e. sid_id e \<noteq> i) log) @ arr)"

lemma example_server_documented: "xread_documented example_server"
proof -
  have "dropWhile (\<lambda>x. sid_id x \<noteq> sid_id e) (pre @ e # post) = e # post"
    if "sid_id e \<notin> sid_id ` set pre" for pre :: "'a stream_id list" and e post
    using that by (induction pre) auto
  then show ?thesis
    by (auto simp: xread_documented_def example_server_def)
qed

theorem redis_stream_follows_log_witness:
  "sends (fst (snd (monitor_stream example_env ''t''
      (serve example_server ''t'' [entry_of_fields ''1-0'' []] ''$''
        ([([entry_of_fields ''2-0'' []], [])] @ ([], [entry_of_fields ''3-0'' []]) #
         [([entry_of_fields ''4-0'' []], [entry_of_fields ''5-0'' []])]) :: (unit, unit) xread_event list)))) =
    [byte_from_value [7], byte_from_value [7], byte_from_value [7]]"
  by (subst redis_stream_follows_log [OF example_server_documented])
    (simp_all add: example_env_def entry_of_fields_def entry_message_def stream_entry_to_byte_message_def
      redis_value_to_byte_message_def redis_value_to_json_bytes_def stream_entry_to_redis_value_def
      json_value_to_bytes_def)

text \<open>
  When a poll fails, the cached connection is evicted, so that the next attempt opens a new
  one (unless another task has), and the failure counts as the first of a new outage: its line is
  logged and the wait is the initial one.
\<close>

theorem redis_stream_poll_failure:
  assumes "\<not> rs_cancelled st"
    and "get_connection (att_open a) (att_connect a) host (att_before a (rs_hosts st)) = (Inr conn, m)"
    and "monitor_stream V topic (att_events a) = (cs, es, MonitorErr err)"
  shows "\<exists>st'. rs_attempt V R host topic st (Attempt a) =
      ((if is_in_outage (rs_outage st) then [LogInfo (''Redis stream recovered for '' @ host)] else []) @ es @
         [LogError (''Redis stream XREAD error: '' @ error_debug R err), Sleep (from_secs 1)],
       Continue st') \<and>
    hm_get (rs_hosts st') host = None \<and>
    rs_outage st' = \<lparr>last_error_kind = Some (error_kind R err), next_backoff = from_secs 2\<rparr> \<and>
    get_connection opn con host (rs_hosts st') =
      (case res_bind (opn host) con of
         Inl e \<Rightarrow> (Inl e, rs_hosts st')
       | Inr conn' \<Rightarrow> (Inr conn', hm_insert (rs_hosts st') host conn'))"
  using assms
  by (simp add: on_recovery_eq rs_fail_def on_error_eq [OF outage_inv_default] evict_connection_def
      get_connection_eq_write get_connection_write_eq Let_def)
    (simp add: outage_default_def backoff_consts split: sum.splits)

theorem redis_stream_poll_failure_witness:
  "\<exists>es st'. rs_attempt example_env \<lparr>error_kind = id, error_debug = (\<lambda>_. ''broken'')\<rparr> ''h'' ''t''
      \<lparr>rs_outage = outage_default, rs_hosts = [(''h'', ())], rs_cancelled = False\<rparr>
      (Attempt \<lparr>att_open = Inr, att_connect = (\<lambda>_. Inr ()), att_events = [XError ''io''],
         att_before = id, att_during = id\<rparr>) = (es, Continue st') \<and>
    hm_get (rs_hosts st') ''h'' = None \<and>
    rs_outage st' = \<lparr>last_error_kind = Some ''io'', next_backoff = from_secs 2\<rparr>"
proof -
  let ?a = "\<lparr>att_open = Inr, att_connect = (\<lambda>_. Inr ()), att_events = [XError ''io''],
         att_before = id, att_during = id\<rparr> :: (string, unit, string, unit) rs_try"
  let ?st = "\<lparr>rs_outage = outage_default, rs_hosts = [(''h'', ())], rs_cancelled = False\<rparr> :: (unit, string) rs_state"
  have g: "get_connection (att_open ?a) (att_connect ?a) ''h'' (att_before ?a (rs_hosts ?st)) = (Inr (), [(''h'', ())])"
    by (simp add: get_connection_def get_connection_read_def hm_get_def)
  have m: "monitor_stream example_env ''t'' (att_events ?a) = ([Xread 250 ''t'' ''$''], [], MonitorErr ''io'')"
    by (simp add: monitor_stream_def READ_BLOCK_TIME_MS_def)
  show ?thesis
    using redis_stream_poll_failure [OF _ g m, of "\<lparr>error_kind = id, error_debug = (\<lambda>_. ''broken'')\<rparr>"]
    by (simp only: rs_state.simps error_env.simps id_apply) blast
qed

text \<open>
  A cancellation that interrupts a poll ends the task: what was received before is sent, and
  whatever would come next the loop returns without doing anything more.
\<close>

theorem redis_stream_cancelled:
  assumes "\<not> rs_cancelled st"
    and "get_connection (att_open a) (att_connect a) host (att_before a (rs_hosts st)) = (Inr conn, m)"
    and "monitor_stream V topic (att_events a) = (cs, es, MonitorCancelled)"
  shows "rs_loop V R host topic st (Attempt a # b # bs) =
    ((if is_in_outage (rs_outage st) then [LogInfo (''Redis stream recovered for '' @ host)] else []) @ es,
     Returned)"
proof -
  have "rs_attempt V R host topic st' b = ([], Returned)" if "rs_cancelled st'" for st'
    using that by (cases b) simp_all
  with assms show ?thesis
    by (simp add: on_recovery_def Let_def)
qed

theorem redis_stream_cancelled_witness:
  "snd (rs_loop example_env \<lparr>error_kind = id, error_debug = id\<rparr> ''h'' ''t''
      \<lparr>rs_outage = outage_default, rs_hosts = [(''h'', ())], rs_cancelled = False\<rparr>
      [Attempt \<lparr>att_open = Inr, att_connect = (\<lambda>_. Inr ()), att_events = [XReply [], XCancelled],
         att_before = id, att_during = id\<rparr>, TokenCancelled]) = Returned"
proof -
  let ?a = "\<lparr>att_open = Inr, att_connect = (\<lambda>_. Inr ()), att_events = [XReply [], XCancelled],
         att_before = id, att_during = id\<rparr> :: (string, unit, string, unit) rs_try"
  let ?st = "\<lparr>rs_outage = outage_default, rs_hosts = [(''h'', ())], rs_cancelled = False\<rparr> :: (unit, string) rs_state"
  have g: "get_connection (att_open ?a) (att_connect ?a) ''h'' (att_before ?a (rs_hosts ?st)) = (Inr (), [(''h'', ())])"
    by (simp add: get_connection_def get_connection_read_def hm_get_def)
  have m: "monitor_stream example_env ''t'' (att_events ?a) =
      ([Xread 250 ''t'' ''$'', Xread 250 ''t'' ''$''], [], MonitorCancelled)"
    by (simp add: monitor_stream_def monitor_loop_XReply READ_BLOCK_TIME_MS_def Let_def)
  show ?thesis
    by (subst redis_stream_cancelled [OF _ g m]) simp_all
qed

end
