(* ===== verification/Kafka_Runtime.thy ===== *)
theory Kafka_Runtime
  imports Kafka Reconnect
begin

text \<open>
  The background task of the Kafka subscriber, \<^verbatim>\<open>src/src/kafka_impl/runtime/mod.rs\<close>: the loop
  \<open>monitor_stream\<close> over the messages of one consumer, with its own \<open>OutageState\<close>, and the
  reconnect loop \<open>start_stream\<close>. The results of the client library are the events they run over.
\<close>

section \<open>Monitoring\<close>

definition runtime_convert_to_message :: "kafka_msg \<Rightarrow> byte_message option" where
  "runtime_convert_to_message incoming =
     map_option (\<lambda>value_bytes. byte_from_bytes (km_key incoming) value_bytes) (km_payload incoming)"

text \<open>
  What ends the wait for the next item: an item, the end of the stream, or the cancellation,
  which drops the loop (\<open>run_until_cancelled\<close>).
\<close>

datatype 'e monitor_event = Next "'e + kafka_msg" | End | MonCancelled

datatype kafka_monitor_result = MonitorEnded | MonCancelledResult | MonitorWaits

text \<open>
  What is used of the client library: the discriminant and \<open>Debug\<close> of errors, and the \<open>Debug\<close>
  of messages.
\<close>

record ('e, 'k) kafka_debug =
  kd_discriminant :: "'e \<Rightarrow> 'k"
  kd_error :: "'e \<Rightarrow> string"
  kd_message :: "kafka_msg \<Rightarrow> string"

fun kafka_monitor_loop ::
  "('e, 'k) kafka_debug \<Rightarrow> 'k outage_state \<Rightarrow> 'e monitor_event list \<Rightarrow> effect list \<times> kafka_monitor_result" where
  "kafka_monitor_loop D stream_outage [] = ([], MonitorWaits)"
| "kafka_monitor_loop D stream_outage (End # evs) = ([], MonitorEnded)"
| "kafka_monitor_loop D stream_outage (MonCancelled # evs) = ([], MonCancelledResult)"
| "kafka_monitor_loop D stream_outage (Next (Inr msg) # evs) =
     (let (recovered, o') = on_recovery stream_outage;
          logs = (if recovered then [LogInfo ''Kafka stream recovered''] else []);
          es = (case runtime_convert_to_message msg of
                  Some message \<Rightarrow> [Send message]
                | None \<Rightarrow> [LogWarn (''Failed to convert message: '' @ kd_message D msg)]);
          (fs, r) = kafka_monitor_loop D o' evs
      in (logs @ es @ fs, r))"
| "kafka_monitor_loop D stream_outage (Next (Inl e) # evs) =
     (let (_, o', es) = record_error stream_outage (kd_discriminant D e) (kd_error D e) ''Kafka stream error'';
          (fs, r) = kafka_monitor_loop D o' evs
      in (es @ fs, r))"

definition kafka_monitor_stream ::
  "('e, 'k) kafka_debug \<Rightarrow> 'e monitor_event list \<Rightarrow> effect list \<times> kafka_monitor_result" where
  "kafka_monitor_stream D evs = kafka_monitor_loop D outage_default evs"

section \<open>Reconnect loop\<close>

record 'k kr_state =
  kr_outage :: "'k outage_state"
  kr_cancelled :: bool

text \<open>One attempt: the outcomes of making and subscribing the consumer and the events on it.\<close>

record ('c, 'e) kr_try =
  kt_create :: "(string \<times> string) list \<Rightarrow> 'e + 'c"
  kt_subscribe :: "'c \<Rightarrow> string list \<Rightarrow> 'e + unit"
  kt_events :: "'e monitor_event list"

datatype ('c, 'e) kr_turn = KrCancelled | KrAttempt "('c, 'e) kr_try"

text \<open>\<open>testing\<close> says whether the crate is built for tests, which adds one setting.\<close>

definition kafka_builder :: "bool \<Rightarrow> string \<Rightarrow> string \<Rightarrow> (string \<times> string) list" where
  "kafka_builder testing host stream_id =
     [(''bootstrap.servers'', host), (''group.id'', stream_id)] @
     (if testing then [(''auto.offset.reset'', ''earliest'')] else [])"

definition kr_fail ::
  "('e, 'k) kafka_debug \<Rightarrow> 'e \<Rightarrow> string \<Rightarrow> 'k kr_state \<Rightarrow> effect list \<times> 'k kr_state loop_status" where
  "kr_fail D err context st =
     (case on_error (kr_outage st) (kd_discriminant D err) (kd_error D err) context of
        (es, Panic) \<Rightarrow> (es, Panicked)
      | (es, Ret o') \<Rightarrow> (es, Continue (st\<lparr>kr_outage := o'\<rparr>)))"

fun kr_attempt ::
  "('e, 'k) kafka_debug \<Rightarrow> bool \<Rightarrow> string \<Rightarrow> string \<Rightarrow> string \<Rightarrow> 'k kr_state \<Rightarrow> ('c, 'e) kr_turn \<Rightarrow>
     effect list \<times> 'k kr_state loop_status" where
  "kr_attempt D testing stream_id host topic st KrCancelled = ([], Returned)"
| "kr_attempt D testing stream_id host topic st (KrAttempt a) =
     (if kr_cancelled st then ([], Returned)
      else
        (case kt_create a (kafka_builder testing host stream_id) of
           Inr consumer \<Rightarrow>
             (case kt_subscribe a consumer [topic] of
                Inl e \<Rightarrow> kr_fail D e ''Kafka subscription error'' st
              | Inr _ \<Rightarrow>
                  (let (recovered, o') = on_recovery (kr_outage st);
                       logs = (if recovered then [LogInfo (''Kafka stream reconnected to '' @ host)] else []);
                       (es, r) = kafka_monitor_stream D (kt_events a);
                       st' = st\<lparr>kr_outage := o'\<rparr>
                   in (logs @ es,
                       case r of
                         MonitorEnded \<Rightarrow> Continue st'
                       | MonCancelledResult \<Rightarrow> Continue (st'\<lparr>kr_cancelled := True\<rparr>)
                       | MonitorWaits \<Rightarrow> Waiting st')))
         | Inl e \<Rightarrow> kr_fail D e ''Kafka consumer creation error'' st))"

fun kr_loop ::
  "('e, 'k) kafka_debug \<Rightarrow> bool \<Rightarrow> string \<Rightarrow> string \<Rightarrow> string \<Rightarrow> 'k kr_state \<Rightarrow> ('c, 'e) kr_turn list \<Rightarrow>
     effect list \<times> 'k kr_state loop_status" where
  "kr_loop D testing stream_id host topic st [] = ([], Continue st)"
| "kr_loop D testing stream_id host topic st (a # as) =
     (case kr_attempt D testing stream_id host topic st a of
        (es, Continue st') \<Rightarrow>
          (es @ fst (kr_loop D testing stream_id host topic st' as),
           snd (kr_loop D testing stream_id host topic st' as))
      | (es, r) \<Rightarrow> (es, r))"

definition kr_start_stream ::
  "('e, 'k) kafka_debug \<Rightarrow> bool \<Rightarrow> string \<Rightarrow> string \<Rightarrow> string \<Rightarrow> ('c, 'e) kr_turn list \<Rightarrow>
     effect list \<times> 'k kr_state loop_status" where
  "kr_start_stream D testing uuid host topic as =
     kr_loop D testing uuid host topic \<lparr>kr_outage = outage_default, kr_cancelled = False\<rparr> as"

section \<open>Lemmas\<close>

text \<open>The items before the stream ends, and the calls on \<open>OutageState\<close> they cause.\<close>

fun items :: "'e monitor_event list \<Rightarrow> ('e + kafka_msg) list" where
  "items (Next x # evs) = x # items evs"
| "items _ = []"

definition item_op :: "('e, 'k) kafka_debug \<Rightarrow> 'e + kafka_msg \<Rightarrow> 'k outage_op" where
  "item_op D x =
     (case x of
        Inl e \<Rightarrow> RecordError (kd_discriminant D e) (kd_error D e) ''Kafka stream error''
      | Inr _ \<Rightarrow> OnRecovery)"

definition item_message :: "'e + kafka_msg \<Rightarrow> byte_message option" where
  "item_message x = (case x of Inl _ \<Rightarrow> None | Inr msg \<Rightarrow> runtime_convert_to_message msg)"

lemma kafka_monitor_Ok:
  "kafka_monitor_loop D st (Next (Inr msg) # evs) =
     ((if is_in_outage st then [LogInfo ''Kafka stream recovered''] else []) @
      (case runtime_convert_to_message msg of
         Some message \<Rightarrow> [Send message]
       | None \<Rightarrow> [LogWarn (''Failed to convert message: '' @ kd_message D msg)]) @
      fst (kafka_monitor_loop D outage_default evs),
      snd (kafka_monitor_loop D outage_default evs))"
  by (simp add: on_recovery_eq Let_def case_prod_unfold)

lemma kafka_monitor_Err:
  "kafka_monitor_loop D st (Next (Inl e) # evs) =
     (let (_, o', es) = record_error st (kd_discriminant D e) (kd_error D e) ''Kafka stream error''
      in (es @ fst (kafka_monitor_loop D o' evs), snd (kafka_monitor_loop D o' evs)))"
  by (simp add: Let_def case_prod_unfold)

declare kafka_monitor_loop.simps(4,5) [simp del]

lemma kafka_monitor_sends:
  "sends (fst (kafka_monitor_loop D st evs)) = List.map_filter item_message (items evs)"
proof (induction D st evs rule: kafka_monitor_loop.induct)
  case (4 D st msg evs)
  then show ?case
    by (simp add: kafka_monitor_Ok item_message_def on_recovery_eq split: option.splits)
next
  case (5 D st e evs)
  obtain b o' es where r: "record_error st (kd_discriminant D e) (kd_error D e) ''Kafka stream error'' = (b, o', es)"
    by (metis prod_cases3)
  with 5 show ?case
    by (simp add: kafka_monitor_Err item_message_def record_error_effects [OF r])
qed simp_all

lemma kafka_monitor_sleeps: "sleeps (fst (kafka_monitor_loop D st evs)) = []"
proof (induction D st evs rule: kafka_monitor_loop.induct)
  case (4 D st msg evs)
  then show ?case
    by (simp add: kafka_monitor_Ok on_recovery_eq split: option.splits)
next
  case (5 D st e evs)
  obtain b o' es where r: "record_error st (kd_discriminant D e) (kd_error D e) ''Kafka stream error'' = (b, o', es)"
    by (metis prod_cases3)
  with 5 show ?case
    by (simp add: kafka_monitor_Err record_error_effects [OF r])
qed simp_all

lemma kafka_monitor_error_logs:
  "error_logs (fst (kafka_monitor_loop D st evs)) = error_logs (fst (outage_run st (map (item_op D) (items evs))))"
proof (induction D st evs rule: kafka_monitor_loop.induct)
  case (4 D st msg evs)
  then show ?case
    by (simp add: kafka_monitor_Ok item_op_def on_recovery_eq outage_run_Cons [of st OnRecovery "[]" outage_default]
        split: option.splits)
next
  case (5 D st e evs)
  obtain b o' es where r: "record_error st (kd_discriminant D e) (kd_error D e) ''Kafka stream error'' = (b, o', es)"
    by (metis prod_cases3)
  with 5 show ?case
    by (simp add: kafka_monitor_Err item_op_def
        outage_run_Cons [of st "RecordError (kd_discriminant D e) (kd_error D e) ''Kafka stream error''" es o'])
qed simp_all

lemma kafka_monitor_warns:
  "warn_logs (fst (kafka_monitor_loop D st evs)) =
     map (\<lambda>m. ''Failed to convert message: '' @ kd_message D m)
       (filter (\<lambda>m. km_payload m = None) (List.map_filter (\<lambda>x. case x of Inr m \<Rightarrow> Some m | Inl _ \<Rightarrow> None) (items evs)))"
proof (induction D st evs rule: kafka_monitor_loop.induct)
  case (4 D st msg evs)
  then show ?case
    by (simp add: kafka_monitor_Ok runtime_convert_to_message_def on_recovery_eq split: option.splits)
next
  case (5 D st e evs)
  obtain b o' es where r: "record_error st (kd_discriminant D e) (kd_error D e) ''Kafka stream error'' = (b, o', es)"
    by (metis prod_cases3)
  with 5 show ?case
    by (simp add: kafka_monitor_Err record_error_effects [OF r])
qed simp_all

definition kr_inv :: "'k kr_state \<Rightarrow> bool" where
  "kr_inv st = outage_inv (kr_outage st)"

lemma kr_fail_cases:
  assumes "kr_inv st"
  obtains es o' d where "kr_fail D err c st = (es, Continue (st\<lparr>kr_outage := o'\<rparr>))"
    and "outage_inv o'" and "sleeps es = [d]" and "INITIAL_BACKOFF \<le> d" and "d \<le> MAX_BACKOFF"
  using assms unfolding kr_inv_def
  by (rule backoff.on_err_cases [of _ "kd_discriminant D err" "kd_error D err" c]) (simp add: kr_fail_def)

lemma kr_fail_contract:
  assumes "kr_inv st"
  shows "status_ok kr_inv (snd (kr_fail D err c st)) \<and>
    (\<exists>d. sleeps (fst (kr_fail D err c st)) = [d] \<and> INITIAL_BACKOFF \<le> d \<and> d \<le> MAX_BACKOFF)"
  by (rule kr_fail_cases [OF assms, of D err c]) (simp add: kr_inv_def)

lemma kr_attempt_contract:
  assumes "kr_inv st"
  shows "status_ok kr_inv (snd (kr_attempt D testing i host topic st a)) \<and>
    (sleeps (fst (kr_attempt D testing i host topic st a)) = [] \<or>
      (\<exists>d. sleeps (fst (kr_attempt D testing i host topic st a)) = [d] \<and> INITIAL_BACKOFF \<le> d \<and> d \<le> MAX_BACKOFF))"
proof (cases a)
  case (KrAttempt t)
  obtain es r where m: "kafka_monitor_stream D (kt_events t) = (es, r)" by fastforce
  have "sleeps es = []"
    using kafka_monitor_sleeps [of D outage_default "kt_events t"] m by (simp add: kafka_monitor_stream_def)
  then show ?thesis
    using KrAttempt m
    by (simp add: kr_fail_contract [OF assms] on_recovery_eq Let_def kr_inv_def outage_inv_default
        split: sum.splits kafka_monitor_result.splits)
qed simp

text \<open>Turns that do not leave the task waiting, and turns that cannot subscribe.\<close>

fun kr_connects :: "bool \<Rightarrow> string \<Rightarrow> string \<Rightarrow> string \<Rightarrow> ('c, 'e) kr_try \<Rightarrow> bool" where
  "kr_connects testing stream_id host topic a =
     is_ok (res_bind (kt_create a (kafka_builder testing host stream_id)) (\<lambda>c. kt_subscribe a c [topic]))"

fun kr_ended :: "bool \<Rightarrow> string \<Rightarrow> string \<Rightarrow> string \<Rightarrow> ('c, 'e) kr_turn \<Rightarrow> bool" where
  "kr_ended testing stream_id host topic KrCancelled = True"
| "kr_ended testing stream_id host topic (KrAttempt a) \<longleftrightarrow>
     \<not> kr_connects testing stream_id host topic a \<or> End \<in> set (kt_events a) \<or> MonCancelled \<in> set (kt_events a)"

definition kr_fails ::
  "('e, 'k) kafka_debug \<Rightarrow> bool \<Rightarrow> string \<Rightarrow> string \<Rightarrow> string \<Rightarrow> ('c, 'e) kr_turn \<Rightarrow> 'k \<Rightarrow> string \<Rightarrow> string \<Rightarrow> bool" where
  "kr_fails D testing stream_id host topic a k e c \<longleftrightarrow>
     (\<exists>t err. a = KrAttempt t \<and> k = kd_discriminant D err \<and> e = kd_error D err \<and>
        (kt_create t (kafka_builder testing host stream_id) = Inl err \<and> c = ''Kafka consumer creation error'' \<or>
         (\<exists>consumer. kt_create t (kafka_builder testing host stream_id) = Inr consumer \<and>
            kt_subscribe t consumer [topic] = Inl err \<and> c = ''Kafka subscription error'')))"

lemma kafka_monitor_ends:
  "End \<in> set evs \<or> MonCancelled \<in> set evs \<Longrightarrow> snd (kafka_monitor_loop D st evs) \<noteq> MonitorWaits"
proof (induction D st evs rule: kafka_monitor_loop.induct)
  case (4 D st msg evs)
  then show ?case by (simp add: kafka_monitor_Ok on_recovery_eq)
next
  case (5 D st e evs)
  obtain b o' es where r: "record_error st (kd_discriminant D e) (kd_error D e) ''Kafka stream error'' = (b, o', es)"
    by (metis prod_cases3)
  with 5 show ?case by (simp add: kafka_monitor_Err)
qed simp_all

lemma kr_fail_not_waiting: "snd (kr_fail D err c st) \<noteq> Waiting st'"
  by (simp add: kr_fail_def split: prod.splits outcome.splits)

lemma kr_attempt_ends:
  assumes "kr_ended testing i host topic a"
  shows "snd (kr_attempt D testing i host topic st a) \<noteq> Waiting st'"
proof (cases a)
  case (KrAttempt t)
  obtain es r where m: "kafka_monitor_stream D (kt_events t) = (es, r)" by fastforce
  have "r \<noteq> MonitorWaits" if "kr_connects testing i host topic t"
    using assms that KrAttempt kafka_monitor_ends [of "kt_events t" D outage_default] m
    by (auto simp: kafka_monitor_stream_def)
  then show ?thesis
    using KrAttempt m
    by (auto simp: kr_fail_not_waiting on_recovery_eq Let_def split: sum.splits kafka_monitor_result.splits)
qed simp

interpretation kafka_task: task_loop kr_inv "kr_attempt D testing i host topic"
  "kr_loop D testing i host topic" INITIAL_BACKOFF MAX_BACKOFF "\<lambda>a. a = KrCancelled" "kr_ended testing i host topic"
  "\<lambda>st. \<not> kr_cancelled st" kr_outage "kr_fails D testing i host topic"
proof
  show "\<exists>s'. kr_attempt D testing i host topic s a = (fst (on_error (kr_outage s) k e c), Continue s') \<and>
      \<not> kr_cancelled s' \<and> snd (on_error (kr_outage s) k e c) = Ret (kr_outage s')"
    if "kr_inv s" "\<not> kr_cancelled s" "kr_fails D testing i host topic a k e c" for s a k e c
    using that by (auto simp: kr_fails_def kr_fail_def kr_inv_def on_error_eq)
qed (simp_all add: kr_attempt_contract kr_attempt_ends kr_inv_def [symmetric])

section \<open>Properties\<close>

text \<open>
  Whatever the broker and the network do, the Kafka task does not panic, and it waits at most
  once per attempt, between one and thirty seconds.
\<close>

theorem kafka_task_safe:
  "snd (kr_start_stream D testing uuid host topic as) \<noteq> Panicked \<and>
   list_all (\<lambda>d. from_secs 1 \<le> d \<and> d \<le> from_secs 30) (sleeps (fst (kr_start_stream D testing uuid host topic as))) \<and>
   length (sleeps (fst (kr_start_stream D testing uuid host topic as))) \<le> length as"
proof -
  have i: "kr_inv \<lparr>kr_outage = outage_default, kr_cancelled = False\<rparr>"
    by (simp add: kr_inv_def outage_inv_default)
  show ?thesis
    using kafka_task.run_ok [OF i, of D testing uuid host topic as]
      kafka_task.run_sleeps [OF i, of D testing uuid host topic as]
    by (auto simp: kr_start_stream_def INITIAL_BACKOFF_def MAX_BACKOFF_def)
qed

text \<open>
  On one consumer the task sends every message that has a payload, with its key, in the
  order of arrival, never waits, writes one warning per message without payload, and writes its
  error lines as the deduplication of \<open>OutageState\<close> prescribes, every message received counting
  as a recovery.
\<close>

theorem kafka_monitor_forwards:
  "sends (fst (kafka_monitor_stream D evs)) = List.map_filter item_message (items evs) \<and>
   sleeps (fst (kafka_monitor_stream D evs)) = [] \<and>
   warn_logs (fst (kafka_monitor_stream D evs)) =
     map (\<lambda>m. ''Failed to convert message: '' @ kd_message D m)
       (filter (\<lambda>m. km_payload m = None) (List.map_filter (\<lambda>x. case x of Inr m \<Rightarrow> Some m | Inl _ \<Rightarrow> None) (items evs))) \<and>
   error_logs (fst (kafka_monitor_stream D evs)) =
     concat (map (first_of_each_kind None) (error_runs (map (item_op D) (items evs))))"
proof -
  obtain r rs where "error_runs (map (item_op D) (items evs)) = r # rs"
    using error_runs_nonempty [of "map (item_op D) (items evs)"]
    by (cases "error_runs (map (item_op D) (items evs))") auto
  then show ?thesis
    using error_logs_run [OF outage_inv_default, of "map (item_op D) (items evs)"]
    by (simp add: kafka_monitor_stream_def kafka_monitor_sends kafka_monitor_sleeps kafka_monitor_warns
        kafka_monitor_error_logs) (simp add: outage_default_def)
qed

text \<open>
  C37: The task recreates a consumer whose stream ended without any wait: over attempts that
  subscribe and then end, whatever errors their streams reported, it never sleeps.
\<close>

theorem kafka_stream_end_no_backoff:
  assumes "\<forall>a \<in> set as. \<exists>c. kt_create a (kafka_builder testing host uuid) = Inr c \<and>
      is_ok (kt_subscribe a c [topic]) \<and> snd (kafka_monitor_stream D (kt_events a)) = MonitorEnded"
  shows "sleeps (fst (kr_start_stream D testing uuid host topic (map KrAttempt as))) = [] \<and>
    (\<exists>st. snd (kr_start_stream D testing uuid host topic (map KrAttempt as)) = Continue st)"
proof -
  have "sleeps (fst (kr_loop D testing uuid host topic st (map KrAttempt as))) = [] \<and>
      (\<exists>st'. snd (kr_loop D testing uuid host topic st (map KrAttempt as)) = Continue st')"
    if "\<not> kr_cancelled st" for st
    using assms that
  proof (induction as arbitrary: st)
    case (Cons a as)
    obtain c u where c: "kt_create a (kafka_builder testing host uuid) = Inr c" "kt_subscribe a c [topic] = Inr u"
      using Cons.prems(1) by (auto simp: is_ok_iff)
    obtain es where m: "kafka_monitor_stream D (kt_events a) = (es, MonitorEnded)"
      using Cons.prems(1) by (metis list.set_intros(1) prod.collapse)
    have "sleeps es = []"
      using kafka_monitor_sleeps [of D outage_default "kt_events a"] m by (simp add: kafka_monitor_stream_def)
    with c m Cons show ?case
      by (simp add: on_recovery_eq Let_def)
  qed simp
  then show ?thesis by (simp add: kr_start_stream_def)
qed

theorem kafka_stream_end_no_backoff_witness:
  "sleeps (fst (kr_start_stream \<lparr>kd_discriminant = id, kd_error = id, kd_message = (\<lambda>_. [])\<rparr> False ''u'' ''h'' ''t''
     (map KrAttempt (replicate 3 \<lparr>kt_create = (\<lambda>_. Inr ()), kt_subscribe = (\<lambda>_ _. Inr ()),
        kt_events = [Next (Inl ''broken''), End]\<rparr>)))) = []"
  by (rule kafka_stream_end_no_backoff [THEN conjunct1])
    (simp add: kafka_monitor_stream_def kafka_monitor_Err Let_def case_prod_unfold)

end
