(* ===== verification/Subscribers.thy ===== *)
theory Subscribers
  imports Cache Redis_Stream_Runtime Redis_Pubsub Kafka_Runtime
begin

text \<open>
  The three subscribers, \<open>KafkaSubscriber\<close> of \<^verbatim>\<open>src/src/kafka_impl/mod.rs\<close> and the two
  \<open>RedisSubscriber\<close>s of \<^verbatim>\<open>src/src/redis_impls/pubsub/mod.rs\<close> and
  \<^verbatim>\<open>src/src/redis_impls/stream/mod.rs\<close>, and the typed entry point \<open>get_stream\<close> of the cache they
  call. The function a subscriber passes to the cache is its backend's \<open>start_stream\<close>; the
  cache only spawns it, so it is a name here, whose meaning the runtime theories give.
\<close>

section \<open>Subscribers\<close>

datatype stream_task = KafkaStartStream | RedisPubSubStartStream | RedisStreamStartStream

text \<open>A typed stream: the receiver on a channel, and the closure mapped over its items.\<close>

definition get_stream ::
  "('c, 'r) byte_broadcast \<Rightarrow> nat \<Rightarrow> string \<Rightarrow> string \<Rightarrow> source \<Rightarrow> 't \<Rightarrow> (byte_message \<Rightarrow> 'm) \<Rightarrow> ('c, 't) process \<Rightarrow>
     ((nat \<times> 'r) \<times> ((string + byte_message) list \<Rightarrow> 'm list \<times> effect list)) \<times> ('c, 't) process" where
  "get_stream B now host topic src stream_task convert s =
     (let (raw, s') = get_raw_stream B now host topic src stream_task s
      in ((raw, typed_stream src convert), s'))"

record kafka_subscriber =
  ks_host :: string
  ks_topic :: string

definition kafka_subscriber_new :: "string \<Rightarrow> string \<Rightarrow> kafka_subscriber" where
  "kafka_subscriber_new host topic = \<lparr>ks_host = host, ks_topic = topic\<rparr>"

definition kafka_get_stream ::
  "('c, 'r) byte_broadcast \<Rightarrow> nat \<Rightarrow> (byte_message \<Rightarrow> 'm) \<Rightarrow> kafka_subscriber \<Rightarrow> ('c, stream_task) process \<Rightarrow>
     ((nat \<times> 'r) \<times> ((string + byte_message) list \<Rightarrow> 'm list \<times> effect list)) \<times> ('c, stream_task) process" where
  "kafka_get_stream B now convert p s =
     get_stream B now (ks_host p) (ks_topic p) source.Kafka KafkaStartStream convert s"

record redis_pubsub_subscriber =
  rps_host :: string
  rps_topic :: string

definition redis_pubsub_subscriber_new :: "string \<Rightarrow> string \<Rightarrow> redis_pubsub_subscriber" where
  "redis_pubsub_subscriber_new host topic = \<lparr>rps_host = host, rps_topic = topic\<rparr>"

definition redis_pubsub_get_stream ::
  "('c, 'r) byte_broadcast \<Rightarrow> nat \<Rightarrow> (byte_message \<Rightarrow> 'm) \<Rightarrow> redis_pubsub_subscriber \<Rightarrow> ('c, stream_task) process \<Rightarrow>
     ((nat \<times> 'r) \<times> ((string + byte_message) list \<Rightarrow> 'm list \<times> effect list)) \<times> ('c, stream_task) process" where
  "redis_pubsub_get_stream B now convert p s =
     get_stream B now (rps_host p) (rps_topic p) RedisPubSub RedisPubSubStartStream convert s"

record redis_stream_subscriber =
  rss_host :: string
  rss_topic :: string

definition redis_stream_subscriber_new :: "string \<Rightarrow> string \<Rightarrow> redis_stream_subscriber" where
  "redis_stream_subscriber_new host topic = \<lparr>rss_host = host, rss_topic = topic\<rparr>"

definition redis_stream_get_stream ::
  "('c, 'r) byte_broadcast \<Rightarrow> nat \<Rightarrow> (byte_message \<Rightarrow> 'm) \<Rightarrow> redis_stream_subscriber \<Rightarrow> ('c, stream_task) process \<Rightarrow>
     ((nat \<times> 'r) \<times> ((string + byte_message) list \<Rightarrow> 'm list \<times> effect list)) \<times> ('c, stream_task) process" where
  "redis_stream_get_stream B now convert p s =
     get_stream B now (rss_host p) (rss_topic p) RedisStream RedisStreamStartStream convert s"

section \<open>Processes in which only subscribers call the cache\<close>

fun start_of :: "source \<Rightarrow> stream_task" where
  "start_of source.Kafka = KafkaStartStream"
| "start_of RedisPubSub = RedisPubSubStartStream"
| "start_of RedisStream = RedisStreamStartStream"

definition calls_ok :: "stream_task pending \<Rightarrow> bool" where
  "calls_ok ps \<longleftrightarrow> (\<forall>(h, t, src, f) \<in> set ps. f = start_of src)"

inductive subscribers_reachable ::
  "('c, 'r) byte_broadcast \<Rightarrow> ('c, stream_task) process \<times> stream_task pending \<Rightarrow> bool" for B where
  sub_start: "subscribers_reachable B (process_init cs, [])"
| sub_step: "subscribers_reachable B c \<Longrightarrow> cache_step B c c' \<Longrightarrow> calls_ok (snd c') \<Longrightarrow>
    subscribers_reachable B c'"

text \<open>Each task has the channel made with its token; each entry's task runs its source's function.\<close>

definition backend_inv :: "('c, stream_task) process \<Rightarrow> bool" where
  "backend_inv s \<longleftrightarrow>
     (\<forall>t \<in> set (tasks s). task_sender t = task_parent t) \<and>
     (\<forall>(k, e) \<in> set (runtimes s). sender e = cancel_token e \<and>
        (\<exists>t \<in> set (tasks s). task_parent t = cancel_token e \<and> task_fn t = start_of (ck_source k)))"

lemma subscribers_reachable_cache: "subscribers_reachable B c \<Longrightarrow> cache_reachable B c"
  by (induction rule: subscribers_reachable.induct) (auto intro: cache_reachable.intros)

lemma subscribers_reachable_calls: "subscribers_reachable B c \<Longrightarrow> calls_ok (snd c)"
  by (induction rule: subscribers_reachable.induct) (auto simp: calls_ok_def)

lemma in_hm_insert: "(k, v) \<in> set (hm_insert m k' v') \<Longrightarrow> (k, v) = (k', v') \<or> (k, v) \<in> set m"
  by (auto simp: hm_insert_def hm_remove_def)

lemma backend_inv_write:
  assumes "backend_inv s" and "get_raw_stream_write B now h t src (start_of src) s = (r, s')"
  shows "backend_inv s'"
proof (cases "hm_get (runtimes s) (cache_key_new h t src)")
  case (Some e)
  then have c: "cached_get_stream B e s = (r, s')"
    using assms(2) by (simp add: get_raw_stream_write_def Let_def)
  then show ?thesis
    using assms(1) by (simp add: backend_inv_def cached_get_stream_frame [OF c])
next
  case None
  then show ?thesis
    using assms
    by (fastforce simp: get_raw_stream_write_def cached_runtime_new_def cached_get_stream_def Let_def
        backend_inv_def into_owned_def cache_key_new_def split: prod.splits dest: in_hm_insert)
qed

lemma backend_inv_reap: "backend_inv s \<Longrightarrow> backend_inv (reap_pass B now s)"
  by (fastforce simp: backend_inv_def reap_pass_def drop_runtimes_def in_set_retain reap_keep_def
      split: if_splits)

lemma backend_inv_step:
  assumes "cache_step B c c'" and "backend_inv (fst c)" and "calls_ok (snd c)"
  shows "backend_inv (fst c')"
  using assms
proof (induction rule: cache_step.induct)
  case (read_hit h t src s r s' ps)
  then obtain e where "cached_get_stream B e s = (r, s')"
    by (auto simp: get_raw_stream_read_def)
  from cached_get_stream_frame [OF this] read_hit show ?case
    by (simp add: backend_inv_def)
next
  case (write_lock h t src f ps now s r s')
  then have "f = start_of src" by (auto simp: calls_ok_def)
  with write_lock backend_inv_write [of s B now h t src r s'] show ?case by simp
next
  case (reap s ps now)
  then show ?case by (simp add: backend_inv_reap)
next
  case (channel s i c ps)
  then show ?case by (simp add: backend_inv_def)
qed simp

lemma subscribers_backend_inv: "subscribers_reachable B c \<Longrightarrow> backend_inv (fst c)"
proof (induction rule: subscribers_reachable.induct)
  case (sub_start cs)
  then show ?case by (simp add: backend_inv_def process_init_def)
next
  case (sub_step c c')
  then show ?case using backend_inv_step subscribers_reachable_calls by blast
qed

text \<open>
  A channel is fed for a key: the cache has the key's entry with that channel, and a task that
  was not cancelled runs the given function for the key's host and topic and sends into it.
\<close>

definition fed_by :: "('c, stream_task) process \<Rightarrow> nat \<Rightarrow> string \<Rightarrow> string \<Rightarrow> source \<Rightarrow> stream_task \<Rightarrow> bool" where
  "fed_by s ch host topic src f \<longleftrightarrow>
     (\<exists>e t. hm_get (runtimes s) (cache_key_new host topic src) = Some e \<and> sender e = ch \<and>
        t \<in> set (running s) \<and> task_host t = host \<and> task_topic t = topic \<and> task_sender t = ch \<and> task_fn t = f)"

lemma get_stream_write:
  assumes "get_stream B now host topic src f convert s = ((r, g), s')"
  shows "get_raw_stream_write B now host topic src f s = (r, s')" and "g = typed_stream src convert"
  using assms by (auto simp: get_stream_def get_raw_stream_eq_write Let_def split: prod.splits)

text \<open>
  A token has one task, and what the task was started with is what its entry is cached under; so
  an entry and a task with one token agree in host, topic and source.
\<close>

lemma one_task:
  assumes "cache_inv s" and "t \<in> set (tasks s)" and "u \<in> set (tasks s)" and "task_parent t = task_parent u"
  shows "t = u"
proof -
  have "inj_on task_parent (set (tasks s))"
    using assms(1) by (simp add: cache_inv_def distinct_map)
  then show ?thesis by (rule inj_onD) (rule assms(4,2,3))+
qed

lemma task_of_entry:
  assumes inv: "cache_inv s" and bk: "backend_inv s" and mem: "(k, e) \<in> set (runtimes s)"
  obtains t where "t \<in> set (running s)" and "task_parent t = sender e" and "task_sender t = sender e"
    and "task_host t = ck_host k" and "task_topic t = ck_topic k" and "task_fn t = start_of (ck_source k)"
proof -
  obtain t where t: "t \<in> set (running s)" "task_view t = (ck_host k, ck_topic k, cancel_token e, sender e)"
    using entry_task [OF inv mem] by auto
  obtain u where u: "u \<in> set (tasks s)" "task_parent u = cancel_token e" "task_fn u = start_of (ck_source k)"
    using bk mem by (auto simp: backend_inv_def)
  have "sender e = cancel_token e" using bk mem by (auto simp: backend_inv_def)
  moreover have "t = u"
    using t u by (intro one_task [OF inv]) (auto simp: running_def task_view_def)
  ultimately show thesis
    using that t u(3) by (auto simp: task_view_def)
qed

lemma stream_task_of:
  assumes "cache_inv s" and "backend_inv s"
    and "get_stream B now host topic src (start_of src) convert s = ((r, g), s')"
  obtains e t where "cache_inv s'" and "backend_inv s'"
    and "hm_get (runtimes s') (cache_key_new host topic src) = Some e" and "sender e = fst r"
    and "t \<in> set (running s')" and "task_parent t = fst r" and "task_sender t = fst r"
    and "task_host t = host" and "task_topic t = topic" and "task_fn t = start_of src"
proof -
  note w = get_stream_write(1) [OF assms(3)]
  note inv = cache_inv_write [OF assms(1) w] and bk = backend_inv_write [OF assms(2) w]
  obtain e where e: "hm_get (runtimes s') (cache_key_new host topic src) = Some e" "sender e = fst r"
    using write_entry [OF w] by blast
  show thesis
    by (rule task_of_entry [OF inv bk hm_get_SomeD [OF e(1)]])
      (rule that [OF inv bk e], simp_all add: e(2) cache_key_new_def)
qed

lemma get_stream_fed:
  assumes "subscribers_reachable B (s, ps)"
    and "get_stream B now host topic src (start_of src) convert s = ((r, g), s')"
  shows "fed_by s' (fst r) host topic src (start_of src) \<and> g = typed_stream src convert"
proof -
  have "cache_inv s" "backend_inv s"
    using cache_reachable_inv [OF subscribers_reachable_cache [OF assms(1)]] subscribers_backend_inv [OF assms(1)]
    by simp_all
  from stream_task_of [OF this assms(2)] show ?thesis
    using get_stream_write(2) [OF assms(2)] by (metis fed_by_def)
qed

text \<open>What other callers, the reaper and the channel users do between two calls.\<close>

inductive subscribers_run ::
  "('c, 'r) byte_broadcast \<Rightarrow> ('c, stream_task) process \<times> stream_task pending \<Rightarrow>
     ('c, stream_task) process \<times> stream_task pending \<Rightarrow> bool" for B where
  run_none: "subscribers_run B c c"
| run_more: "subscribers_run B c c' \<Longrightarrow> cache_step B c' c'' \<Longrightarrow> calls_ok (snd c'') \<Longrightarrow> subscribers_run B c c''"

lemma write_keeps_tasks:
  assumes "get_raw_stream_write B now h t src f s = (r, s')"
  shows "set (tasks s) \<subseteq> set (tasks s')"
proof (cases "hm_get (runtimes s) (cache_key_new h t src)")
  case None
  from get_raw_stream_write_miss(2) [OF None assms] show ?thesis by auto
next
  case (Some e)
  with assms have "cached_get_stream B e s = (r, s')" by (simp add: get_raw_stream_write_def)
  then show ?thesis by (simp add: cached_get_stream_frame)
qed

lemma step_keeps_tasks: "cache_step B c c' \<Longrightarrow> set (tasks (fst c)) \<subseteq> set (tasks (fst c'))"
proof (induction rule: cache_step.induct)
  case (read_hit h t src s r s' ps)
  then obtain e where "cached_get_stream B e s = (r, s')" by (auto simp: get_raw_stream_read_def)
  then show ?case by (simp add: cached_get_stream_frame)
next
  case (write_lock h t src f ps now s r s')
  then show ?case using write_keeps_tasks by simp
qed (simp_all add: reap_pass_def drop_runtimes_def)

lemma subscribers_run_inv:
  assumes "subscribers_run B c c'" and "cache_inv (fst c)" and "backend_inv (fst c)" and "calls_ok (snd c)"
  shows "cache_inv (fst c') \<and> backend_inv (fst c') \<and> calls_ok (snd c') \<and> set (tasks (fst c)) \<subseteq> set (tasks (fst c'))"
  using assms
proof (induction rule: subscribers_run.induct)
  case (run_more c c' c'')
  then show ?case
    using cache_step_inv [of B c' c''] backend_inv_step [of B c' c''] step_keeps_tasks [of B c' c''] by blast
qed simp

section \<open>Properties\<close>

text \<open>
  C16: However subscribers of the three backends, the reaper and the channel users interleave, the
  stream a subscriber gets is fed by a running task of its own backend for its own host and topic,
  and yields that task's messages through the conversion of its message type.
\<close>

theorem subscribers_fed_by_own_backend:
  assumes "subscribers_reachable B (s, ps)"
  shows "(kafka_get_stream B now convert k s = ((r, g), s') \<longrightarrow>
      fed_by s' (fst r) (ks_host k) (ks_topic k) source.Kafka KafkaStartStream \<and>
      g = typed_stream source.Kafka convert) \<and>
    (redis_pubsub_get_stream B now convert p s = ((r, g), s') \<longrightarrow>
      fed_by s' (fst r) (rps_host p) (rps_topic p) RedisPubSub RedisPubSubStartStream \<and>
      g = typed_stream RedisPubSub convert) \<and>
    (redis_stream_get_stream B now convert q s = ((r, g), s') \<longrightarrow>
      fed_by s' (fst r) (rss_host q) (rss_topic q) RedisStream RedisStreamStartStream \<and>
      g = typed_stream RedisStream convert)"
  using get_stream_fed [OF assms, of now "ks_host k" "ks_topic k" source.Kafka convert r g s']
    get_stream_fed [OF assms, of now "rps_host p" "rps_topic p" RedisPubSub convert r g s']
    get_stream_fed [OF assms, of now "rss_host q" "rss_topic q" RedisStream convert r g s']
  by (simp add: kafka_get_stream_def redis_pubsub_get_stream_def redis_stream_get_stream_def)

theorem subscribers_fed_by_own_backend_witness:
  "fed_by (snd (redis_stream_get_stream counting_channel 0 string_from (redis_stream_subscriber_new ''h'' ''t'')
      (process_init (\<lambda>_. 0)))) 0 ''h'' ''t'' RedisStream RedisStreamStartStream"
proof -
  let ?q = "redis_stream_subscriber_new ''h'' ''t''"
  let ?s = "process_init (\<lambda>_. 0) :: (nat, stream_task) process"
  have "redis_stream_get_stream counting_channel 0 string_from ?q ?s =
      (((0, ()), typed_stream RedisStream string_from), snd (redis_stream_get_stream counting_channel 0 string_from ?q ?s))"
    by (simp add: redis_stream_get_stream_def redis_stream_subscriber_new_def get_stream_def
        get_raw_stream_eq_write counting_channel_def cache_defs_all process_init_def)
  with subscribers_fed_by_own_backend [OF sub_start, THEN conjunct2, THEN conjunct2, THEN mp,
      of counting_channel 0 string_from ?q "\<lambda>_. 0" "(0, ())"]
  show ?thesis by (simp add: redis_stream_subscriber_new_def)
qed

text \<open>
  C35: Two subscriptions share a channel exactly when they are for the same backend, host and topic:
  whatever other callers, the reaper and the channel users do between them, a subscription that
  differs in any of the three from an earlier one gets another channel, and one that does not
  gets the same channel, unless the reaper has evicted the runtime since.
\<close>

theorem channel_shared_iff_same_key:
  assumes "subscribers_reachable B (s, ps)"
    and "get_stream B now1 h1 t1 src1 (start_of src1) convert1 s = ((r1, g1), s1)"
    and "subscribers_run B (s1, ps) (s2, ps2)"
    and "get_stream B now2 h2 t2 src2 (start_of src2) convert2 s2 = ((r2, g2), s3)"
  shows "(fst r1 = fst r2 \<longrightarrow> h1 = h2 \<and> t1 = t2 \<and> src1 = src2) \<and>
    (fst r1 \<notin> set (cancelled s2) \<longrightarrow> h1 = h2 \<and> t1 = t2 \<and> src1 = src2 \<longrightarrow> fst r1 = fst r2)"
proof -
  have "cache_inv s" "backend_inv s" "calls_ok ps"
    using cache_reachable_inv [OF subscribers_reachable_cache [OF assms(1)]] subscribers_backend_inv [OF assms(1)]
      subscribers_reachable_calls [OF assms(1)]
    by simp_all
  note old = this
  obtain e1 u1 where inv1: "cache_inv s1" "backend_inv s1"
    and u1: "u1 \<in> set (running s1)" "task_parent u1 = fst r1" "task_sender u1 = fst r1"
      "task_host u1 = h1" "task_topic u1 = t1" "task_fn u1 = start_of src1"
    by (rule stream_task_of [OF old(1,2) assms(2)])
  have inv2: "cache_inv s2" "backend_inv s2" and "set (tasks s1) \<subseteq> set (tasks s2)"
    using subscribers_run_inv [OF assms(3)] inv1 old(3) by simp_all
  then have u2: "u1 \<in> set (tasks s2)" using u1(1) by (auto simp: running_def)
  note w = get_stream_write(1) [OF assms(4)]
  obtain e3 u3 where inv3: "cache_inv s3"
    and u3: "u3 \<in> set (running s3)" "task_parent u3 = fst r2" "task_host u3 = h2" "task_topic u3 = t2" "task_fn u3 = start_of src2"
    by (rule stream_task_of [OF inv2 assms(4)])
  have src: "src = src'" if "start_of src = start_of src'" for src src'
    using that by (cases src; cases src') simp_all
  have "h1 = h2 \<and> t1 = t2 \<and> src1 = src2" if "fst r1 = fst r2"
  proof -
    have "u1 \<in> set (tasks s3)" using u2 write_keeps_tasks [OF w] by blast
    then have "u1 = u3"
      using u1(2) u3(1,2) that by (intro one_task [OF inv3]) (auto simp: running_def)
    then show ?thesis using u1 u3 src by simp
  qed
  moreover have "fst r1 = fst r2" if "fst r1 \<notin> set (cancelled s2)" and same: "h1 = h2" "t1 = t2" "src1 = src2"
  proof -
    have "u1 \<in> set (running s2)" using u2 u1(2) that(1) by (simp add: running_def)
    then have "task_view u1 \<in> entry_view ` set (runtimes s2)"
      using inv2(1) by (simp add: cache_inv_def)
    then obtain k e where k: "(k, e) \<in> set (runtimes s2)" "sender e = fst r1"
      by (auto simp: task_view_def entry_view_def u1)
    obtain v where "v \<in> set (running s2)" "task_parent v = fst r1" "task_host v = ck_host k" "task_topic v = ck_topic k"
      "task_fn v = start_of (ck_source k)"
      by (rule task_of_entry [OF inv2 k(1)]) (simp add: k(2))
    moreover from this have "v = u1"
      using u2 u1(2) by (intro one_task [OF inv2(1)]) (auto simp: running_def)
    ultimately have "k = cache_key_new h2 t2 src2"
      using u1 same src by (cases k) (simp add: cache_key_new_def)
    then have "hm_get (runtimes s2) (cache_key_new h2 t2 src2) = Some e"
      using inv2(1) k(1) by (simp add: cache_inv_def hm_get_in_set)
    then have "cached_get_stream B e s2 = (r2, s3)"
      using w by (simp add: get_raw_stream_write_def)
    then show ?thesis using k(2) by (simp add: cached_get_stream_frame(6))
  qed
  ultimately show ?thesis by blast
qed

text \<open>A Kafka subscriber, then for the same host and topic a Redis Stream and a Kafka subscriber.\<close>

theorem channel_shared_iff_same_key_witness:
  "\<exists>r1 s1 r2 s2 r3 s3. get_raw_stream_write counting_channel 0 ''h'' ''t'' source.Kafka KafkaStartStream (process_init (\<lambda>_. 0)) = (r1, s1) \<and>
     get_raw_stream_write counting_channel 0 ''h'' ''t'' RedisStream RedisStreamStartStream s1 = (r2, s2) \<and>
     get_raw_stream_write counting_channel 0 ''h'' ''t'' source.Kafka KafkaStartStream s1 = (r3, s3) \<and>
     fst r2 \<noteq> fst r1 \<and> fst r3 = fst r1"
proof -
  let ?s = "process_init (\<lambda>_. 0) :: (nat, stream_task) process"
  let ?call = "\<lambda>src s. get_stream counting_channel 0 ''h'' ''t'' src (start_of src) string_from s"
  obtain r1 g1 s1 where 1: "?call source.Kafka ?s = ((r1, g1), s1)" by (metis prod.collapse)
  obtain r2 g2 s2 where 2: "?call RedisStream s1 = ((r2, g2), s2)" by (metis prod.collapse)
  obtain r3 g3 s3 where 3: "?call source.Kafka s1 = ((r3, g3), s3)" by (metis prod.collapse)
  have "cancelled s1 = []"
    using get_raw_stream_write_miss(4) [OF _ get_stream_write(1) [OF 1]] by (simp add: process_init_def)
  then have "fst r2 \<noteq> fst r1 \<and> fst r3 = fst r1"
    using channel_shared_iff_same_key [OF sub_start 1 run_none 2] channel_shared_iff_same_key [OF sub_start 1 run_none 3]
    by auto
  then show ?thesis
    using get_stream_write(1) [OF 1, unfolded start_of.simps] get_stream_write(1) [OF 2, unfolded start_of.simps]
      get_stream_write(1) [OF 3, unfolded start_of.simps]
    by blast
qed

end
