(* ===== verification/Delivery.thy ===== *)
theory Delivery
  imports Subscribers
begin

text \<open>
  From the background task to the subscriber: the task sends into the broadcast channel of its
  cache entry, and the subscriber's stream polls a receiver of that channel and converts what
  comes. The channel is any channel that behaves as \<open>broadcast_documented\<close> says.
\<close>

section \<open>Streams over receivers\<close>

text \<open>
  The items of a \<open>BroadcastStream\<close>: values, and lag errors with their \<open>Debug\<close> text; a poll without
  a value or after the end yields no item.
\<close>

fun stream_item :: "(nat \<Rightarrow> string) \<Rightarrow> 'a recv \<Rightarrow> (string + 'a) list" where
  "stream_item dbg (Item a) = [Inr a]"
| "stream_item dbg (LaggedBy n) = [Inl (dbg n)]"
| "stream_item dbg NothingYet = []"
| "stream_item dbg ChannelEnd = []"

definition stream_items :: "(nat \<Rightarrow> string) \<Rightarrow> 'a recv list \<Rightarrow> (string + 'a) list" where
  "stream_items dbg xs = concat (map (stream_item dbg) xs)"

lemma stream_items_values:
  "List.map_filter (\<lambda>x. case x of Inl _ \<Rightarrow> None | Inr m \<Rightarrow> Some m) (stream_items dbg xs) = items_of xs"
  unfolding stream_items_def
proof (induction xs)
  case (Cons x xs)
  then show ?case by (cases x) simp_all
qed simp

lemma stream_items_lags: "length (filter isl (stream_items dbg xs)) = length (lags_of xs)"
  unfolding stream_items_def
proof (induction xs)
  case (Cons x xs)
  then show ?case by (cases x) simp_all
qed simp

lemma typed_items:
  "fst (typed_stream src convert (stream_items dbg xs)) = map convert (items_of xs)"
  "length (warn_logs (snd (typed_stream src convert (stream_items dbg xs)))) = length (lags_of xs)"
  by (simp_all add: typed_stream_parts stream_items_values stream_items_lags)

section \<open>The channels of the cache\<close>

text \<open>Every channel the cache has made retains at least the default number of messages.\<close>

definition capacities_ok :: "('c, 'r, byte_message) history \<Rightarrow> ('c, 't) process \<Rightarrow> bool" where
  "capacities_ok H s \<longleftrightarrow> (\<forall>i < next_handle s. DEFAULT_CHANNEL_CAPACITY \<le> capacity H (chans s i))"

lemma capacities_cached_get_stream:
  assumes "broadcast_documented B H" and "cached_get_stream B e s = (r, s')" and "capacities_ok H s"
  shows "capacities_ok H s'"
proof -
  obtain q c where q: "ch_subscribe B (chans s (sender e)) = (q, c)" by fastforce
  with assms(2,3) documented_subscribe(3) [OF assms(1) q] show ?thesis
    by (auto simp: capacities_ok_def cached_get_stream_def)
qed

lemma capacities_write:
  assumes doc: "broadcast_documented B H" and "get_raw_stream_write B now h t src f s = (r, s')"
    and ok: "capacities_ok H s"
  shows "capacities_ok H s'"
proof (cases "hm_get (runtimes s) (cache_key_new h t src)")
  case (Some e)
  with assms capacities_cached_get_stream [OF doc, of e s r s'] show ?thesis
    by (simp add: get_raw_stream_write_def)
next
  case None
  obtain q c where q: "ch_channel B DEFAULT_CHANNEL_CAPACITY = (q, c)" by fastforce
  let ?e = "\<lparr>cancel_token = next_handle s, sender = next_handle s, last_used = now\<rparr>"
  let ?s = "s\<lparr>reaper_started := True, chans := (chans s)(next_handle s := ch_drop B q c), next_handle := Suc (next_handle s),
      tasks := \<lparr>task_parent = next_handle s, task_host = h, task_topic = t, task_sender = next_handle s, task_fn = f\<rparr> # tasks s\<rparr>"
  have "capacities_ok H ?s"
    using ok documented_channel(3) [OF doc q] by (auto simp: capacities_ok_def documented_drop [OF doc] less_Suc_eq)
  moreover obtain r1 s1 where g: "cached_get_stream B ?e ?s = (r1, s1)" by fastforce
  ultimately have "capacities_ok H s1" using capacities_cached_get_stream [OF doc] by blast
  then show ?thesis
    using assms(2) None g by (auto simp: get_raw_stream_write_def cached_runtime_new_def q Let_def capacities_ok_def)
qed

lemma capacities_step:
  assumes "cache_step B c c'" and "broadcast_documented B H" and "capacities_ok H (fst c)"
  shows "capacities_ok H (fst c')"
  using assms
proof (induction rule: cache_step.induct)
  case (read_hit h t src s r s' ps)
  then obtain e where "cached_get_stream B e s = (r, s')"
    by (auto simp: get_raw_stream_read_def)
  with read_hit capacities_cached_get_stream show ?case by simp
next
  case (write_lock h t src f ps now s r s')
  then show ?case using capacities_write by simp
next
  case (reap s ps now)
  then show ?case by (simp add: capacities_ok_def reap_pass_def drop_runtimes_def)
next
  case (channel s i c ps)
  then show ?case using channel_use_capacity [of B H "chans s i" c] by (auto simp: capacities_ok_def)
qed simp

lemma capacities_reachable:
  "cache_reachable B c \<Longrightarrow> broadcast_documented B H \<Longrightarrow> capacities_ok H (fst c)"
proof (induction rule: cache_reachable.induct)
  case (start cs)
  then show ?case by (simp add: capacities_ok_def process_init_def)
next
  case (step c c')
  then show ?case using capacities_step by blast
qed

text \<open>What a caller of \<open>get_stream\<close> holds: a receiver that starts behind everything sent so far.\<close>

lemma write_receiver:
  fixes s s' :: "('c, 't) process"
  assumes "broadcast_documented B H" and "get_raw_stream_write B now h t src f s = ((ch, r), s')"
  shows "cursor H r = length (sent H (chans s' ch)) \<and> 0 < ch_receiver_count B (chans s' ch)"
proof -
  have "cursor H r1 = length (sent H (chans s2 n)) \<and> 0 < ch_receiver_count B (chans s2 n)"
    if g: "cached_get_stream B e s1 = ((n, r1), s2)" for e :: cached_runtime and s1 s2 :: "('c, 't) process" and n r1
  proof -
    obtain q c where q: "ch_subscribe B (chans s1 (sender e)) = (q, c)" by fastforce
    with g documented_subscribe [OF assms(1) q] show ?thesis by (auto simp: cached_get_stream_def)
  qed
  note sub = this
  show ?thesis
  proof (cases "hm_get (runtimes s) (cache_key_new h t src)")
    case (Some e)
    with assms(2) sub show ?thesis by (simp add: get_raw_stream_write_def)
  next
    case None
    then obtain e and s1 s2 :: "('c, 't) process" where "cached_get_stream B e s1 = ((ch, r), s2)" "chans s' = chans s2"
      using assms(2) by (auto simp: get_raw_stream_write_def Let_def split: prod.splits)
    with sub [of e s1 ch r s2] show ?thesis by simp
  qed
qed

lemma stream_receiver:
  assumes "broadcast_documented B H" and "subscribers_reachable B (s, ps)"
    and "get_stream B now host topic src (start_of src) convert s = (((ch, r), g), s')"
  shows "cursor H r = length (sent H (chans s' ch))"
    and "ch_receiver_count B (chans s' ch) = Suc (ch_receiver_count B (chans s' ch) - 1)"
    and "100 \<le> capacity H (chans s' ch)" and "g = typed_stream src convert"
proof -
  have w: "get_raw_stream_write B now host topic src (start_of src) s = ((ch, r), s')"
    and g: "g = typed_stream src convert"
    using assms(3) by (auto simp: get_stream_def get_raw_stream_eq_write Let_def split: prod.splits)
  note reach = subscribers_reachable_cache [OF assms(2)]
  show "g = typed_stream src convert" by (rule g)
  show "cursor H r = length (sent H (chans s' ch))"
    and "ch_receiver_count B (chans s' ch) = Suc (ch_receiver_count B (chans s' ch) - 1)"
    using write_receiver [OF assms(1) w] by simp_all
  have "capacities_ok H s'"
    using capacities_write [OF assms(1) w] capacities_reachable [OF reach assms(1)] by simp
  moreover have "ch < next_handle s'"
  proof -
    have inv: "cache_inv s'" using cache_reachable_inv [OF reach] cache_inv_write [OF _ w] by simp
    have bk: "backend_inv s'" using backend_inv_write [OF _ w] subscribers_backend_inv [OF assms(2)] by simp
    obtain e where e: "hm_get (runtimes s') (cache_key_new host topic src) = Some e" "sender e = ch"
      using write_entry [OF w] by auto
    have "(host, topic, cancel_token e, sender e) \<in> task_view ` set (running s')"
      using entry_task [OF inv hm_get_SomeD [OF e(1)]] by (simp add: cache_key_new_def)
    moreover have "sender e = cancel_token e"
      using bk hm_get_SomeD [OF e(1)] by (auto simp: backend_inv_def)
    ultimately show ?thesis
      using inv e(2) by (auto simp: task_view_def running_def cache_inv_def list_all_iff)
  qed
  ultimately show "100 \<le> capacity H (chans s' ch)"
    by (auto simp: capacities_ok_def DEFAULT_CHANNEL_CAPACITY_def)
qed


section \<open>Catching up\<close>

text \<open>A receiver that is not behind the retained messages reads all of them.\<close>

lemma polls_read_all:
  assumes "broadcast_documented B H" and "channel_run B (replicate k Polled) r c = (xs, r', c')"
    and "cursor H r \<le> length (sent H c)" and "length (sent H c) - cursor H r \<le> capacity H c"
    and "length (sent H c) - cursor H r \<le> k"
  shows "items_of xs = drop (cursor H r) (sent H c) \<and> lags_of xs = [] \<and> cursor H r' = length (sent H c) \<and>
    sent H c' = sent H c"
  using assms(2-5)
proof (induction k arbitrary: r c xs)
  case (Suc k)
  obtain x r1 c1 where x: "ch_recv B r c = (x, r1, c1)" by (metis prod_cases3)
  obtain ys where ys: "channel_run B (replicate k Polled) r1 c1 = (ys, r', c')" "xs = x # ys"
    using Suc.prems(1) by (auto simp: x Let_def split: prod.splits)
  note d = documented_recv [OF assms(1) x]
  have x': "recv_documented H r c x r1" using d(4) [OF Suc.prems(2)] .
  show ?case
  proof (cases x)
    case (Item a)
    with x' have "cursor H r1 = Suc (cursor H r)" "cursor H r < length (sent H c)" "a = sent H c ! cursor H r"
      by (auto simp: recv_documented_def)
    with Suc.IH [OF ys(1)] Suc.prems(2-4) show ?thesis
      by (simp add: ys(2) Item d Cons_nth_drop_Suc)
  qed (use x' Suc.IH [OF ys(1)] Suc.prems in \<open>auto simp: recv_documented_def Let_def ys(2) d\<close>)
qed simp

lemma polls_catch_up:
  assumes "broadcast_documented B H" and "channel_run B (replicate k Polled) r c = (xs, r', c')"
    and "cursor H r \<le> length (sent H c)" and "length (sent H c) - cursor H r < k"
  shows "items_of xs = drop (max (cursor H r) (length (sent H c) - capacity H c)) (sent H c) \<and>
    lags_of xs = (if length (sent H c) - cursor H r \<le> capacity H c then []
                  else [length (sent H c) - cursor H r - capacity H c]) \<and>
    cursor H r' = length (sent H c)"
proof (cases "length (sent H c) - cursor H r \<le> capacity H c")
  case True
  then have "max (cursor H r) (length (sent H c) - capacity H c) = cursor H r" by simp
  with polls_read_all [OF assms(1-3) True] assms(4) True show ?thesis by simp
next
  case False
  obtain j where k: "k = Suc j" using assms(4) by (cases k) auto
  obtain x r1 c1 where x: "ch_recv B r c = (x, r1, c1)" by (metis prod_cases3)
  obtain ys where ys: "channel_run B (replicate j Polled) r1 c1 = (ys, r', c')" "xs = x # ys"
    using assms(2) by (auto simp: k x Let_def split: prod.splits)
  note d = documented_recv [OF assms(1) x]
  have lag: "x = LaggedBy (length (sent H c) - cursor H r - capacity H c)" "cursor H r1 = length (sent H c) - capacity H c"
    using d(4) [OF assms(3)] False by (cases x; auto simp: recv_documented_def Let_def)+
  have "items_of ys = drop (cursor H r1) (sent H c) \<and> lags_of ys = [] \<and> cursor H r' = length (sent H c)"
    using polls_read_all [OF assms(1) ys(1)] lag(2) assms(4) False by (simp add: d k)
  with lag False show ?thesis by (simp add: ys(2))
qed

section \<open>Properties\<close>

text \<open>
  C4: A subscriber that is never polled with more than a hundred messages unread loses nothing:
  its stream yields the conversions of all messages its task sends from the moment it subscribed,
  in order and without a warning, except for those it was not polled for yet.
\<close>

theorem subscriber_gets_every_message:
  assumes "broadcast_documented B H" and "subscribers_reachable B (s, ps)"
    and "get_stream B now host topic src (start_of src) convert s = (((ch, r), g), s')"
    and "channel_run B evs r (chans s' ch) = (xs, r', c')"
    and "others_ok (ch_receiver_count B (chans s' ch) - 1) evs" and "keeps_up 100 0 evs"
  shows "fst (g (stream_items dbg xs)) = map convert (take (length (values_sent evs) - unread_after 0 evs) (values_sent evs)) \<and>
    warn_logs (snd (g (stream_items dbg xs))) = [] \<and> sent H c' = sent H (chans s' ch) @ values_sent evs"
proof -
  note st = stream_receiver [OF assms(1-3)]
  note run = channel_run_complete [OF assms(1,4) st(1,2) assms(5,6) st(3)]
  from run have "items_of xs = take (length (values_sent evs) - unread_after 0 evs) (values_sent evs)"
    by (metis add_diff_cancel_right' append_eq_conv_conj length_append)
  moreover have "sent H c' = sent H (chans s' ch) @ values_sent evs"
    using channel_run_accounts [OF assms(1,4) _ st(2) assms(5)] st(1) by simp
  moreover have "warn_logs (snd (g (stream_items dbg xs))) = []"
    using run typed_items(2) [of src convert dbg xs] by (simp add: st(4))
  ultimately show ?thesis by (simp add: st(4) typed_items)
qed

theorem subscriber_gets_every_message_witness:
  "\<exists>r g s'. get_stream log_broadcast 0 ''h'' ''t'' RedisStream (start_of RedisStream) string_from
      (process_init (\<lambda>_. \<lparr>lc_sent = [], lc_capacity = 0, lc_receivers = 0\<rparr>)) = (((0, r), g), s') \<and>
    fst (g (stream_items (\<lambda>_. []) (fst (channel_run log_broadcast
      [Sent (byte_from_value [65]), Polled, Sent (byte_from_value [66]), Polled] r (chans s' 0))))) =
      [string_from_value ''A'', string_from_value ''B'']"
proof -
  let ?s = "process_init (\<lambda>_. \<lparr>lc_sent = [], lc_capacity = 0, lc_receivers = 0\<rparr>) ::
    (byte_message log_channel, stream_task) process"
  let ?evs = "[Sent (byte_from_value [65]), Polled, Sent (byte_from_value [66]), Polled] :: (nat, byte_message) channel_event list"
  let ?g = "get_stream log_broadcast 0 ''h'' ''t'' RedisStream (start_of RedisStream) string_from ?s"
  obtain r g s' where g: "?g = (((0, r), g), s')"
    by (simp add: get_stream_def get_raw_stream_eq_write cache_defs_all process_init_def log_broadcast_def)
  obtain xs r' c' where x: "channel_run log_broadcast ?evs r (chans s' 0) = (xs, r', c')"
    by (metis prod_cases3)
  have "fst (g (stream_items (\<lambda>_. []) xs)) = map string_from (values_sent ?evs)"
    using subscriber_gets_every_message [OF log_broadcast_documented sub_start g x, of "\<lambda>_. []"] by simp
  also have "\<dots> = [string_from_value ''A'', string_from_value ''B'']"
    by (simp add: string_from_eq string_defs byte_defs from_utf8_lossy_def) code_simp
  finally show ?thesis using g x by auto
qed

text \<open>
  C29: A subscriber that falls behind loses messages only in gaps that it announces: what its task
  sends is what the stream yields, in order, with a gap for each lag error of exactly the length
  the error states, and what is still unread; each gap is one warning line.
\<close>

theorem lagging_subscriber_warned:
  assumes "broadcast_documented B H" and "subscribers_reachable B (s, ps)"
    and "get_stream B now host topic src (start_of src) convert s = (((ch, r), g), s')"
    and "channel_run B evs r (chans s' ch) = (xs, r', c')"
    and "others_ok (ch_receiver_count B (chans s' ch) - 1) evs"
  shows "(\<exists>gs unread. list_all2 accounts xs gs \<and> values_sent evs = concat gs @ unread) \<and>
    fst (g (stream_items dbg xs)) = map convert (items_of xs) \<and>
    length (warn_logs (snd (g (stream_items dbg xs)))) = length (lags_of xs)"
proof -
  note st = stream_receiver [OF assms(1-3)]
  have le: "cursor H r \<le> length (sent H (chans s' ch))" by (simp add: st(1))
  from channel_run_accounts [OF assms(1,4) le st(2) assms(5)] show ?thesis
    by (auto simp: st(1,4) typed_items)
qed

theorem lagging_subscriber_warned_witness:
  "\<exists>r g s'. get_stream log_broadcast 0 ''h'' ''t'' source.Kafka (start_of source.Kafka) string_from
      (process_init (\<lambda>_. \<lparr>lc_sent = [], lc_capacity = 0, lc_receivers = 0\<rparr>)) = (((0, r), g), s') \<and>
    length (warn_logs (snd (g (stream_items (\<lambda>_. []) (fst (channel_run log_broadcast
      (replicate 102 (Sent (byte_from_value [])) @ [Polled, Polled]) r (chans s' 0))))))) = 1"
proof -
  let ?s = "process_init (\<lambda>_. \<lparr>lc_sent = [], lc_capacity = 0, lc_receivers = 0\<rparr>) ::
    (byte_message log_channel, stream_task) process"
  let ?c = "\<lparr>lc_sent = [], lc_capacity = 100, lc_receivers = 1\<rparr> :: byte_message log_channel"
  let ?evs = "replicate 102 (Sent (byte_from_value [])) @ [Polled, Polled] :: (nat, byte_message) channel_event list"
  obtain g s' where g: "get_stream log_broadcast 0 ''h'' ''t'' source.Kafka (start_of source.Kafka) string_from ?s =
      (((0, 0), g), s')" and c: "chans s' 0 = ?c"
    by (simp add: get_stream_def get_raw_stream_eq_write cache_defs_all process_init_def log_broadcast_def
        DEFAULT_CHANNEL_CAPACITY_def)
  obtain xs r' c' where x: "channel_run log_broadcast ?evs 0 (chans s' 0) = (xs, r', c')"
    by (metis prod_cases3)
  have "lags_of (fst (channel_run log_broadcast ?evs 0 ?c)) = [2]" by code_simp
  then have "length (lags_of xs) = 1" using x c by simp
  moreover have "others_ok (ch_receiver_count log_broadcast (chans s' 0) - 1) ?evs"
    unfolding c by code_simp
  ultimately have "length (warn_logs (snd (g (stream_items (\<lambda>_. []) xs)))) = 1"
    using lagging_subscriber_warned [OF log_broadcast_documented sub_start g x, of "\<lambda>_. []"] by simp
  then show ?thesis using g x by auto
qed

text \<open>
  A stream that has fallen behind recovers by itself: polled more often than there are unread
  messages, it is at the end, and it has yielded all of them, or, when there were more than the
  channel retains, the newest ones, as many as it retains, after one lag warning.
\<close>

theorem polling_catches_up:
  assumes "broadcast_documented B H" and "channel_run B (replicate k Polled) r c = (xs, r', c')"
    and "cursor H r \<le> length (sent H c)" and "length (sent H c) - cursor H r < k"
  shows "cursor H r' = length (sent H c) \<and>
    fst (typed_stream src convert (stream_items dbg xs)) =
      map convert (drop (max (cursor H r) (length (sent H c) - capacity H c)) (sent H c)) \<and>
    length (warn_logs (snd (typed_stream src convert (stream_items dbg xs)))) \<le> 1"
  using polls_catch_up [OF assms] by (simp add: typed_items)


theorem polling_catches_up_witness:
  "fst (typed_stream RedisPubSub bm_value (stream_items (\<lambda>_. [])
      (fst (channel_run log_broadcast (replicate 4 Polled) 0
        \<lparr>lc_sent = map byte_from_value [[1], [2], [3]], lc_capacity = 2, lc_receivers = 1\<rparr>)))) = [[2], [3]]"
proof -
  let ?c = "\<lparr>lc_sent = map byte_from_value [[1], [2], [3]], lc_capacity = 2, lc_receivers = 1\<rparr>"
  obtain xs r' c' where x: "channel_run log_broadcast (replicate 4 Polled) 0 ?c = (xs, r', c')"
    by (metis prod_cases3)
  show ?thesis
    using polling_catches_up [OF log_broadcast_documented x, of RedisPubSub bm_value "\<lambda>_. []"]
    unfolding x by (simp add: log_history_def byte_defs)
qed

text \<open>
  C15: From the Redis server to the subscriber: against a server and a channel that behave as
  documented, a Redis Stream subscriber that keeps up and has read everything has received the
  conversions of exactly the entries from the first one received on, in order.
\<close>

theorem redis_stream_end_to_end:
  assumes "broadcast_documented B H" and "subscribers_reachable B (s, ps)"
    and "redis_stream_get_stream B now convert q s = (((ch, r), g), s')"
    and "xread_documented srv" and "\<forall>(g, a) \<in> set quiet. a = []" and "arr \<noteq> []"
    and "distinct (map sid_id (log @ added (quiet @ (gap, arr) # later)))"
    and "\<forall>x \<in> set (added (quiet @ (gap, arr) # later)). sid_id x \<noteq> ''$''"
    and "values_sent evs = sends (fst (snd (monitor_stream V (rss_topic q)
      (serve srv (rss_topic q) log ''$'' (quiet @ (gap, arr) # later) :: ('o, 'e) xread_event list))))"
    and "channel_run B evs r (chans s' ch) = (xs, r', c')"
    and "others_ok (ch_receiver_count B (chans s' ch) - 1) evs" and "keeps_up 100 0 evs" and "unread_after 0 evs = 0"
  shows "fst (g (stream_items dbg xs)) = map convert (List.map_filter (entry_message V) (arr @ added later))"
proof -
  have "get_stream B now (rss_host q) (rss_topic q) RedisStream (start_of RedisStream) convert s = (((ch, r), g), s')"
    using assms(3) by (simp add: redis_stream_get_stream_def)
  note st = stream_receiver [OF assms(1,2) this]
  have "items_of xs = values_sent evs"
    using channel_run_complete [OF assms(1,10) st(1,2) assms(11,12) st(3)] assms(13) by auto
  then show ?thesis
    using received_from_first [OF assms(4-8), of "rss_topic q", where 'e = 'e]
    by (simp add: st(4) typed_items assms(9) monitor_stream_def monitor_loop_sends)
qed

theorem redis_stream_end_to_end_witness:
  "\<exists>r g s'. redis_stream_get_stream log_broadcast 0 id (redis_stream_subscriber_new ''h'' ''t'')
      (process_init (\<lambda>_. \<lparr>lc_sent = [], lc_capacity = 0, lc_receivers = 0\<rparr>)) = (((0, r), g), s') \<and>
    fst (g (stream_items (\<lambda>_. []) (fst (channel_run log_broadcast
      [Sent (byte_from_value [7]), Sent (byte_from_value [7]), Polled, Polled] r (chans s' 0))))) =
      [byte_from_value [7], byte_from_value [7]]"
proof -
  let ?s = "process_init (\<lambda>_. \<lparr>lc_sent = [], lc_capacity = 0, lc_receivers = 0\<rparr>) ::
    (byte_message log_channel, stream_task) process"
  let ?q = "redis_stream_subscriber_new ''h'' ''t''"
  let ?evs = "[Sent (byte_from_value [7]), Sent (byte_from_value [7]), Polled, Polled] :: (nat, byte_message) channel_event list"
  let ?later = "[([entry_of_fields ''2-0'' []], [])] :: (unit stream_id list \<times> unit stream_id list) list"
  obtain r g s' where g: "redis_stream_get_stream log_broadcast 0 id ?q ?s = (((0, r), g), s')"
    by (simp add: redis_stream_get_stream_def get_stream_def get_raw_stream_eq_write cache_defs_all process_init_def
        log_broadcast_def)
  obtain xs r' c' where x: "channel_run log_broadcast ?evs r (chans s' 0) = (xs, r', c')"
    by (metis prod_cases3)
  have conv: "List.map_filter (entry_message example_env) ([entry_of_fields ''1-0'' []] @ added ?later) =
      [byte_from_value [7], byte_from_value [7]]"
    by (simp add: example_env_def entry_of_fields_def entry_message_def stream_entry_to_byte_message_def
      redis_value_to_byte_message_def redis_value_to_json_bytes_def stream_entry_to_redis_value_def
      json_value_to_bytes_def)
  have rec: "received (serve example_server (rss_topic ?q) [] ''$'' ([] @ ([], [entry_of_fields ''1-0'' []]) # ?later)
      :: (unit, unit) xread_event list) = [entry_of_fields ''1-0'' []] @ added ?later"
    by (rule received_from_first [OF example_server_documented]) (simp_all add: entry_of_fields_def)
  have v: "values_sent ?evs = sends (fst (snd (monitor_stream example_env (rss_topic ?q)
      (serve example_server (rss_topic ?q) [] ''$'' ([] @ ([], [entry_of_fields ''1-0'' []]) # ?later) :: (unit, unit) xread_event list))))"
    by (simp only: monitor_stream_def monitor_loop_sends rec conv values_sent.simps)
  have "fst (g (stream_items (\<lambda>_. []) xs)) = map id (List.map_filter (entry_message example_env) ([entry_of_fields ''1-0'' []] @ added ?later))"
    by (rule redis_stream_end_to_end [OF log_broadcast_documented sub_start g example_server_documented _ _ _ _ v x])
      (simp_all add: entry_of_fields_def)
  then show ?thesis using g x conv by auto
qed

end
