(* ===== verification/Task_Life.thy ===== *)
theory Task_Life
  imports Redis_Stream_Runtime Redis_Pubsub Kafka_Runtime
begin

text \<open>
  What the three background tasks have in common over their whole life, whatever the backend: an
  outage of any length is followed by the delivery of what the next connection brings, and a
  cancelled task returns, and no task panics or waits long. All come from the locale \<open>task_loop\<close>.
\<close>

section \<open>Attempts that connect\<close>

lemma rs_fail_sends: "sends (fst (rs_fail R err c st)) = []"
  using backoff.on_err_sends [of "rs_outage st" "error_kind R err" "error_debug R err" c]
  by (auto simp: rs_fail_def split: prod.splits outcome.splits)

lemma ps_fail_sends: "sends (fst (ps_fail R err c st)) = []"
  using backoff.on_err_sends [of st "re_kind R err" "re_debug R err" c]
  by (auto simp: ps_fail_def split: prod.splits outcome.splits)

lemma rs_attempt_sends:
  assumes "\<not> rs_cancelled st" and "hm_get (att_before t (rs_hosts st)) host = None"
    and "res_bind (att_open t host) (att_connect t) = Inr conn"
  shows "sends (fst (rs_attempt V R host topic st (Attempt t))) =
    List.map_filter (entry_message V) (received (att_events t))"
proof -
  obtain cs es x where m: "monitor_stream V topic (att_events t) = (cs, es, x)" by (metis prod_cases3)
  have es: "sends es = List.map_filter (entry_message V) (received (att_events t))"
    using monitor_loop_sends [of V topic "''$''" "att_events t"] m by (simp add: monitor_stream_def)
  have "\<exists>m'. get_connection (att_open t) (att_connect t) host (att_before t (rs_hosts st)) = (Inr conn, m')"
    using assms(2,3) by (cases "att_open t host") (simp_all add: get_connection_eq_write get_connection_write_eq)
  then show ?thesis
    using assms(1) m es by (auto simp: rs_fail_sends on_recovery_eq Let_def case_prod_unfold split: monitor_result.splits)
qed

lemma ps_attempt_sends:
  assumes "connect_and_subscribe t host topic = Inr conn"
  shows "sends (fst (ps_attempt L R host topic st (PsAttempt t))) =
    List.map_filter (payload_message L) (payloads (ps_events t))"
proof -
  obtain es x where d: "drain_messages L (ps_events t) = (es, x)" by fastforce
  have es: "sends es = List.map_filter (payload_message L) (payloads (ps_events t))"
    using drain_messages_sends [of L "ps_events t"] d by simp
  with assms d show ?thesis
    by (auto simp: ps_fail_sends on_recovery_eq Let_def case_prod_unfold split: option.splits drain_outcome.splits)
qed

lemma kr_attempt_sends:
  assumes "\<not> kr_cancelled st" and "kr_connects testing i host topic t"
  shows "sends (fst (kr_attempt D testing i host topic st (KrAttempt t))) =
    List.map_filter item_message (items (kt_events t))"
  using assms kafka_monitor_sends [of D outage_default "kt_events t"]
  by (auto simp: kafka_monitor_stream_def on_recovery_eq is_ok_iff res_bind_eq_Inr Let_def case_prod_unfold)

text \<open>Each task after attempts that could not connect.\<close>

lemma redis_stream_recovers:
  assumes "hm_get m host = None" and "\<forall>a \<in> set fs. \<exists>k e c. rs_fails R host a k e c"
    and "res_bind (att_open t host) (att_connect t) = Inr conn"
    and "\<forall>m. hm_get m host = None \<longrightarrow> hm_get (att_before t m) host = None"
  shows "sends (fst (rs_start_stream V R host topic m (fs @ [Attempt t]))) =
      List.map_filter (entry_message V) (received (att_events t)) \<and>
    take (length fs) (sleeps (fst (rs_start_stream V R host topic m (fs @ [Attempt t])))) = map backoff_at [0..<length fs]"
proof -
  let ?st = "\<lparr>rs_outage = outage_default, rs_hosts = m, rs_cancelled = False\<rparr>"
  have "rs_inv ?st" by (simp add: rs_inv_def outage_inv_default)
  then obtain es s' where r: "rs_loop V R host topic ?st (fs @ [Attempt t]) =
      (es @ fst (rs_attempt V R host topic s' (Attempt t)), snd (rs_attempt V R host topic s' (Attempt t)))"
    and s': "\<not> rs_cancelled s' \<and> hm_get (rs_hosts s') host = None"
    and e: "sends es = []" "sleeps es = map backoff_at [0..<length fs]"
    by (rule redis_stream_task.run_recovers [of ?st host fs R V topic "Attempt t"]) (use assms in simp_all)
  then show ?thesis
    using rs_attempt_sends [OF _ _ assms(3), of s' V R topic] assms(4) by (simp add: rs_start_stream_def)
qed

lemma redis_pubsub_recovers:
  assumes "\<forall>a \<in> set gs. \<exists>k e c. ps_fails Q host topic a k e c" and "connect_and_subscribe p host topic = Inr pc"
  shows "sends (fst (ps_start_stream L Q host topic (gs @ [PsAttempt p]))) =
      List.map_filter (payload_message L) (payloads (ps_events p)) \<and>
    take (length gs) (sleeps (fst (ps_start_stream L Q host topic (gs @ [PsAttempt p])))) = map backoff_at [0..<length gs]"
proof -
  obtain es s' where "ps_loop L Q host topic outage_default (gs @ [PsAttempt p]) =
      (es @ fst (ps_attempt L Q host topic s' (PsAttempt p)), snd (ps_attempt L Q host topic s' (PsAttempt p)))"
    and "sends es = []" "sleeps es = map backoff_at [0..<length gs]"
    by (rule redis_pubsub_task.run_recovers [OF outage_inv_default, of gs Q host topic L "PsAttempt p"]) (use assms in simp_all)
  then show ?thesis
    using ps_attempt_sends [OF assms(2), of L Q s'] by (simp add: ps_start_stream_def)
qed

lemma kafka_recovers:
  assumes "\<forall>a \<in> set hs. \<exists>k e c. kr_fails D testing uuid host topic a k e c" and "kr_connects testing uuid host topic q"
  shows "sends (fst (kr_start_stream D testing uuid host topic (hs @ [KrAttempt q]))) =
      List.map_filter item_message (items (kt_events q)) \<and>
    take (length hs) (sleeps (fst (kr_start_stream D testing uuid host topic (hs @ [KrAttempt q])))) = map backoff_at [0..<length hs]"
proof -
  let ?st = "\<lparr>kr_outage = outage_default, kr_cancelled = False\<rparr>"
  have "kr_inv ?st" by (simp add: kr_inv_def outage_inv_default)
  then obtain es s' where "kr_loop D testing uuid host topic ?st (hs @ [KrAttempt q]) =
      (es @ fst (kr_attempt D testing uuid host topic s' (KrAttempt q)), snd (kr_attempt D testing uuid host topic s' (KrAttempt q)))"
    and "\<not> kr_cancelled s'" and "sends es = []" "sleeps es = map backoff_at [0..<length hs]"
    by (rule kafka_task.run_recovers [of ?st hs D testing uuid host topic "KrAttempt q"]) (use assms in simp_all)
  then show ?thesis
    using kr_attempt_sends [OF _ assms(2), of s' D] by (simp add: kr_start_stream_def)
qed

section \<open>Properties\<close>

text \<open>
  Whatever servers, networks and other tasks do, none of the three tasks panics, and each waits
  at most once per attempt, between one and thirty seconds.
\<close>

theorem tasks_safe:
  "(snd (rs_start_stream V R host topic m as) \<noteq> Panicked \<and>
    list_all (\<lambda>d. from_secs 1 \<le> d \<and> d \<le> from_secs 30) (sleeps (fst (rs_start_stream V R host topic m as))) \<and>
    length (sleeps (fst (rs_start_stream V R host topic m as))) \<le> length as) \<and>
   (snd (ps_start_stream L Q host topic bs) \<noteq> Panicked \<and>
    list_all (\<lambda>d. from_secs 1 \<le> d \<and> d \<le> from_secs 30) (sleeps (fst (ps_start_stream L Q host topic bs))) \<and>
    length (sleeps (fst (ps_start_stream L Q host topic bs))) \<le> length bs) \<and>
   (snd (kr_start_stream D testing uuid host topic cs) \<noteq> Panicked \<and>
    list_all (\<lambda>d. from_secs 1 \<le> d \<and> d \<le> from_secs 30) (sleeps (fst (kr_start_stream D testing uuid host topic cs))) \<and>
    length (sleeps (fst (kr_start_stream D testing uuid host topic cs))) \<le> length cs)"
  by (simp only: redis_stream_task_safe redis_pubsub_task_safe kafka_task_safe simp_thms)

text \<open>
  C10: Every task survives an outage of any length: after any number of attempts that could not
  connect it delivers what the first connection brings, and the waits before it were 1, 2, 4
  and so on up to 30 seconds, one per failed attempt.
\<close>

theorem tasks_recover:
  "(hm_get m host = None \<and> (\<forall>a \<in> set fs. \<exists>k e c. rs_fails R host a k e c) \<and>
      res_bind (att_open t host) (att_connect t) = Inr conn \<and>
      (\<forall>m. hm_get m host = None \<longrightarrow> hm_get (att_before t m) host = None) \<longrightarrow>
    sends (fst (rs_start_stream V R host topic m (fs @ [Attempt t]))) =
      List.map_filter (entry_message V) (received (att_events t)) \<and>
    take (length fs) (sleeps (fst (rs_start_stream V R host topic m (fs @ [Attempt t])))) =
      map backoff_at [0..<length fs]) \<and>
   ((\<forall>a \<in> set gs. \<exists>k e c. ps_fails Q host topic a k e c) \<and> connect_and_subscribe p host topic = Inr pc \<longrightarrow>
    sends (fst (ps_start_stream L Q host topic (gs @ [PsAttempt p]))) =
      List.map_filter (payload_message L) (payloads (ps_events p)) \<and>
    take (length gs) (sleeps (fst (ps_start_stream L Q host topic (gs @ [PsAttempt p])))) =
      map backoff_at [0..<length gs]) \<and>
   ((\<forall>a \<in> set hs. \<exists>k e c. kr_fails D testing uuid host topic a k e c) \<and> kr_connects testing uuid host topic q \<longrightarrow>
    sends (fst (kr_start_stream D testing uuid host topic (hs @ [KrAttempt q]))) =
      List.map_filter item_message (items (kt_events q)) \<and>
    take (length hs) (sleeps (fst (kr_start_stream D testing uuid host topic (hs @ [KrAttempt q])))) =
      map backoff_at [0..<length hs])"
  by (rule conjI [OF impI conjI [OF impI impI]]; elim conjE)
    (rule redis_stream_recovers redis_pubsub_recovers kafka_recovers; assumption)+

text \<open>For each backend a turn that cannot connect and one that brings a message, for the witnesses.\<close>

definition rs_bad :: "(string, unit, string, unit) rs_try" where
  "rs_bad = \<lparr>att_open = (\<lambda>_. Inl ''refused''), att_connect = (\<lambda>_. Inr ()), att_events = [XError ''io''],
     att_before = id, att_during = id\<rparr>"

definition rs_good :: "(string, unit, string, unit) rs_try" where
  "rs_good = \<lparr>att_open = Inr, att_connect = (\<lambda>_. Inr ()),
     att_events = [XReply [(''t'', [entry_of_fields ''1-0'' []])], XError ''io''], att_before = id, att_during = id\<rparr>"

definition ps_bad :: "(string, unit, string, unit, string) ps_try" where
  "ps_bad = \<lparr>ps_open = (\<lambda>_. Inl ''refused''), ps_get_async_pubsub = (\<lambda>_. Inr ()), ps_subscribe = (\<lambda>_ _. Inr ()), ps_events = []\<rparr>"

definition ps_good :: "(string, unit, string, unit, string) ps_try" where
  "ps_good = \<lparr>ps_open = Inr, ps_get_async_pubsub = (\<lambda>_. Inr ()), ps_subscribe = (\<lambda>_ _. Inr ()),
     ps_events = [Incoming (Inr (RBulkString [7])), Closed]\<rparr>"

definition kr_bad :: "(unit, string) kr_try" where
  "kr_bad = \<lparr>kt_create = (\<lambda>_. Inl ''refused''), kt_subscribe = (\<lambda>_ _. Inr ()), kt_events = []\<rparr>"

definition kr_good :: "(unit, string) kr_try" where
  "kr_good = \<lparr>kt_create = (\<lambda>_. Inr ()), kt_subscribe = (\<lambda>_ _. Inr ()),
     kt_events = [Next (Inr \<lparr>km_partition = 0, km_offset = 0, km_key = None, km_payload = Some [7]\<rparr>), End]\<rparr>"

definition plain_errors :: "(string, string) error_env" where
  "plain_errors = \<lparr>error_kind = id, error_debug = id\<rparr>"

definition plain_redis_errors :: "(string, string) redis_errors" where
  "plain_redis_errors = \<lparr>re_kind = id, re_debug = id, re_io = (\<lambda>m h. m @ h)\<rparr>"

definition plain_kafka_debug :: "(string, string) kafka_debug" where
  "plain_kafka_debug = \<lparr>kd_discriminant = id, kd_error = id, kd_message = (\<lambda>_. [])\<rparr>"

definition plain_lib :: "(unit, string) redis_lib" where
  "plain_lib = \<lparr>from_redis_value = (\<lambda>_. Inl ''no''), parsing_error = id, parsing_error_debug = id\<rparr>"

lemma bad_turns_fail:
  "\<exists>k e c. rs_fails plain_errors ''h'' (Attempt rs_bad) k e c"
  "\<exists>k e c. ps_fails plain_redis_errors ''h'' ''t'' (PsAttempt ps_bad) k e c"
  "\<exists>k e c. kr_fails plain_kafka_debug False ''u'' ''h'' ''t'' (KrAttempt kr_bad) k e c"
  by (auto simp: rs_fails_def rs_bad_def ps_fails_def ps_bad_def connect_and_subscribe_def kr_fails_def kr_bad_def)

theorem tasks_recover_witness:
  "sends (fst (rs_start_stream example_env plain_errors ''h'' ''t'' [] ([Attempt rs_bad, Attempt rs_bad] @ [Attempt rs_good]))) =
     [byte_from_value [7]] \<and>
   sends (fst (ps_start_stream plain_lib plain_redis_errors ''h'' ''t'' ([PsAttempt ps_bad] @ [PsAttempt ps_good]))) =
     [byte_from_value [7]] \<and>
   sends (fst (kr_start_stream plain_kafka_debug False ''u'' ''h'' ''t'' ([KrAttempt kr_bad] @ [KrAttempt kr_good]))) =
     [byte_from_value [7]]"
proof -
  note R = tasks_recover [where m = "[]" and host = "''h''" and topic = "''t''" and fs = "[Attempt rs_bad, Attempt rs_bad]"
      and t = rs_good and R = plain_errors and V = example_env and conn = "()"
      and gs = "[PsAttempt ps_bad]" and p = ps_good and Q = plain_redis_errors and L = plain_lib and pc = "()"
      and hs = "[KrAttempt kr_bad]" and q = kr_good and D = plain_kafka_debug and testing = False and uuid = "''u''"]
  have "sends (fst (rs_start_stream example_env plain_errors ''h'' ''t'' [] ([Attempt rs_bad, Attempt rs_bad] @ [Attempt rs_good]))) =
      List.map_filter (entry_message example_env) (received (att_events rs_good))"
    by (rule R [THEN conjunct1, THEN mp, THEN conjunct1]) (simp add: bad_turns_fail, simp add: rs_good_def)
  moreover have "sends (fst (ps_start_stream plain_lib plain_redis_errors ''h'' ''t'' ([PsAttempt ps_bad] @ [PsAttempt ps_good]))) =
      List.map_filter (payload_message plain_lib) (payloads (ps_events ps_good))"
    by (rule R [THEN conjunct2, THEN conjunct1, THEN mp, THEN conjunct1])
      (simp add: bad_turns_fail, simp add: ps_good_def connect_and_subscribe_def)
  moreover have "sends (fst (kr_start_stream plain_kafka_debug False ''u'' ''h'' ''t'' ([KrAttempt kr_bad] @ [KrAttempt kr_good]))) =
      List.map_filter item_message (items (kt_events kr_good))"
    by (rule R [THEN conjunct2, THEN conjunct2, THEN mp, THEN conjunct1])
      (simp add: bad_turns_fail, simp add: kr_good_def)
  ultimately show ?thesis
    by (simp add: rs_good_def ps_good_def kr_good_def payload_message_def item_message_def runtime_convert_to_message_def byte_defs
      example_env_def entry_of_fields_def entry_message_def stream_entry_to_byte_message_def
      redis_value_to_byte_message_def redis_value_to_json_bytes_def stream_entry_to_redis_value_def json_value_to_bytes_def)
qed

text \<open>
  C23: A cancelled task returns: at the first turn that finds the token cancelled it ends, having
  done only what the turns before did, and it has waited at most thirty seconds per turn.
\<close>

theorem cancelled_tasks_return:
  "(list_all rs_ended as \<longrightarrow>
    rs_start_stream V R host topic m (as @ TokenCancelled # more_as) = (fst (rs_start_stream V R host topic m as), Returned) \<and>
    sum_list (sleeps (fst (rs_start_stream V R host topic m as))) \<le> from_secs 30 * length as) \<and>
   (list_all (ps_ended host topic) bs \<longrightarrow>
    ps_start_stream L Q host topic (bs @ PsCancelled # more_bs) = (fst (ps_start_stream L Q host topic bs), Returned) \<and>
    sum_list (sleeps (fst (ps_start_stream L Q host topic bs))) \<le> from_secs 30 * length bs) \<and>
   (list_all (kr_ended testing uuid host topic) cs \<longrightarrow>
    kr_start_stream D testing uuid host topic (cs @ KrCancelled # more_cs) =
      (fst (kr_start_stream D testing uuid host topic cs), Returned) \<and>
    sum_list (sleeps (fst (kr_start_stream D testing uuid host topic cs))) \<le> from_secs 30 * length cs)"
proof -
  have rs: "rs_inv \<lparr>rs_outage = outage_default, rs_hosts = m, rs_cancelled = False\<rparr>"
    by (simp add: rs_inv_def outage_inv_default)
  have kr: "kr_inv \<lparr>kr_outage = outage_default, kr_cancelled = False\<rparr>"
    by (simp add: kr_inv_def outage_inv_default)
  show ?thesis
    using redis_stream_task.run_cancelled [OF rs, of as TokenCancelled V R host topic more_as]
      redis_stream_task.run_total_wait [OF rs, of V R host topic as]
      redis_pubsub_task.run_cancelled [OF outage_inv_default, of host topic bs PsCancelled L Q more_bs]
      redis_pubsub_task.run_total_wait [OF outage_inv_default, of L Q host topic bs]
      kafka_task.run_cancelled [OF kr, of testing uuid host topic cs KrCancelled D more_cs]
      kafka_task.run_total_wait [OF kr, of D testing uuid host topic cs]
    by (simp add: rs_start_stream_def ps_start_stream_def kr_start_stream_def MAX_BACKOFF_def)
qed

theorem cancelled_tasks_return_witness:
  "snd (rs_start_stream example_env plain_errors ''h'' ''t'' [] ([Attempt rs_bad, Attempt rs_good] @ TokenCancelled # [])) = Returned \<and>
   snd (ps_start_stream plain_lib plain_redis_errors ''h'' ''t'' ([PsAttempt ps_bad, PsAttempt ps_good] @ PsCancelled # [])) = Returned \<and>
   snd (kr_start_stream plain_kafka_debug False ''u'' ''h'' ''t'' ([KrAttempt kr_bad, KrAttempt kr_good] @ KrCancelled # [])) = Returned"
proof -
  note C = cancelled_tasks_return [where m = "[]" and host = "''h''" and topic = "''t''" and as = "[Attempt rs_bad, Attempt rs_good]"
      and R = plain_errors and V = example_env and bs = "[PsAttempt ps_bad, PsAttempt ps_good]" and Q = plain_redis_errors
      and L = plain_lib and cs = "[KrAttempt kr_bad, KrAttempt kr_good]" and D = plain_kafka_debug and testing = False
      and uuid = "''u''" and more_as = "[]" and more_bs = "[]" and more_cs = "[]"]
  have 1: "list_all rs_ended [Attempt rs_bad, Attempt rs_good]"
    by (simp add: rs_bad_def rs_good_def)
  have 2: "list_all (ps_ended ''h'' ''t'') [PsAttempt ps_bad, PsAttempt ps_good]"
    by (simp add: ps_bad_def ps_good_def connect_and_subscribe_def)
  have 3: "list_all (kr_ended False ''u'' ''h'' ''t'') [KrAttempt kr_bad, KrAttempt kr_good]"
    by (simp add: kr_bad_def kr_good_def)
  show ?thesis
    by (simp only: C [THEN conjunct1, THEN mp, OF 1, THEN conjunct1]
        C [THEN conjunct2, THEN conjunct1, THEN mp, OF 2, THEN conjunct1]
        C [THEN conjunct2, THEN conjunct2, THEN mp, OF 3, THEN conjunct1]) simp
qed

end
