(* ===== verification/Kafka_Delivery.thy ===== *)
theory Kafka_Delivery
  imports Kafka_Log Delivery Task_Life
begin

text \<open>
  Kafka from the publisher to the subscriber: texts published by \<^verbatim>\<open>src/src/kafka_impl/mod.rs\<close> are
  stored by the broker, consumed by the task of \<^verbatim>\<open>src/src/kafka_impl/runtime/mod.rs\<close>, sent into the
  channel of its cache entry and yielded by the subscriber's stream.
\<close>

section \<open>What the consumer of a task is given\<close>

text \<open>
  A consumer with a group of its own starts in each partition at an offset the broker gives it, and
  then gets the records in order; partitions mix in any way, and records that are appended
  meanwhile may follow.
\<close>

definition consumed_since :: "(int \<Rightarrow> nat) \<Rightarrow> topic_log \<Rightarrow> kafka_msg list \<Rightarrow> bool" where
  "consumed_since start log delivered \<longleftrightarrow>
     (\<exists>later. log_ok later \<and> (\<forall>p. start p \<le> length (log p) \<and>
        prefix (drop (start p) (log p)) (of_partition p delivered) \<and>
        prefix (of_partition p delivered) (drop (start p) (later p))))"

text \<open>The messages among the items of the stream; the others are errors.\<close>

definition delivered_by :: "('e + kafka_msg) list \<Rightarrow> kafka_msg list" where
  "delivered_by xs = List.map_filter (\<lambda>x. case x of Inl _ \<Rightarrow> None | Inr m \<Rightarrow> Some m) xs"

lemma delivered_by_simps [simp]:
  "delivered_by [] = []" "delivered_by (Inl e # xs) = delivered_by xs"
  "delivered_by (Inr m # xs) = m # delivered_by xs"
  by (simp_all add: delivered_by_def)

lemma consumed_from_start: "consumed_from log ms = consumed_since (\<lambda>_. 0) log ms"
  by (simp add: consumed_from_def consumed_since_def)

lemma consumed_since_payloads:
  assumes "consumed_since start log ms"
  shows "list_all (\<lambda>m. km_payload m \<noteq> None) ms"
  unfolding list_all_iff
proof
  fix m assume "m \<in> set ms"
  obtain later where ok: "log_ok later" and p: "prefix (of_partition (km_partition m) ms) (drop (start (km_partition m)) (later (km_partition m)))"
    using assms by (auto simp: consumed_since_def)
  from \<open>m \<in> set ms\<close> have "m \<in> set (of_partition (km_partition m) ms)" by simp
  then have "m \<in> set (later (km_partition m))"
    using set_mono_prefix [OF p] in_set_dropD by fast
  with ok show "km_payload m \<noteq> None" by (auto simp: log_ok_def list_all_iff)
qed

text \<open>The task sends every message that has a payload.\<close>

lemma delivered_messages:
  assumes "list_all (\<lambda>m. km_payload m \<noteq> None) (delivered_by xs)"
  shows "map string_from (List.map_filter item_message xs) = map (conv string_from_bytes) (delivered_by xs)"
  using assms
proof (induction xs)
  case (Cons x xs)
  then show ?case
    by (cases x) (auto simp: item_message_def runtime_convert_to_message_def conv_def string_from_eq byte_defs option.map_ident)
qed simp

section \<open>Property\<close>

text \<open>
  C2: From publisher to subscriber over Kafka: texts are published by one publisher and stored in
  whatever partitions; the task of the subscriber, after any number of attempts that could not
  connect, consumes the topic from some offsets on, with any errors between the messages. Then a
  subscriber that keeps up and has read everything was given every message its consumer was, in
  order, and with that all the published texts of a partition, with key and value and in the order
  in which they were published, after what the partition had before them from its offset on.
\<close>

theorem kafka_end_to_end:
  assumes "broadcast_documented B H" and "subscribers_reachable B (s, ps)"
    and "kafka_get_stream B now string_from (kafka_subscriber_new host (kp_topic pub)) s = (((ch, r), g), s')"
    and "map_option producer (hm_get (producer_map w) (kp_host pub)) = Some pr"
    and "publish_run (kafka_call_publish K string_into_bytes pub) calls w = (rs, w', records)"
    and "list_all (\<lambda>(v, msg). string_wf msg) calls"
    and "consumed_since start (store_all (zip parts_chosen records) before) (delivered_by (items (kt_events t)))"
    and "\<forall>p. start p \<le> length (before p)"
    and "\<forall>a \<in> set hs. \<exists>k e c. kr_fails D testing uuid host (kp_topic pub) a k e c"
    and "kr_connects testing uuid host (kp_topic pub) t"
    and "values_sent evs = sends (fst (kr_start_stream D testing uuid host (kp_topic pub) (hs @ [KrAttempt t])))"
    and "channel_run B evs r (chans s' ch) = (xs, r', c')"
    and "others_ok (ch_receiver_count B (chans s' ch) - 1) evs" and "keeps_up 100 0 evs" and "unread_after 0 evs = 0"
  shows "fst (g (stream_items dbg xs)) = map (conv string_from_bytes) (delivered_by (items (kt_events t))) \<and>
    (\<forall>p. prefix (map (conv string_from_bytes) (drop (start p) (before p)) @
        map snd (filter (\<lambda>(q, msg). q = p) (zip parts_chosen (map snd calls))))
      (map (conv string_from_bytes) (of_partition p (delivered_by (items (kt_events t))))))"
proof
  have "get_stream B now host (kp_topic pub) source.Kafka (start_of source.Kafka) string_from s = (((ch, r), g), s')"
    using assms(3) by (simp add: kafka_get_stream_def kafka_subscriber_new_def)
  note st = stream_receiver [OF assms(1,2) this]
  have "items_of xs = values_sent evs"
    using channel_run_complete [OF assms(1,12) st(1,2) assms(13,14) st(3)] assms(15) by auto
  also have "\<dots> = List.map_filter item_message (items (kt_events t))"
    using kafka_recovers [OF assms(9,10)] assms(11) by simp
  finally show "fst (g (stream_items dbg xs)) = map (conv string_from_bytes) (delivered_by (items (kt_events t)))"
    using delivered_messages [OF consumed_since_payloads [OF assms(7)]] by (simp add: st(4) typed_items)
next
  let ?log = "store_all (zip parts_chosen records) before"
  have "prefix (map (conv string_from_bytes) (drop (start p) (?log p)))
      (map (conv string_from_bytes) (of_partition p (delivered_by (items (kt_events t)))))" for p
    using assms(7) by (auto simp: consumed_since_def intro: map_mono_prefix)
  then show "\<forall>p. prefix (map (conv string_from_bytes) (drop (start p) (before p)) @
        map snd (filter (\<lambda>(q, msg). q = p) (zip parts_chosen (map snd calls))))
      (map (conv string_from_bytes) (of_partition p (delivered_by (items (kt_events t)))))"
    using assms(8) by (simp add: drop_map [symmetric] published_log [OF assms(4-6)])
qed

text \<open>A consumer made after one failed attempt, which is given both texts and an error between them.\<close>

definition example_kafka_turn :: "(unit, string) kr_try" where
  "example_kafka_turn = \<lparr>kt_create = (\<lambda>_. Inr ()), kt_subscribe = (\<lambda>_ _. Inr ()),
     kt_events = [Next (Inr (hd (example_log 1))), Next (Inl ''transient''), Next (Inr (hd (example_log 0)))]\<rparr>"

lemma example_kafka_items:
  "delivered_by (items (kt_events example_kafka_turn)) = [hd (example_log 1), hd (example_log 0)]"
  by (simp add: example_kafka_turn_def)

lemma example_logs:
  "example_log 0 = [kafka_delivery 0 0 (example_record (string_new (Some ''k'') ''a''))]"
  "example_log 1 = [kafka_delivery 1 0 (example_record (string_from_value ''b''))]"
  "p \<noteq> 0 \<Longrightarrow> p \<noteq> 1 \<Longrightarrow> example_log p = []"
  by (simp_all add: example_log_def example_texts_def append_record_def)

lemma example_consumed_since:
  "consumed_since (\<lambda>_. 0) example_log (delivered_by (items (kt_events example_kafka_turn)))"
proof -
  have "log_ok example_log" unfolding example_log_def by (intro log_ok_store log_ok_empty)
  moreover have "of_partition p [hd (example_log 1), hd (example_log 0)] = example_log p" for p
    using example_logs(3) [of p] by (cases "p = 0"; cases "p = 1") (auto simp: example_logs(1,2) kafka_delivery_def)
  ultimately show ?thesis
    unfolding consumed_since_def example_kafka_items by (intro exI [of _ example_log]) simp
qed

theorem kafka_end_to_end_witness:
  "\<exists>r g s'. kafka_get_stream log_broadcast 0 string_from (kafka_subscriber_new ''h'' ''t'')
      (process_init (\<lambda>_. \<lparr>lc_sent = [], lc_capacity = 0, lc_receivers = 0\<rparr>)) = (((0, r), g), s') \<and>
    fst (g (stream_items (\<lambda>_. []) (fst (channel_run log_broadcast
      [Sent (string_into_bytes (string_from_value ''b'')), Polled,
       Sent (string_into_bytes (string_new (Some ''k'') ''a'')), Polled] r (chans s' 0))))) =
      [string_from_value ''b'', string_new (Some ''k'') ''a'']"
proof -
  let ?s = "process_init (\<lambda>_. \<lparr>lc_sent = [], lc_capacity = 0, lc_receivers = 0\<rparr>) ::
    (byte_message log_channel, stream_task) process"
  let ?pub = "kafka_publisher_new ''h'' ''t''"
  let ?evs = "[Sent (string_into_bytes (string_from_value ''b'')), Polled,
       Sent (string_into_bytes (string_new (Some ''k'') ''a'')), Polled] :: (nat, byte_message) channel_event list"
  obtain r g s' where g: "kafka_get_stream log_broadcast 0 string_from (kafka_subscriber_new ''h'' (kp_topic ?pub)) ?s = (((0, r), g), s')"
    by (simp add: kafka_get_stream_def get_stream_def get_raw_stream_eq_write cache_defs_all process_init_def log_broadcast_def)
  obtain xs r' c' where x: "channel_run log_broadcast ?evs r (chans s' 0) = (xs, r', c')"
    by (metis prod_cases3)
  obtain rs w' where pub: "publish_run (kafka_call_publish example_kafka string_into_bytes ?pub) example_calls example_producers =
      (rs, w', map example_record example_texts)"
    by (rule example_published)
  have fails: "\<forall>a \<in> set [KrAttempt kr_bad]. \<exists>k e c. kr_fails plain_kafka_debug False ''u'' ''h'' (kp_topic ?pub) a k e c"
    using bad_turns_fail(3) by (simp add: kafka_publisher_new_def)
  have conn: "kr_connects False ''u'' ''h'' (kp_topic ?pub) example_kafka_turn"
    by (simp add: example_kafka_turn_def)
  have "values_sent ?evs = List.map_filter item_message (items (kt_events example_kafka_turn))"
    by (simp add: example_kafka_turn_def example_logs kafka_delivery_def example_record_def item_message_def
        runtime_convert_to_message_def string_defs byte_defs)
  then have v: "values_sent ?evs = sends (fst (kr_start_stream plain_kafka_debug False ''u'' ''h'' (kp_topic ?pub)
      ([KrAttempt kr_bad] @ [KrAttempt example_kafka_turn])))"
    using kafka_recovers [OF fails conn] by simp
  have "fst (g (stream_items (\<lambda>_. []) xs)) = map (conv string_from_bytes) (delivered_by (items (kt_events example_kafka_turn)))"
    using kafka_end_to_end [OF log_broadcast_documented sub_start g example_producer_cached pub example_texts_wf
        example_consumed_since [unfolded example_log_def] _ fails conn v x, of "\<lambda>_. []"]
    by simp
  also have "\<dots> = [string_from_value ''b'', string_new (Some ''k'') ''a'']"
    using example_texts_wf
    by (simp add: example_kafka_items example_logs kafka_delivery_def example_record_def conv_def
        string_from_eq [symmetric] example_calls_def example_texts_def)
      (simp add: string_from_eq string_from_into_bytes [unfolded string_from_eq])
  finally have "fst (g (stream_items (\<lambda>_. []) xs)) = [string_from_value ''b'', string_new (Some ''k'') ''a'']" .
  then show ?thesis using g x by (auto simp: kafka_publisher_new_def)
qed

end
