(* ===== verification/Traits.thy ===== *)
theory Traits
  imports Publish Subscribers
begin

text \<open>
  The traits of \<^verbatim>\<open>src/src/lib.rs\<close> and \<open>StreamMessage\<close> of
  \<^verbatim>\<open>src/src/redis_impls/stream/stream_message.rs\<close> as records of their methods, one record per trait, and
  the implementations of the crate as values of them, which code that is generic over a trait is
  given as an argument. What the documentation of \<open>Message\<close> promises is a predicate on its record.
\<close>

section \<open>Messages\<close>

text \<open>
  The methods of \<open>Message\<close>, with its supertrait \<open>From<ByteMessage>\<close>. The borrowing accessors give
  the values they borrow; \<open>into_bytes\<close> may panic.
\<close>

record ('k, 'v, 'm) message_impl =
  mi_new :: "'k option \<Rightarrow> 'v \<Rightarrow> 'm"
  mi_from_value :: "'v \<Rightarrow> 'm"
  mi_from_bytes :: "bytes option \<Rightarrow> bytes \<Rightarrow> 'm"
  mi_extract_key :: "'m \<Rightarrow> 'k option"
  mi_extract_key_value :: "'m \<Rightarrow> 'k option \<times> 'v"
  mi_extract_value :: "'m \<Rightarrow> 'v"
  mi_into_bytes :: "'m \<Rightarrow> byte_message outcome"
  mi_key :: "'m \<Rightarrow> 'k option"
  mi_key_ref :: "'m \<Rightarrow> 'k option"
  mi_value :: "'m \<Rightarrow> 'v"
  mi_value_ref :: "'m \<Rightarrow> 'v"
  mi_from :: "byte_message \<Rightarrow> 'm"

definition byte_message_impl :: "(bytes, bytes, byte_message) message_impl" where
  "byte_message_impl =
     \<lparr>mi_new = byte_new, mi_from_value = byte_from_value, mi_from_bytes = byte_from_bytes,
      mi_extract_key = byte_extract_key, mi_extract_key_value = byte_extract_key_value,
      mi_extract_value = byte_extract_value, mi_into_bytes = (\<lambda>m. Ret (byte_into_bytes m)),
      mi_key = byte_key, mi_key_ref = byte_key, mi_value = byte_value, mi_value_ref = byte_value,
      mi_from = byte_from\<rparr>"

definition string_message_impl :: "(string, string, string_message) message_impl" where
  "string_message_impl =
     \<lparr>mi_new = string_new, mi_from_value = string_from_value, mi_from_bytes = string_from_bytes,
      mi_extract_key = string_extract_key, mi_extract_key_value = string_extract_key_value,
      mi_extract_value = string_extract_value, mi_into_bytes = (\<lambda>m. Ret (string_into_bytes m)),
      mi_key = string_key, mi_key_ref = string_key, mi_value = string_value, mi_value_ref = string_value,
      mi_from = string_from\<rparr>"

definition map_message_impl ::
  "map_to_vec \<Rightarrow> map_from_slice \<Rightarrow> (string, fields, map_message) message_impl" where
  "map_message_impl to_vec from_slice =
     \<lparr>mi_new = map_new, mi_from_value = map_from_value, mi_from_bytes = map_from_bytes from_slice,
      mi_extract_key = map_extract_key, mi_extract_key_value = map_extract_key_value,
      mi_extract_value = map_extract_value, mi_into_bytes = map_into_bytes to_vec,
      mi_key = map_key, mi_key_ref = map_key, mi_value = map_value, mi_value_ref = map_value,
      mi_from = map_from from_slice\<rparr>"

text \<open>
  What the documentation says of constructors and accessors: a message is its key and value,
  \<open>from_value\<close> makes one without a key, the three modes of access agree, and the two ways to
  decode bytes do.
\<close>

definition message_laws :: "('k, 'v, 'm) message_impl \<Rightarrow> bool" where
  "message_laws d \<longleftrightarrow>
     (\<forall>k v. mi_key d (mi_new d k v) = k \<and> mi_value d (mi_new d k v) = v) \<and>
     (\<forall>v. mi_from_value d v = mi_new d None v) \<and>
     (\<forall>m. mi_new d (mi_key d m) (mi_value d m) = m \<and>
        mi_key_ref d m = mi_key d m \<and> mi_value_ref d m = mi_value d m \<and>
        mi_extract_key_value d m = (mi_key d m, mi_value d m) \<and>
        mi_extract_key d m = mi_key d m \<and> mi_extract_value d m = mi_value d m) \<and>
     (\<forall>b. mi_from d b = mi_from_bytes d (byte_key b) (byte_value b))"

section \<open>Stream messages\<close>

text \<open>The trait with its one method, whose default body is that of a type that does not override it.\<close>

record ('k, 'v, 'm) stream_message_impl = "('k, 'v, 'm) message_impl" +
  si_into_stream_fields :: "'m \<Rightarrow> (string \<times> bytes) list outcome"

definition default_stream_fields :: "('k, 'v, 'm) message_impl \<Rightarrow> 'm \<Rightarrow> (string \<times> bytes) list outcome" where
  "default_stream_fields d m =
     (case mi_into_bytes d m of
        Panic \<Rightarrow> Panic
      | Ret b \<Rightarrow> Ret [(''data'', byte_extract_value b)])"

definition with_stream_fields ::
  "('k, 'v, 'm) message_impl \<Rightarrow> ('m \<Rightarrow> (string \<times> bytes) list outcome) \<Rightarrow> ('k, 'v, 'm) stream_message_impl" where
  "with_stream_fields d f = message_impl.extend d \<lparr>si_into_stream_fields = f\<rparr>"

definition byte_stream_impl :: "(bytes, bytes, byte_message) stream_message_impl" where
  "byte_stream_impl = with_stream_fields byte_message_impl (default_stream_fields byte_message_impl)"

definition string_stream_impl :: "(string, string, string_message) stream_message_impl" where
  "string_stream_impl = with_stream_fields string_message_impl (default_stream_fields string_message_impl)"

definition map_stream_impl ::
  "map_to_vec \<Rightarrow> map_from_slice \<Rightarrow> (string, fields, map_message) stream_message_impl" where
  "map_stream_impl to_vec from_slice =
     with_stream_fields (map_message_impl to_vec from_slice) (\<lambda>m. Ret (map_into_stream_fields m))"

section \<open>Publishers, snapshots, subscribers\<close>

text \<open>
  A publisher's call has what it meets and the shared state as arguments, and the commands it
  sends as part of its result, like the functions of theory \<open>Publish\<close>.
\<close>

record ('p, 'w, 'm, 's, 'k) publisher_impl =
  pi_new :: "string \<Rightarrow> string \<Rightarrow> 'p"
  pi_publish :: "'p \<Rightarrow> 'w \<Rightarrow> 'm \<Rightarrow> 's \<Rightarrow> (pubsub_error + unit) \<times> 's \<times> 'k list"

definition kafka_publisher_impl ::
  "'e kafka_lib \<Rightarrow> ('m \<Rightarrow> byte_message) \<Rightarrow>
     (kafka_publisher, ('p, 'e) kafka_call, 'm, 'p producers, future_record) publisher_impl" where
  "kafka_publisher_impl K into_bytes =
     \<lparr>pi_new = kafka_publisher_new, pi_publish = kafka_call_publish K into_bytes\<rparr>"

definition redis_pubsub_publisher_impl ::
  "('m \<Rightarrow> byte_message) \<Rightarrow>
     (redis_publisher, ('l, 'c, 'e, publish_cmd) redis_call, 'm, 'c host_map, publish_cmd) publisher_impl" where
  "redis_pubsub_publisher_impl into_bytes =
     \<lparr>pi_new = redis_publisher_new, pi_publish = redis_pubsub_call into_bytes\<rparr>"

definition redis_stream_publisher_impl ::
  "('m \<Rightarrow> byte_message) \<Rightarrow>
     (stream_publisher, ('l, 'c, 'e, xadd) redis_call, 'm, 'c host_map, xadd) publisher_impl" where
  "redis_stream_publisher_impl into_bytes =
     \<lparr>pi_new = stream_publisher_new, pi_publish = redis_stream_call into_bytes\<rparr>"

text \<open>A snapshot may still wait (\<open>None\<close>); the shared state is what it leaves.\<close>

record ('w, 'm, 's) snapshot_impl =
  ni_get :: "string \<Rightarrow> string \<Rightarrow> 'w \<Rightarrow> (pubsub_error + 'm list) option \<times> 's"

definition kafka_snapshot_impl ::
  "'e kafka_lib \<Rightarrow> ('c, 'e) consumer_env \<Rightarrow> (string \<Rightarrow> u64 \<Rightarrow> u64) \<Rightarrow> string \<Rightarrow> ('k, 'v, 'm) message_impl \<Rightarrow>
     ('e snapshot_event list, 'm, unit) snapshot_impl" where
  "kafka_snapshot_impl K E env_get uuid d =
     \<lparr>ni_get = (\<lambda>host topic evs. (kafka_snapshot_get K E env_get uuid (mi_from_bytes d) host topic evs, ()))\<rparr>"

definition redis_snapshot_impl ::
  "('l, 'c, 'e) conn_env \<Rightarrow> ('c \<Rightarrow> string \<Rightarrow> 'e + 'o redis_value) \<Rightarrow>
     ('o redis_value \<Rightarrow> 'p + 'o stream_id list) \<Rightarrow> ('o, 'p) redis_lib \<Rightarrow> to_vec \<Rightarrow> ('k, 'v, 'm) message_impl \<Rightarrow>
     ('c host_map, 'm, 'c host_map) snapshot_impl" where
  "redis_snapshot_impl E xrange_all range_reply L tv d =
     \<lparr>ni_get = (\<lambda>host topic m.
        apfst Some (redis_snapshot_get E xrange_all range_reply L tv (mi_from d) host topic m))\<rparr>"

text \<open>
  A subscriber gives a stream: the receiver on a channel, and what it makes of the receiver's
  items (\<open>MessageStream\<close>).
\<close>

type_synonym ('r, 'm) message_stream = "(nat \<times> 'r) \<times> ((string + byte_message) list \<Rightarrow> 'm list \<times> effect list)"

record ('p, 'c, 'r, 'm) subscriber_impl =
  bi_new :: "string \<Rightarrow> string \<Rightarrow> 'p"
  bi_get_stream :: "nat \<Rightarrow> 'p \<Rightarrow> ('c, stream_task) process \<Rightarrow> ('r, 'm) message_stream \<times> ('c, stream_task) process"

definition kafka_subscriber_impl ::
  "('c, 'r) byte_broadcast \<Rightarrow> ('k, 'v, 'm) message_impl \<Rightarrow> (kafka_subscriber, 'c, 'r, 'm) subscriber_impl" where
  "kafka_subscriber_impl B d =
     \<lparr>bi_new = kafka_subscriber_new, bi_get_stream = (\<lambda>now. kafka_get_stream B now (mi_from d))\<rparr>"

definition redis_pubsub_subscriber_impl ::
  "('c, 'r) byte_broadcast \<Rightarrow> ('k, 'v, 'm) message_impl \<Rightarrow> (redis_pubsub_subscriber, 'c, 'r, 'm) subscriber_impl" where
  "redis_pubsub_subscriber_impl B d =
     \<lparr>bi_new = redis_pubsub_subscriber_new, bi_get_stream = (\<lambda>now. redis_pubsub_get_stream B now (mi_from d))\<rparr>"

definition redis_stream_subscriber_impl ::
  "('c, 'r) byte_broadcast \<Rightarrow> ('k, 'v, 'm) message_impl \<Rightarrow> (redis_stream_subscriber, 'c, 'r, 'm) subscriber_impl" where
  "redis_stream_subscriber_impl B d =
     \<lparr>bi_new = redis_stream_subscriber_new, bi_get_stream = (\<lambda>now. redis_stream_get_stream B now (mi_from d))\<rparr>"

section \<open>The implementations keep the laws\<close>

lemma byte_laws: "message_laws byte_message_impl"
  by (simp add: message_laws_def byte_message_impl_def byte_defs option.map_ident)

lemma string_laws: "message_laws string_message_impl"
  by (simp add: message_laws_def string_message_impl_def string_defs byte_defs)

lemma map_laws: "message_laws (map_message_impl to_vec from_slice)"
  by (simp add: message_laws_def map_message_impl_def map_defs byte_defs)

section \<open>Properties\<close>

text \<open>
  The message types of the crate keep what the documentation of the trait promises: a message
  is its key and its value, the constructors and the three kinds of accessors agree, and so do the
  two ways to decode bytes. As stream messages they stay the messages they are; the two that take
  the default method give the one field \<open>data\<close> with their payload, a \<open>MapMessage\<close> its fields.
\<close>

theorem message_types_lawful:
  "message_laws byte_message_impl \<and> message_laws string_message_impl \<and>
   message_laws (map_message_impl to_vec from_slice) \<and>
   message_impl.truncate byte_stream_impl = byte_message_impl \<and>
   message_impl.truncate string_stream_impl = string_message_impl \<and>
   message_impl.truncate (map_stream_impl to_vec from_slice) = map_message_impl to_vec from_slice \<and>
   si_into_stream_fields byte_stream_impl b = Ret [(''data'', mi_value byte_stream_impl b)] \<and>
   si_into_stream_fields string_stream_impl s = Ret [(''data'', into_bytes_str (mi_value string_stream_impl s))] \<and>
   si_into_stream_fields (map_stream_impl to_vec from_slice) m =
     Ret (map (\<lambda>(k, v). (k, into_bytes_str v)) (mi_value (map_stream_impl to_vec from_slice) m))"
  using byte_laws string_laws map_laws [of to_vec from_slice]
  by (simp add: byte_stream_impl_def string_stream_impl_def map_stream_impl_def with_stream_fields_def
      default_stream_fields_def message_impl.defs byte_message_impl_def string_message_impl_def map_message_impl_def
      byte_defs string_defs map_into_stream_fields_def map_value_def)

end
