(* ===== verification/Pubsub_Delivery.thy ===== *)
theory Pubsub_Delivery
  imports Traits Delivery Task_Life
begin

text \<open>
  Native Redis pub/sub from the publisher to the subscriber: \<^verbatim>\<open>src/src/redis_impls/pubsub/mod.rs\<close>, the
  task of \<^verbatim>\<open>src/src/redis_impls/pubsub/runtime/mod.rs\<close> over any number of connections, the channel
  of its cache entry and the subscriber's stream, for every message type that keeps the laws of
  the trait \<open>Message\<close>.
\<close>

section \<open>The server\<close>







section \<open>The task\<close>







section \<open>The publisher\<close>


section \<open>Property\<close>








end
