(* ===== verification/Rehydration.thy ===== *)
theory Rehydration
  imports Delivery
begin

text \<open>
  The advice of \<^verbatim>\<open>src/src/lib.rs\<close> and \<^verbatim>\<open>src/src/cache.rs\<close> for subscribers that may have missed
  messages: take a snapshot to re-hydrate the missed state. Here for Redis Streams: the stream of a
  subscriber that has lagged, then a snapshot of the same topic, then the stream again.
\<close>

section \<open>A receiver over a longer time\<close>

lemma channel_run_append:
  "channel_run B (xs @ ys) r c =
     (let (as, r', c') = channel_run B xs r c; (bs, r'', c'') = channel_run B ys r' c'
      in (as @ bs, r'', c''))"
proof (induction xs arbitrary: r c)
  case (Cons x xs)
  then show ?case by (cases x) (simp_all add: case_prod_unfold Let_def)
qed (simp add: case_prod_unfold)

lemma values_sent_append [simp]: "values_sent (xs @ ys) = values_sent xs @ values_sent ys"
proof (induction xs)
  case (Cons x xs)
  then show ?case by (cases x) simp_all
qed simp

lemma values_sent_polls [simp]: "values_sent (replicate k Polled) = []"
  by (induction k) simp_all

text \<open>While the receiver lives its channel has a receiver, and keeps its capacity.\<close>

lemma channel_run_lives:
  assumes "broadcast_documented B H" and "channel_run B evs r c = (xs, r', c')"
    and "ch_receiver_count B c = Suc n" and "others_ok n evs"
  shows "0 < ch_receiver_count B c' \<and> capacity H c' = capacity H c"
  using assms(2-4)
proof (induction evs arbitrary: r c xs n)
  case (Cons ev evs)
  note IH = Cons.IH and prems = Cons.prems
  show ?case
  proof (cases ev)
    case (Sent a)
    then show ?thesis using IH [of r "ch_send B a c" xs n] prems by (simp add: documented_send [OF assms(1)])
  next
    case Polled
    obtain x r1 c1 where x: "ch_recv B r c = (x, r1, c1)" by (metis prod_cases3)
    obtain ys where "channel_run B evs r1 c1 = (ys, r', c')"
      using prems(1) by (auto simp: Polled x Let_def split: prod.splits)
    with IH [of r1 c1 ys n] prems show ?thesis by (simp add: documented_recv(2,3) [OF assms(1) x] Polled)
  next
    case OtherJoined
    obtain q d where q: "ch_subscribe B c = (q, d)" by fastforce
    with OtherJoined IH [of r d xs "Suc n"] prems documented_subscribe [OF assms(1) q] show ?thesis by simp
  next
    case (OtherPolled q)
    obtain x r1 c1 where x: "ch_recv B q c = (x, r1, c1)" by (metis prod_cases3)
    with OtherPolled IH [of r c1 xs n] prems documented_recv(2,3) [OF assms(1) x] show ?thesis by simp
  next
    case (OtherLeft q)
    with IH [of r "ch_drop B q c" xs "n - 1"] prems show ?thesis by (simp add: documented_drop [OF assms(1)])
  qed
qed simp

text \<open>
  However far behind a receiver fell, polls until nothing is left bring it to the end; a poll more
  than there were values sent is enough.
\<close>

lemma polled_dry:
  assumes "broadcast_documented B H" and "channel_run B (evs @ replicate k Polled) r c = (xs, r', c')"
    and "cursor H r = length (sent H c)" and "ch_receiver_count B c = Suc n" and "others_ok n evs"
    and "length (values_sent evs) < k"
  shows "cursor H r' = length (sent H c')" and "ch_receiver_count B c' = Suc (ch_receiver_count B c' - 1)"
    and "capacity H c' = capacity H c"
proof -
  obtain ys r1 c1 zs where ys: "channel_run B evs r c = (ys, r1, c1)"
    and zs: "channel_run B (replicate k Polled) r1 c1 = (zs, r', c')"
    using assms(2) by (auto simp: channel_run_append Let_def split: prod.splits)
  have le: "cursor H r \<le> length (sent H c)" using assms(3) by simp
  obtain gs where s: "sent H c1 = sent H c @ values_sent evs" "cursor H r1 \<le> length (sent H c1)"
    and gs: "drop (cursor H r) (sent H c @ values_sent evs) = concat gs @ drop (cursor H r1) (sent H c1)"
    using channel_run_accounts [OF assms(1) ys le assms(4,5)] by blast
  from gs have "length (values_sent evs) = length (concat gs) + (length (sent H c1) - cursor H r1)"
    using arg_cong [OF gs, of length] assms(3) by simp
  then have "length (sent H c1) - cursor H r1 < k" using assms(6) by simp
  from polls_catch_up [OF assms(1) zs s(2) this] have "cursor H r' = length (sent H c1)" by simp
  note live = channel_run_lives [OF assms(1) ys assms(4,5)]
  then have c1: "ch_receiver_count B c1 = Suc (ch_receiver_count B c1 - 1)" by simp
  have polls: "others_ok m (replicate j Polled)" for m j by (induction j) simp_all
  note more = channel_run_lives [OF assms(1) zs c1 polls]
  have "sent H c' = sent H c1"
    using channel_run_accounts [OF assms(1) zs s(2) c1 polls] by simp
  with \<open>cursor H r' = length (sent H c1)\<close> live more
  show "cursor H r' = length (sent H c')" and "ch_receiver_count B c' = Suc (ch_receiver_count B c' - 1)"
    and "capacity H c' = capacity H c"
    by simp_all
qed

section \<open>A snapshot among the polls\<close>

text \<open>What a snapshot returns when it does: the conversion of every entry present.\<close>

lemma snapshot_converts:
  assumes "fst (redis_snapshot_get E xrange_all range_reply (entry_lib V) (entry_to_vec V) convert host topic m) = Inr snap"
    and "\<forall>conn. xrange_all conn topic = Inr raw" and "range_reply raw = Inr present"
  shows "snap = map convert (List.map_filter (entry_message V) present) \<and>
    list_all (\<lambda>e. entry_message V e \<noteq> None) present"
proof -
  obtain bs where bs: "map (stream_entry_to_byte_message (entry_lib V) (entry_to_vec V)) present = map Inr bs"
    and snap: "snap = map convert bs"
    using assms by (auto simp: redis_snapshot_get_def res_bind_eq_Inr collect_results_Inr_iff split: prod.splits sum.splits)
  from bs have "map (entry_message V) present = map Some bs"
    by (auto simp: entry_message_def map_eq_conv list_eq_iff_nth_eq)
  then have "List.map_filter (entry_message V) present = bs \<and> list_all (\<lambda>e. entry_message V e \<noteq> None) present"
    by (induction present arbitrary: bs) (auto simp: Cons_eq_map_conv)
  with snap show ?thesis by simp
qed

section \<open>Property\<close>

text \<open>
  C3: A snapshot repairs what a lag has cost. A Redis Stream subscriber may fall behind as far
  as it likes; it polls until nothing is left, takes a snapshot of its topic, during which \<open>n\<close>
  more entries may have been added, and keeps up from then on. Then the snapshot is the conversion
  of all entries from the oldest one retained to the last of those \<open>n\<close>, in order, and what the
  stream yields after it is the conversion of all entries added since the snapshot began, in order.
  So no entry is missing, and the \<open>n\<close> entries added during the snapshot, and only they, come twice.
\<close>

theorem redis_snapshot_rehydrates:
  assumes "broadcast_documented B H" and "subscribers_reachable B (s, ps)"
    and "redis_stream_get_stream B now convert q s = (((ch, r), g), s')"
    and "xread_documented srv" and "\<forall>(g, a) \<in> set quiet. a = []" and "arr \<noteq> []" and "before = quiet @ (gap, arr) # polls"
    and "distinct (map sid_id (log @ added (before @ after)))"
    and "\<forall>x \<in> set (added (before @ after)). sid_id x \<noteq> ''$''"
    and "values_sent evs0 = sends (fst (snd (monitor_stream V (rss_topic q)
      (serve srv (rss_topic q) log ''$'' before :: ('o, 'e) xread_event list))))"
    and "values_sent (evs0 @ evs1) = sends (fst (snd (monitor_stream V (rss_topic q)
      (serve srv (rss_topic q) log ''$'' (before @ after) :: ('o, 'e) xread_event list))))"
    and "channel_run B (evs0 @ replicate k Polled) r (chans s' ch) = (xs0, r0, c0)"
    and "others_ok (ch_receiver_count B (chans s' ch) - 1) evs0" and "length (values_sent evs0) < k"
    and "\<forall>conn. xrange_all conn (rss_topic q) = Inr raw"
    and "range_reply raw = Inr (drop trimmed (log @ added before) @ take n (added after))"
    and "fst (redis_snapshot_get E xrange_all range_reply (entry_lib V) (entry_to_vec V) convert (rss_host q) (rss_topic q) m) = Inr snap"
    and "channel_run B evs1 r0 c0 = (xs1, r1, c1)"
    and "others_ok (ch_receiver_count B c0 - 1) evs1" and "keeps_up 100 0 evs1" and "unread_after 0 evs1 = 0"
  shows "snap = map convert (List.map_filter (entry_message V) (drop trimmed (log @ added before) @ take n (added after))) \<and>
    fst (g (stream_items dbg xs1)) = map convert (List.map_filter (entry_message V) (added after))"
proof -
  have "get_stream B now (rss_host q) (rss_topic q) RedisStream (start_of RedisStream) convert s = (((ch, r), g), s')"
    using assms(3) by (simp add: redis_stream_get_stream_def)
  note st = stream_receiver [OF assms(1,2) this]
  have "values_sent evs0 = List.map_filter (entry_message V) (arr @ added polls)"
    unfolding assms(10) monitor_stream_def monitor_loop_sends assms(7)
    by (subst received_from_first [OF assms(4-6)]) (use assms(7-9) in auto)
  moreover have "values_sent (evs0 @ evs1) = List.map_filter (entry_message V) (arr @ added (polls @ after))"
    unfolding assms(11) monitor_stream_def monitor_loop_sends assms(7) append_assoc append_Cons
    by (subst received_from_first [OF assms(4-6)]) (use assms(7-9) in auto)
  ultimately have new: "values_sent evs1 = List.map_filter (entry_message V) (added after)"
    by simp
  note dry = polled_dry [OF assms(1,12) st(1,2) assms(13,14)]
  have "100 \<le> capacity H c0" using st(3) dry(3) by simp
  then have "items_of xs1 = List.map_filter (entry_message V) (added after)"
    using channel_run_complete [OF assms(1,18) dry(1,2) assms(19,20)] assms(21) new by auto
  then have stream: "fst (g (stream_items dbg xs1)) = map convert (List.map_filter (entry_message V) (added after))"
    by (simp add: st(4) typed_items)
  with snapshot_converts [OF assms(17,15,16)] show ?thesis
    by simp
qed

text \<open>An entry of before, one received, one added during the snapshot and one after it.\<close>

theorem redis_snapshot_rehydrates_witness:
  "\<exists>r g s' snap. redis_stream_get_stream log_broadcast 0 id (redis_stream_subscriber_new ''h'' ''t'')
      (process_init (\<lambda>_. \<lparr>lc_sent = [], lc_capacity = 0, lc_receivers = 0\<rparr>)) = (((0, r), g), s') \<and>
    length snap = 3 \<and>
    (\<exists>xs. snap @ fst (g (stream_items (\<lambda>_. []) xs)) = replicate 5 (byte_from_value [7]))"
proof -
  let ?s = "process_init (\<lambda>_. \<lparr>lc_sent = [], lc_capacity = 0, lc_receivers = 0\<rparr>) ::
    (byte_message log_channel, stream_task) process"
  let ?q = "redis_stream_subscriber_new ''h'' ''t''"
  let ?m = "byte_from_value [7]"
  let ?e = "\<lambda>i. entry_of_fields i [] :: unit stream_id"
  let ?before = "[] @ ([], [?e ''2-0'']) # []" and ?after = "[([?e ''3-0''], [?e ''4-0''])]"
  let ?evs0 = "[Sent ?m] :: (nat, byte_message) channel_event list"
  let ?evs1 = "[Sent ?m, Polled, Sent ?m, Polled] :: (nat, byte_message) channel_event list"
  let ?E = "\<lparr>client_open = Inr, connect = (\<lambda>_. Inr ()), redis_error_debug = id\<rparr> :: (string, unit, string) conn_env"
  let ?snap = "replicate 3 ?m"
  obtain r g s' where g: "redis_stream_get_stream log_broadcast 0 id ?q ?s = (((0, r), g), s')"
    by (simp add: redis_stream_get_stream_def get_stream_def get_raw_stream_eq_write cache_defs_all process_init_def
        log_broadcast_def)
  obtain xs0 r0 c0 where x0: "channel_run log_broadcast (?evs0 @ replicate 2 Polled) r (chans s' 0) = (xs0, r0, c0)"
    by (metis prod_cases3)
  obtain xs1 r1 c1 where x1: "channel_run log_broadcast ?evs1 r0 c0 = (xs1, r1, c1)"
    by (metis prod_cases3)
  have msg: "entry_message example_env (?e i) = Some ?m" and
    conv: "stream_entry_to_byte_message (entry_lib example_env) (entry_to_vec example_env) (?e i) = Inr ?m" for i
    by (simp_all add: example_env_def entry_of_fields_def entry_message_def stream_entry_to_byte_message_def
        redis_value_to_byte_message_def redis_value_to_json_bytes_def stream_entry_to_redis_value_def json_value_to_bytes_def)
  have rec: "received (serve example_server (rss_topic ?q) [?e ''1-0''] ''$'' ?before :: (unit, unit) xread_event list) = [?e ''2-0'']"
    "received (serve example_server (rss_topic ?q) [?e ''1-0''] ''$'' (?before @ ?after) :: (unit, unit) xread_event list) =
      [?e ''2-0'', ?e ''3-0'', ?e ''4-0'']"
    by (simp_all add: example_server_def entry_of_fields_def)
  have v0: "values_sent ?evs0 = sends (fst (snd (monitor_stream example_env (rss_topic ?q)
      (serve example_server (rss_topic ?q) [?e ''1-0''] ''$'' ?before :: (unit, unit) xread_event list))))"
    by (simp only: monitor_stream_def monitor_loop_sends rec) (simp add: msg)
  have v1: "values_sent (?evs0 @ ?evs1) = sends (fst (snd (monitor_stream example_env (rss_topic ?q)
      (serve example_server (rss_topic ?q) [?e ''1-0''] ''$'' (?before @ ?after) :: (unit, unit) xread_event list))))"
    by (simp only: monitor_stream_def monitor_loop_sends rec) (simp add: msg)
  have snap: "fst (redis_snapshot_get ?E (\<lambda>_ _. Inr (RArray [])) (\<lambda>_. Inr (drop 0 ([?e ''1-0''] @ added ?before) @ take 1 (added ?after)))
      (entry_lib example_env) (entry_to_vec example_env) id (rss_host ?q) (rss_topic ?q) []) = Inr ?snap"
    by (simp add: redis_snapshot_get_def get_connection_def get_connection_read_def get_connection_write_eq conv numeral_3_eq_3)
  have "?snap = map id (List.map_filter (entry_message example_env) (drop 0 ([?e ''1-0''] @ added ?before) @ take 1 (added ?after))) \<and>
      fst (g (stream_items (\<lambda>_. []) xs1)) = map id (List.map_filter (entry_message example_env) (added ?after))"
    by (rule redis_snapshot_rehydrates [OF log_broadcast_documented sub_start g example_server_documented _ _ refl _ _ v0 v1 x0 _ _ _ _ snap x1,
          where raw = "RArray []"])
      (simp_all add: entry_of_fields_def)
  then have "?snap @ fst (g (stream_items (\<lambda>_. []) xs1)) = replicate 5 ?m"
    by (simp add: msg eval_nat_numeral)
  moreover have "length ?snap = 3" by simp
  ultimately show ?thesis using g by blast
qed

end
