(* ===== verification/Redis_Connections.thy ===== *)
theory Redis_Connections
  imports Redis_Values
begin

text \<open>
  The shared Redis connections of \<^verbatim>\<open>src/src/redis_impls/mod.rs\<close> under any interleaving of their
  users: publishers and snapshots, which get a connection and let go of it, and stream tasks
  (\<^verbatim>\<open>stream/runtime/mod.rs\<close>), which also evict it by its host after a failed poll.
\<close>

section \<open>Users and steps\<close>

text \<open>
  What a user does next. \<open>WantsWrite\<close> has missed under the read lock, \<open>Holds\<close> has a clone of a
  connection, \<open>WantsEvict\<close> has seen a poll fail and waits for the lock.
\<close>

datatype 'c user = Idle | WantsWrite string | Holds string 'c | WantsEvict string

record 'c pool =
  pool_hosts :: "'c host_map"
  pool_users :: "nat \<Rightarrow> 'c user"

definition pool_init :: "'c pool" where
  "pool_init = \<lparr>pool_hosts = [], pool_users = (\<lambda>_. Idle)\<rparr>"

text \<open>What can be seen of a step: connections opened, polls failed, connections evicted.\<close>

datatype 'c pool_event = ConnOpened string 'c | PollFailed string 'c | ConnEvicted string 'c

text \<open>
  The critical sections. The world keeps the connections that were opened, whatever the section
  then does with them; what was evicted is what the map had before and no longer has.
\<close>

definition pool_read :: "string \<Rightarrow> 'c host_map \<Rightarrow> 'c user" where
  "pool_read host m =
     (case get_connection_read host m of
        Some (conn, _) \<Rightarrow> Holds host conn
      | None \<Rightarrow> WantsWrite host)"

definition recording :: "('l \<Rightarrow> 'e + 'c) \<Rightarrow> 'l \<Rightarrow> 'c list \<Rightarrow> ('e + 'c) \<times> 'c list" where
  "recording connect client opened =
     (case connect client of Inl e \<Rightarrow> (Inl e, opened) | Inr conn \<Rightarrow> (Inr conn, opened @ [conn]))"

definition pool_write ::
  "(string \<Rightarrow> 'e + 'l) \<Rightarrow> ('l \<Rightarrow> 'e + 'c) \<Rightarrow> string \<Rightarrow> 'c host_map \<Rightarrow> 'c user \<times> 'c host_map \<times> 'c pool_event list" where
  "pool_write client_open connect host m =
     (let (r, m', opened) = get_connection_write_io client_open (recording connect) host m []
      in (case r of Inl _ \<Rightarrow> Idle | Inr conn \<Rightarrow> Holds host conn, m', map (ConnOpened host) opened))"

definition pool_evict :: "string \<Rightarrow> 'c host_map \<Rightarrow> 'c host_map \<times> 'c pool_event list" where
  "pool_evict host m =
     (let m' = evict_connection host m
      in (m', map (\<lambda>(h, conn). ConnEvicted h conn) (filter (\<lambda>x. x \<notin> set m') m)))"

text \<open>\<open>E\<close> are the ways opening a client and connecting may go at the time of a call.\<close>

type_synonym ('l, 'c, 'e) openings = "((string \<Rightarrow> 'e + 'l) \<times> ('l \<Rightarrow> 'e + 'c)) set"

inductive pool_step :: "('l, 'c, 'e) openings \<Rightarrow> 'c pool \<Rightarrow> 'c pool_event list \<Rightarrow> 'c pool \<Rightarrow> bool" for E where
  read_section: "pool_users w i = Idle \<Longrightarrow>
     pool_step E w [] (w\<lparr>pool_users := (pool_users w)(i := pool_read host (pool_hosts w))\<rparr>)"
| write_section: "pool_users w i = WantsWrite host \<Longrightarrow> (client_open, connect) \<in> E \<Longrightarrow>
     pool_write client_open connect host (pool_hosts w) = (u, m, es) \<Longrightarrow>
     pool_step E w es \<lparr>pool_hosts = m, pool_users = (pool_users w)(i := u)\<rparr>"
| let_go: "pool_users w i = Holds host conn \<Longrightarrow>
     pool_step E w [] (w\<lparr>pool_users := (pool_users w)(i := Idle)\<rparr>)"
| poll_fails: "pool_users w i = Holds host conn \<Longrightarrow>
     pool_step E w [PollFailed host conn] (w\<lparr>pool_users := (pool_users w)(i := WantsEvict host)\<rparr>)"
| evict_section: "pool_users w i = WantsEvict host \<Longrightarrow> pool_evict host (pool_hosts w) = (m, es) \<Longrightarrow>
     pool_step E w es \<lparr>pool_hosts = m, pool_users = (pool_users w)(i := Idle)\<rparr>"

inductive pool_run :: "('l, 'c, 'e) openings \<Rightarrow> 'c pool \<Rightarrow> 'c pool_event list \<Rightarrow> 'c pool \<Rightarrow> bool" for E where
  no_step: "pool_run E w [] w"
| more_steps: "pool_run E w tr w' \<Longrightarrow> pool_step E w' es w'' \<Longrightarrow> pool_run E w (tr @ es) w''"

text \<open>The same as a function of a schedule: which user does what next.\<close>

datatype ('l, 'c, 'e) pool_action =
    DoRead nat string
  | DoWrite nat "string \<Rightarrow> 'e + 'l" "'l \<Rightarrow> 'e + 'c"
  | DoLetGo nat
  | DoFail nat
  | DoEvict nat

fun pool_act :: "('l, 'c, 'e) pool_action \<Rightarrow> 'c pool \<Rightarrow> ('c pool_event list \<times> 'c pool) option" where
  "pool_act (DoRead i host) w =
     (case pool_users w i of
        Idle \<Rightarrow> Some ([], w\<lparr>pool_users := (pool_users w)(i := pool_read host (pool_hosts w))\<rparr>)
      | _ \<Rightarrow> None)"
| "pool_act (DoWrite i client_open connect) w =
     (case pool_users w i of
        WantsWrite host \<Rightarrow>
          (let (u, m, es) = pool_write client_open connect host (pool_hosts w)
           in Some (es, \<lparr>pool_hosts = m, pool_users = (pool_users w)(i := u)\<rparr>))
      | _ \<Rightarrow> None)"
| "pool_act (DoLetGo i) w =
     (case pool_users w i of
        Holds host conn \<Rightarrow> Some ([], w\<lparr>pool_users := (pool_users w)(i := Idle)\<rparr>)
      | _ \<Rightarrow> None)"
| "pool_act (DoFail i) w =
     (case pool_users w i of
        Holds host conn \<Rightarrow> Some ([PollFailed host conn], w\<lparr>pool_users := (pool_users w)(i := WantsEvict host)\<rparr>)
      | _ \<Rightarrow> None)"
| "pool_act (DoEvict i) w =
     (case pool_users w i of
        WantsEvict host \<Rightarrow>
          (let (m, es) = pool_evict host (pool_hosts w)
           in Some (es, \<lparr>pool_hosts = m, pool_users = (pool_users w)(i := Idle)\<rparr>))
      | _ \<Rightarrow> None)"

fun pool_acts :: "('l, 'c, 'e) pool_action list \<Rightarrow> 'c pool \<Rightarrow> ('c pool_event list \<times> 'c pool) option" where
  "pool_acts [] w = Some ([], w)"
| "pool_acts (a # as) w =
     (case pool_act a w of
        None \<Rightarrow> None
      | Some (es, w') \<Rightarrow> map_option (\<lambda>(tr, w''). (es @ tr, w'')) (pool_acts as w'))"

lemma pool_act_step:
  fixes a :: "('l, 'c, 'e) pool_action"
  assumes "pool_act a w = Some (es, w')"
  shows "pool_step (UNIV :: ('l, 'c, 'e) openings) w es w'"
proof (cases a)
  case (DoWrite i opn con)
  then obtain host u m where w: "pool_users w i = WantsWrite host" and
    p: "pool_write opn con host (pool_hosts w) = (u, m, es)" and w': "w' = \<lparr>pool_hosts = m, pool_users = (pool_users w)(i := u)\<rparr>"
    using assms by (auto split: user.splits prod.splits)
  show ?thesis unfolding w' by (rule write_section [OF w UNIV_I p])
next
  case (DoEvict i)
  then show ?thesis using assms by (auto split: user.splits prod.splits intro: evict_section)
qed (use assms in \<open>auto split: user.splits intro: pool_step.intros\<close>)

lemma pool_acts_run:
  fixes as :: "('l, 'c, 'e) pool_action list"
  assumes "pool_run (UNIV :: ('l, 'c, 'e) openings) w0 tr0 w" and "pool_acts as w = Some (tr, w')"
  shows "pool_run (UNIV :: ('l, 'c, 'e) openings) w0 (tr0 @ tr) w'"
  using assms
proof (induction as arbitrary: tr0 w tr)
  case (Cons a as)
  obtain es w1 tr1 where a: "pool_act a w = Some (es, w1)" and r: "pool_acts as w1 = Some (tr1, w')" "tr = es @ tr1"
    using Cons.prems(2) by (auto split: option.splits)
  from Cons.IH [OF more_steps [OF Cons.prems(1) pool_act_step [OF a]] r(1)] show ?case by (simp add: r(2))
qed simp

section \<open>Counting\<close>

fun opens :: "string \<Rightarrow> 'c pool_event \<Rightarrow> bool" where
  "opens h (ConnOpened host _) = (host = h)"
| "opens h _ = False"

fun fails :: "string \<Rightarrow> 'c pool_event \<Rightarrow> bool" where
  "fails h (PollFailed host _) = (host = h)"
| "fails h _ = False"

fun evicts :: "string \<Rightarrow> 'c pool_event \<Rightarrow> bool" where
  "evicts h (ConnEvicted host _) = (host = h)"
| "evicts h _ = False"

abbreviation how_many :: "('a \<Rightarrow> bool) \<Rightarrow> 'a list \<Rightarrow> nat" where
  "how_many P xs \<equiv> length (filter P xs)"

text \<open>The users that are about to evict a host: each has seen a failure, and uses it up.\<close>

definition evictors :: "string \<Rightarrow> 'c pool \<Rightarrow> nat set" where
  "evictors h w = {i. pool_users w i = WantsEvict h}"

definition pool_inv :: "string \<Rightarrow> 'c pool_event list \<Rightarrow> 'c pool \<Rightarrow> bool" where
  "pool_inv h tr w \<longleftrightarrow> hm_wf (pool_hosts w) \<and>
     how_many (opens h) tr = how_many (evicts h) tr + (if hm_get (pool_hosts w) h = None then 0 else 1) \<and>
     finite (evictors h w) \<and> how_many (evicts h) tr + card (evictors h w) \<le> how_many (fails h) tr"

lemma evictors_other:
  assumes "pool_users w i \<noteq> WantsEvict h" and "u \<noteq> WantsEvict h"
  shows "evictors h \<lparr>pool_hosts = m, pool_users = (pool_users w)(i := u)\<rparr> = evictors h w"
  using assms by (auto simp: evictors_def)

lemma evictors_more:
  "evictors h (w\<lparr>pool_users := (pool_users w)(i := WantsEvict h)\<rparr>) = insert i (evictors h w)"
  by (auto simp: evictors_def)

lemma evictors_less:
  "evictors h \<lparr>pool_hosts = m, pool_users = (pool_users w)(i := Idle)\<rparr> = evictors h w - {i}"
  by (auto simp: evictors_def)

lemma pool_read_not_evict: "pool_read host m \<noteq> WantsEvict h"
  by (auto simp: pool_read_def split: option.splits)

lemma pool_write_effect:
  assumes "pool_write client_open connect host m = (u, m', es)"
  shows "u \<noteq> WantsEvict h" and "how_many (evicts h) es = 0" and "how_many (fails h) es = 0"
    and "how_many (opens h) es + (if hm_get m h = None then 0 else 1) = (if hm_get m' h = None then 0 else 1)"
  using assms
  by (auto simp: pool_write_def get_connection_write_io_def recording_def Let_def
      split: option.splits sum.splits prod.splits if_splits)

lemma pool_write_wf: "pool_write client_open connect host m = (u, m', es) \<Longrightarrow> hm_wf m \<Longrightarrow> hm_wf m'"
  by (auto simp: pool_write_def get_connection_write_io_def recording_def Let_def hm_wf_insert
      split: option.splits sum.splits prod.splits)

lemma removed_entries:
  "hm_wf m \<Longrightarrow> filter (\<lambda>x. x \<notin> set (hm_remove m k)) m = (case hm_get m k of None \<Rightarrow> [] | Some v \<Rightarrow> [(k, v)])"
proof (induction m)
  case (Cons x m)
  have "filter (\<lambda>x. x \<notin> set (hm_remove m k)) m = filter (\<lambda>y. y \<notin> set (hm_remove (x # m) k)) m"
    using Cons.prems by (intro filter_cong) (auto simp: hm_remove_def hm_wf_def rev_image_eqI)
  moreover have "hm_get m (fst x) = None"
    using Cons.prems by (simp add: hm_get_None_iff hm_wf_def)
  ultimately show ?case
    using Cons by (cases x) (auto simp: hm_remove_def hm_get_def hm_wf_def)
qed simp

lemma pool_evict_eq:
  "hm_wf m \<Longrightarrow> pool_evict host m =
     (hm_remove m host, case hm_get m host of None \<Rightarrow> [] | Some conn \<Rightarrow> [ConnEvicted host conn])"
  by (simp add: pool_evict_def evict_connection_def removed_entries Let_def split: option.splits)

lemma pool_evict_effect:
  assumes "pool_evict host m = (m', es)" and "hm_wf m"
  shows "how_many (opens h) es = 0" and "how_many (fails h) es = 0"
    and "how_many (evicts h) es + (if hm_get m' h = None then 0 else 1) = (if hm_get m h = None then 0 else 1)"
    and "h \<noteq> host \<Longrightarrow> how_many (evicts h) es = 0" and "how_many (evicts h) es \<le> 1"
  using assms by (auto simp: pool_evict_eq split: option.splits if_splits)

lemma pool_evict_wf: "pool_evict host m = (m', es) \<Longrightarrow> hm_wf m \<Longrightarrow> hm_wf m'"
  by (auto simp: pool_evict_eq hm_wf_remove)

lemma pool_inv_step:
  assumes "pool_inv h tr w" and "pool_step E w es w'"
  shows "pool_inv h (tr @ es) w'"
  using assms(2)
proof cases
  case (read_section i host)
  with evictors_other [of w i h _ "pool_hosts w"] pool_read_not_evict [of host "pool_hosts w" h] assms(1)
  show ?thesis by (simp add: pool_inv_def evictors_def)
next
  case (write_section i host client_open connect u m)
  with evictors_other [of w i h u m] pool_write_effect [OF write_section(4), of h] pool_write_wf [OF write_section(4)] assms(1) show ?thesis
    by (simp add: pool_inv_def)
next
  case (let_go i host conn)
  with evictors_other [of w i h Idle "pool_hosts w"] assms(1) show ?thesis
    by (simp add: pool_inv_def evictors_def)
next
  case (poll_fails i host conn)
  show ?thesis
  proof (cases "host = h")
    case True
    then have "i \<notin> evictors h w" using poll_fails by (simp add: evictors_def)
    with True poll_fails assms(1) show ?thesis by (simp add: pool_inv_def evictors_more)
  next
    case False
    with poll_fails evictors_other [of w i h "WantsEvict host" "pool_hosts w"] assms(1) show ?thesis
      by (simp add: pool_inv_def evictors_def)
  qed
next
  case (evict_section i host m)
  have wf: "hm_wf (pool_hosts w)" using assms(1) by (simp add: pool_inv_def)
  note e = pool_evict_effect [OF evict_section(3) wf, of h] pool_evict_wf [OF evict_section(3) wf]
  show ?thesis
  proof (cases "host = h")
    case True
    then have "i \<in> evictors h w" using evict_section by (simp add: evictors_def)
    moreover have "finite (evictors h w)" using assms(1) by (simp add: pool_inv_def)
    ultimately have "Suc (card (evictors h w - {i})) = card (evictors h w)" by (rule card_Suc_Diff1 [rotated])
    with True evict_section e assms(1) show ?thesis by (auto simp: pool_inv_def evictors_less)
  next
    case False
    with evict_section evictors_other [of w i h Idle m] e assms(1) show ?thesis by (simp add: pool_inv_def)
  qed
qed

lemma pool_inv_init: "pool_inv h [] pool_init"
  by (simp add: pool_inv_def pool_init_def evictors_def)

lemma pool_inv_run: "pool_run E w0 tr w \<Longrightarrow> w0 = pool_init \<Longrightarrow> pool_inv h tr w"
  by (induction rule: pool_run.induct) (auto simp: pool_inv_init intro: pool_inv_step)

section \<open>Properties\<close>

text \<open>
  C17: However the users of the shared connections interleave, connections are not opened
  needlessly: every connection that was opened for a host is the one that is cached, if one is, or
  was evicted later, so none is opened and then dropped or replaced unused, and no more were evicted
  than polls failed. So without a failed poll at most one connection is ever opened for a host, and
  each failure costs at most one more.
\<close>

theorem connections_bounded:
  assumes "pool_run E pool_init tr w"
  shows "how_many (opens h) tr = how_many (evicts h) tr + (if hm_get (pool_hosts w) h = None then 0 else 1) \<and>
    how_many (evicts h) tr \<le> how_many (fails h) tr \<and> how_many (opens h) tr \<le> how_many (fails h) tr + 1"
  using pool_inv_run [OF assms refl, of h] by (simp add: pool_inv_def)

text \<open>
  Two tasks share the first connection and both see it fail; the first evicts it and opens the
  second, then the second task evicts.
\<close>

definition late_eviction :: "(unit, nat, string) pool_action list" where
  "late_eviction =
     [DoRead 0 ''h'', DoWrite 0 (\<lambda>_. Inr ()) (\<lambda>_. Inr 1), DoRead 1 ''h'', DoFail 0, DoFail 1,
      DoEvict 0, DoRead 0 ''h'', DoWrite 0 (\<lambda>_. Inr ()) (\<lambda>_. Inr 2), DoEvict 1]"

lemma late_eviction_runs:
  "map_option fst (pool_acts late_eviction pool_init) =
     Some [ConnOpened ''h'' 1, PollFailed ''h'' 1, PollFailed ''h'' 1, ConnEvicted ''h'' 1, ConnOpened ''h'' 2, ConnEvicted ''h'' 2]"
  by (simp add: late_eviction_def pool_init_def pool_read_def pool_write_def pool_evict_def get_connection_read_def
      get_connection_write_io_def recording_def evict_connection_def hm_insert_def hm_remove_def hm_get_def Let_def)

lemma late_eviction_reached:
  obtains w where "pool_run (UNIV :: (unit, nat, string) openings) pool_init
    [ConnOpened ''h'' 1, PollFailed ''h'' 1, PollFailed ''h'' 1, ConnEvicted ''h'' 1, ConnOpened ''h'' 2, ConnEvicted ''h'' 2] w"
  using late_eviction_runs pool_acts_run [OF no_step, of late_eviction pool_init] by (auto simp del: pool_acts.simps)

theorem connections_bounded_witness:
  "\<exists>tr w. pool_run (UNIV :: (unit, nat, string) openings) pool_init tr w \<and>
     how_many (opens ''h'') tr = 2 \<and> hm_get (pool_hosts w) ''h'' = None"
proof -
  obtain w where r: "pool_run (UNIV :: (unit, nat, string) openings) pool_init
      [ConnOpened ''h'' 1, PollFailed ''h'' 1, PollFailed ''h'' 1, ConnEvicted ''h'' 1, ConnOpened ''h'' 2, ConnEvicted ''h'' 2] w"
    by (rule late_eviction_reached)
  from connections_bounded [OF r, of "''h''"] show ?thesis
    by (intro exI conjI) (rule r, auto split: if_splits)
qed

text \<open>
  C40: An eviction is by host, not by connection: there is an interleaving in which a task that
  has seen the first connection fail evicts the second, newer one, on which no poll ever failed.
\<close>

theorem healthy_connection_evicted:
  "\<exists>tr w. pool_run (UNIV :: (unit, nat, string) openings) pool_init tr w \<and>
     ConnEvicted ''h'' 2 \<in> set tr \<and> PollFailed ''h'' 2 \<notin> set tr"
proof -
  obtain w where "pool_run (UNIV :: (unit, nat, string) openings) pool_init
      [ConnOpened ''h'' 1, PollFailed ''h'' 1, PollFailed ''h'' 1, ConnEvicted ''h'' 1, ConnOpened ''h'' 2, ConnEvicted ''h'' 2] w"
    by (rule late_eviction_reached)
  then show ?thesis by (intro exI conjI) (assumption, simp_all)
qed

end
