(* ===== verification/Resp.thy ===== *)
theory Resp
  imports Rust_Str
begin

text \<open>
  The wire protocol of the mock Redis server, \<^verbatim>\<open>src/src/redis_impls/testing_utils/mod.rs\<close>: the
  commands, their parser with its incremental use on a growing buffer, and the encoders of the
  replies. A string is its bytes; slicing it inside a character panics, as do the two size
  computations that can overflow. Checked arithmetic is that of the test profile.
\<close>

section \<open>Strings\<close>

text \<open>\<open>is_char_boundary\<close>: position 0, the end, or a byte that does not continue a character.\<close>

definition is_char_boundary :: "string \<Rightarrow> nat \<Rightarrow> bool" where
  "is_char_boundary s i \<longleftrightarrow> i = 0 \<or> i = length s \<or> (i < length s \<and> \<not> is_cont (byte_of_char (s ! i)))"

definition CRLF :: string where
  "CRLF = [CHR 0x0D, CHR 0x0A]"

fun find_crlf :: "string \<Rightarrow> nat option" where
  "find_crlf (a # b # s) =
     (if a = CHR 0x0D \<and> b = CHR 0x0A then Some 0 else map_option Suc (find_crlf (b # s)))"
| "find_crlf _ = None"

definition split_line :: "string \<Rightarrow> (string \<times> string) option" where
  "split_line input =
     map_option (\<lambda>idx. (take idx input, drop (idx + 2) input)) (find_crlf input)"

text \<open>
  The length of the white space character at the head of a string, 0 if there is none: the
  ASCII ones and the other characters with the property \<open>White_Space\<close> in their encoding.
\<close>

definition ws_len :: "string \<Rightarrow> nat" where
  "ws_len s =
     (case map of_char s :: nat list of
        a # r \<Rightarrow>
          if a = 32 \<or> (9 \<le> a \<and> a \<le> 13) then 1
          else (case r of
            b # r' \<Rightarrow>
              if a = 0xC2 \<and> (b = 0x85 \<or> b = 0xA0) then 2
              else (case r' of
                c # _ \<Rightarrow>
                  if a = 0xE1 \<and> b = 0x9A \<and> c = 0x80 \<or>
                     a = 0xE2 \<and> b = 0x80 \<and> (0x80 \<le> c \<and> c \<le> 0x8A \<or> c = 0xA8 \<or> c = 0xA9 \<or> c = 0xAF) \<or>
                     a = 0xE2 \<and> b = 0x81 \<and> c = 0x9F \<or>
                     a = 0xE3 \<and> b = 0x80 \<and> c = 0x80 then 3
                  else 0
              | [] \<Rightarrow> 0)
          | [] \<Rightarrow> 0)
      | [] \<Rightarrow> 0)"

text \<open>\<open>split_whitespace\<close>: \<open>cur\<close> is the word being read, \<open>skip\<close> bytes of a white space remain.\<close>

fun split_ws :: "nat \<Rightarrow> string \<Rightarrow> string \<Rightarrow> string list" where
  "split_ws skip cur [] = (if cur = [] then [] else [cur])"
| "split_ws (Suc skip) cur (c # s) = split_ws skip cur s"
| "split_ws 0 cur (c # s) =
     (if ws_len (c # s) > 0
      then (if cur = [] then [] else [cur]) @ split_ws (ws_len (c # s) - 1) [] s
      else split_ws 0 (cur @ [c]) s)"

definition split_whitespace :: "string \<Rightarrow> string list" where
  "split_whitespace s = split_ws 0 [] s"

text \<open>
  \<open>to_uppercase\<close>: letter by letter on ASCII text; on other text the Unicode mapping, which is a
  parameter.
\<close>

definition ascii_upper :: "char \<Rightarrow> char" where
  "ascii_upper c = (let n = of_char c :: nat in if 97 \<le> n \<and> n \<le> 122 then char_of (n - 32) else c)"

definition to_uppercase :: "(string \<Rightarrow> string) \<Rightarrow> string \<Rightarrow> string" where
  "to_uppercase unicode s =
     (if list_all (\<lambda>c. of_char c < (128 :: nat)) s then map ascii_upper s else unicode s)"

section \<open>Commands\<close>

datatype command =
    Client "string list"
  | Publish string string
  | Xadd string "(string \<times> string) list"
  | Xrange string
  | Xread string string
  | Subscribe "string list"
  | Unknown string "string list"

fun position :: "('a \<Rightarrow> bool) \<Rightarrow> 'a list \<Rightarrow> nat option" where
  "position P [] = None"
| "position P (x # xs) = (if P x then Some 0 else map_option Suc (position P xs))"

text \<open>\<open>chunks(2)\<close> with the incomplete last chunk dropped.\<close>

fun pairs :: "'a list \<Rightarrow> ('a \<times> 'a) list" where
  "pairs (k # v # xs) = (k, v) # pairs xs"
| "pairs _ = []"

definition xadd_fields :: "string list \<Rightarrow> (string \<times> string) list" where
  "xadd_fields rest =
     (let field_start = (case position (\<lambda>a. a = ''*'' \<or> CHR ''-'' \<in> set a) rest of
                           Some i \<Rightarrow> i + 1 | None \<Rightarrow> length rest)
      in pairs (drop field_start rest))"

definition from_parts :: "string \<Rightarrow> string list \<Rightarrow> command" where
  "from_parts cmd args =
     (if cmd = ''CLIENT'' then Client args
      else if cmd = ''PUBLISH'' \<and> length args \<ge> 2 then Publish (hd args) (last args)
      else if cmd = ''XADD'' \<and> length args \<ge> 4 then Xadd (hd args) (xadd_fields (tl args))
      else if cmd = ''XRANGE'' \<and> args \<noteq> [] then Xrange (hd args)
      else if cmd = ''XREAD'' then
        (case Option.bind (position (\<lambda>a. a = ''STREAMS'') args)
                (\<lambda>idx. if idx + 1 < length args then Some (args ! (idx + 1)) else None) of
           Some topic \<Rightarrow> Xread topic (if args = [] then ''$'' else last args)
         | None \<Rightarrow> Unknown cmd args)
      else if cmd = ''SUBSCRIBE'' then Subscribe args
      else Unknown cmd args)"

text \<open>\<open>Debug\<close> of strings (\<open>q\<close>), of vectors and of pairs of strings.\<close>

definition debug_list :: "('a \<Rightarrow> string) \<Rightarrow> 'a list \<Rightarrow> string" where
  "debug_list f xs =
     ''['' @ concat (case xs of [] \<Rightarrow> [] | y # ys \<Rightarrow> f y # map (\<lambda>z. '', '' @ f z) ys) @ '']''"

fun describe :: "(string \<Rightarrow> string) \<Rightarrow> command \<Rightarrow> string" where
  "describe q (Client args) = ''CLIENT '' @ debug_list q args"
| "describe q (Publish topic payload) = ''PUBLISH ['' @ q topic @ '', '' @ q payload @ '']''"
| "describe q (Xadd topic fields) =
     ''XADD ['' @ q topic @ '', '' @ debug_list (\<lambda>(k, v). ''('' @ q k @ '', '' @ q v @ '')'') fields @ '']''"
| "describe q (Xrange topic) = ''XRANGE ['' @ q topic @ '']''"
| "describe q (Xread topic last_seen) = ''XREAD ['' @ q topic @ '', '' @ q last_seen @ '']''"
| "describe q (Subscribe topics) = ''SUBSCRIBE '' @ debug_list q topics"
| "describe q (Unknown name args) = name @ '' '' @ debug_list q args"

section \<open>Parser\<close>

text \<open>The result is a panic or what the source returns.\<close>

definition parse_bulk_token :: "string \<Rightarrow> nat \<Rightarrow> (string \<times> string) option outcome" where
  "parse_bulk_token input len =
     (if len + 2 \<ge> 2 ^ 64 then Panic
      else if length input < len + 2 then Ret None
      else if \<not> is_char_boundary input len then Panic
      else if take 2 (drop len input) \<noteq> CRLF then Ret None
      else Ret (Some (take len input, drop (len + 2) input)))"

definition build_command :: "(string \<Rightarrow> string) \<Rightarrow> string list \<Rightarrow> command option" where
  "build_command unicode parts =
     (case parts of
        [] \<Rightarrow> None
      | p # ps \<Rightarrow> Some (from_parts (to_uppercase unicode p) ps))"

fun parse_tokens :: "nat \<Rightarrow> string list \<Rightarrow> string \<Rightarrow> (string list \<times> string) option outcome" where
  "parse_tokens 0 tokens rest = Ret (Some (tokens, rest))"
| "parse_tokens (Suc n) tokens rest =
     (case split_line rest of
        None \<Rightarrow> Ret None
      | Some (len_line, after_len_line) \<Rightarrow>
          (if take 1 len_line \<noteq> ''$'' then Ret None
           else case parse_usize (drop 1 len_line) of
             None \<Rightarrow> Ret None
           | Some len \<Rightarrow>
               (case parse_bulk_token after_len_line len of
                  Panic \<Rightarrow> Panic
                | Ret None \<Rightarrow> Ret None
                | Ret (Some (token, after_token)) \<Rightarrow> parse_tokens n (tokens @ [token]) after_token)))"

text \<open>A vector of strings takes 24 bytes per element and at most \<open>isize::MAX\<close> bytes.\<close>

definition parse_one_resp_array ::
  "(string \<Rightarrow> string) \<Rightarrow> string \<Rightarrow> (command \<times> string) option outcome" where
  "parse_one_resp_array unicode input =
     (case split_line input of
        None \<Rightarrow> Ret None
      | Some (header, rest) \<Rightarrow>
          (if take 1 header \<noteq> ''*'' then Ret None
           else case parse_usize (drop 1 header) of
             None \<Rightarrow> Ret None
           | Some count \<Rightarrow>
               (if count * 24 > 2 ^ 63 - 1 then Panic
                else case parse_tokens count [] rest of
                  Panic \<Rightarrow> Panic
                | Ret None \<Rightarrow> Ret None
                | Ret (Some (tokens, rest')) \<Rightarrow>
                    Ret (map_option (\<lambda>c. (c, rest')) (build_command unicode tokens)))))"

definition parse_resp_command :: "(string \<Rightarrow> string) \<Rightarrow> string \<Rightarrow> command option" where
  "parse_resp_command unicode data = build_command unicode (split_whitespace data)"

text \<open>The body of the loop of \<open>parse_resp_commands\<close> up to its \<open>break\<close>s.\<close>

definition parse_next :: "(string \<Rightarrow> string) \<Rightarrow> string \<Rightarrow> (command \<times> string) option outcome" where
  "parse_next unicode remaining =
     (if take 1 remaining = ''*'' then parse_one_resp_array unicode remaining
      else case split_line remaining of
        None \<Rightarrow> Ret None
      | Some (line, rest) \<Rightarrow> Ret (map_option (\<lambda>cmd. (cmd, rest)) (parse_resp_command unicode line)))"

section \<open>Extending the input\<close>

lemma find_crlf_split: "find_crlf s = Some i \<Longrightarrow> s = take i s @ CRLF @ drop (i + 2) s"
proof (induction s arbitrary: i rule: find_crlf.induct)
  case (1 a b s)
  then show ?case
    by (cases i) (auto simp: CRLF_def split: if_splits)
qed auto

lemma find_crlf_extend: "find_crlf s = Some i \<Longrightarrow> find_crlf (s @ t) = Some i"
  by (induction s arbitrary: i rule: find_crlf.induct) (auto split: if_splits)

lemma split_line_eq: "split_line s = Some (l, r) \<Longrightarrow> s = l @ CRLF @ r"
  using find_crlf_split by (auto simp: split_line_def)

lemma find_crlf_bound: "find_crlf s = Some i \<Longrightarrow> i + 2 \<le> length s"
  by (induction s arbitrary: i rule: find_crlf.induct) (auto split: if_splits)

lemma split_line_extend: "split_line s = Some (l, r) \<Longrightarrow> split_line (s @ t) = Some (l, r @ t)"
  using find_crlf_bound by (fastforce simp: split_line_def find_crlf_extend)

text \<open>A token is accepted exactly when it has the announced length and is followed by a line end.\<close>

lemma parse_bulk_token_Some:
  "parse_bulk_token s n = Ret (Some (l, r)) \<longleftrightarrow> n = length l \<and> n + 2 < 2 ^ 64 \<and> s = l @ CRLF @ r"
proof
  assume p: "parse_bulk_token s n = Ret (Some (l, r))"
  have "take n s @ take 2 (drop n s) @ drop (n + 2) s = s"
    by (metis add.commute append_take_drop_id drop_drop)
  moreover from p have "n + 2 < 2 ^ 64" "n + 2 \<le> length s" "take 2 (drop n s) = CRLF"
    "l = take n s" "r = drop (n + 2) s"
    by (auto simp: parse_bulk_token_def split: if_splits)
  ultimately show "n = length l \<and> n + 2 < 2 ^ 64 \<and> s = l @ CRLF @ r" by simp
next
  assume "n = length l \<and> n + 2 < 2 ^ 64 \<and> s = l @ CRLF @ r"
  then show "parse_bulk_token s n = Ret (Some (l, r))"
    by (auto simp: parse_bulk_token_def is_char_boundary_def CRLF_def nth_append is_cont_def byte_of_char_def)
qed

lemma parse_bulk_token_extend:
  "parse_bulk_token s n = Ret (Some (l, r)) \<Longrightarrow> parse_bulk_token (s @ t) n = Ret (Some (l, r @ t))"
  by (simp add: parse_bulk_token_Some)

lemma parse_tokens_extend:
  "parse_tokens n ts s = Ret (Some (l, r)) \<Longrightarrow> parse_tokens n ts (s @ t) = Ret (Some (l, r @ t))"
  by (induction n ts s rule: parse_tokens.induct)
    (auto simp: split_line_extend parse_bulk_token_extend split: option.splits outcome.splits if_splits)

lemma suffix_CRLF: "s = l @ CRLF @ r \<Longrightarrow> suffix r s"
  by (auto simp: suffix_def)

lemma parse_tokens_suffix:
  "parse_tokens n ts s = Ret (Some (l, r)) \<Longrightarrow> suffix r s"
proof (induction n arbitrary: ts s)
  case (Suc n)
  from Suc.prems obtain ll a m token b where
    1: "split_line s = Some (ll, a)" and 2: "parse_bulk_token a m = Ret (Some (token, b))"
    and 3: "parse_tokens n (ts @ [token]) b = Ret (Some (l, r))"
    by (auto split: option.splits outcome.splits if_splits)
  have "suffix a s" using split_line_eq [OF 1] by (rule suffix_CRLF)
  moreover have "suffix b a" using 2 by (auto simp: parse_bulk_token_Some intro: suffix_CRLF)
  ultimately show ?case
    using Suc.IH [OF 3] suffix_order.trans by blast
qed simp

lemma parse_one_extend:
  "parse_one_resp_array u s = Ret (Some (c, r)) \<Longrightarrow> parse_one_resp_array u (s @ t) = Ret (Some (c, r @ t))"
  by (auto simp: parse_one_resp_array_def split_line_extend parse_tokens_extend
      split: option.splits outcome.splits if_splits)

text \<open>What remains after a command is a proper suffix.\<close>

lemma split_line_strict: "split_line s = Some (l, r) \<Longrightarrow> strict_suffix r s"
  by (drule split_line_eq) (auto simp: strict_suffix_def suffix_def CRLF_def)

lemma parse_one_strict: "parse_one_resp_array u s = Ret (Some (c, r)) \<Longrightarrow> strict_suffix r s"
proof -
  assume "parse_one_resp_array u s = Ret (Some (c, r))"
  then obtain header rest n tokens where "split_line s = Some (header, rest)"
    "parse_tokens n [] rest = Ret (Some (tokens, r))"
    by (auto simp: parse_one_resp_array_def split: option.splits outcome.splits if_splits)
  then show ?thesis
    using split_line_strict parse_tokens_suffix suffix_order.le_less_trans by blast
qed

lemma parse_next_strict: "parse_next u s = Ret (Some (c, r)) \<Longrightarrow> strict_suffix r s"
  by (auto simp: parse_next_def split: option.splits if_splits dest: parse_one_strict split_line_strict)

lemma parse_next_shorter: "parse_next u s = Ret (Some (c, r)) \<Longrightarrow> length r < length s"
  by (drule parse_next_strict) (auto simp: strict_suffix_def suffix_def)

lemma parse_next_extend: "parse_next u s = Ret (Some (c, r)) \<Longrightarrow> parse_next u (s @ t) = Ret (Some (c, r @ t))"
proof -
  assume p: "parse_next u s = Ret (Some (c, r))"
  then have "take 1 (s @ t) = take 1 s"
    using parse_next_shorter by (cases s) fastforce+
  with p show ?thesis
    by (auto simp: parse_next_def parse_one_extend split_line_extend split: option.splits if_splits)
qed

lemma is_char_boundary_extend: "i < length s \<Longrightarrow> is_char_boundary (s @ t) i = is_char_boundary s i"
  by (auto simp: is_char_boundary_def nth_append)

lemma parse_bulk_token_panic: "parse_bulk_token s n = Panic \<Longrightarrow> parse_bulk_token (s @ t) n = Panic"
  by (auto simp: parse_bulk_token_def is_char_boundary_extend split: if_splits)

lemma parse_tokens_panic: "parse_tokens n ts s = Panic \<Longrightarrow> parse_tokens n ts (s @ t) = Panic"
  by (induction n ts s rule: parse_tokens.induct)
    (auto simp: split_line_extend parse_bulk_token_extend parse_bulk_token_panic
      split: option.splits outcome.splits if_splits)

lemma parse_one_panic: "parse_one_resp_array u s = Panic \<Longrightarrow> parse_one_resp_array u (s @ t) = Panic"
  by (auto simp: parse_one_resp_array_def split_line_extend parse_tokens_extend parse_tokens_panic
      split: option.splits outcome.splits if_splits)

lemma parse_next_panic: "parse_next u s = Panic \<Longrightarrow> parse_next u (s @ t) = Panic"
  using parse_one_panic [of u s t]
  by (cases s) (auto simp: parse_next_def split: option.splits if_splits)

section \<open>The loop\<close>

function parse_loop :: "(string \<Rightarrow> string) \<Rightarrow> string \<Rightarrow> command list \<Rightarrow> (command list \<times> string) outcome" where
  "parse_loop u remaining commands =
     (case parse_next u remaining of
        Panic \<Rightarrow> Panic
      | Ret None \<Rightarrow> Ret (commands, remaining)
      | Ret (Some (cmd, rest)) \<Rightarrow>
          (if length rest = length remaining then Ret (commands, remaining)
           else parse_loop u rest (commands @ [cmd])))"
  by pat_completeness auto
termination
  by (relation "measure (\<lambda>(u, s, cs). length s)") (auto dest: parse_next_shorter)

declare parse_loop.simps [simp del]

text \<open>The second component of the source's result is the number of bytes consumed.\<close>

definition parse_resp_commands :: "(string \<Rightarrow> string) \<Rightarrow> string \<Rightarrow> (command list \<times> nat) outcome" where
  "parse_resp_commands u input =
     (case parse_loop u input [] of
        Panic \<Rightarrow> Panic
      | Ret (commands, remaining) \<Rightarrow> Ret (commands, length input - length remaining))"

text \<open>
  What makes it safe to parse a growing buffer: a parser step that succeeds gives the same result
  whatever follows, and consumes something.
\<close>

locale prefix_parser =
  fixes next_item :: "'s list \<Rightarrow> ('c \<times> 's list) option outcome"
    and loop :: "'s list \<Rightarrow> 'c list \<Rightarrow> ('c list \<times> 's list) outcome"
  assumes next_extend: "next_item s = Ret (Some (c, r)) \<Longrightarrow> next_item (s @ t) = Ret (Some (c, r @ t))"
    and next_shorter: "next_item s = Ret (Some (c, r)) \<Longrightarrow> length r < length s"
    and next_panic: "next_item s = Panic \<Longrightarrow> next_item (s @ t) = Panic"
    and next_suffix: "next_item s = Ret (Some (c, r)) \<Longrightarrow> suffix r s"
    and loop_unfold: "loop s cs =
      (case next_item s of
         Panic \<Rightarrow> Panic
       | Ret None \<Rightarrow> Ret (cs, s)
       | Ret (Some (c, r)) \<Rightarrow> if length r = length s then Ret (cs, s) else loop r (cs @ [c]))"
begin

lemma loop_resume:
  "loop s cs = Ret (cs', r) \<Longrightarrow> loop (s @ t) cs = loop (r @ t) cs'"
proof (induction s arbitrary: cs rule: length_induct)
  case (1 s)
  show ?case
  proof (cases "next_item s")
    case (Ret x)
    show ?thesis
    proof (cases x)
      case None
      with Ret 1(2) show ?thesis by (simp add: loop_unfold [of s cs])
    next
      case (Some y)
      obtain c q where y: "y = (c, q)" by (cases y)
      with Ret Some have n: "next_item s = Ret (Some (c, q))" by simp
      note l = next_shorter [OF n]
      have "loop q (cs @ [c]) = Ret (cs', r)"
        using 1(2) n l by (simp add: loop_unfold [of s cs])
      then have "loop (q @ t) (cs @ [c]) = loop (r @ t) cs'"
        using 1(1) l by blast
      then show ?thesis
        using n l by (simp add: loop_unfold [of "s @ t" cs] next_extend)
    qed
  qed (use 1(2) loop_unfold [of s cs] in simp)
qed

lemma loop_suffix: "loop s cs = Ret (cs', r) \<Longrightarrow> suffix r s"
proof (induction s arbitrary: cs rule: length_induct)
  case (1 s)
  show ?case
  proof (cases "next_item s")
    case (Ret x)
    show ?thesis
    proof (cases x)
      case None
      with Ret 1(2) show ?thesis by (simp add: loop_unfold [of s cs])
    next
      case (Some y)
      obtain c q where y: "y = (c, q)" by (cases y)
      with Ret Some have n: "next_item s = Ret (Some (c, q))" by simp
      note l = next_shorter [OF n]
      have "loop q (cs @ [c]) = Ret (cs', r)"
        using 1(2) n l by (simp add: loop_unfold [of s cs])
      then have "suffix r q" using 1(1) l by blast
      then show ?thesis using next_suffix [OF n] by (rule suffix_order.trans)
    qed
  qed (use 1(2) loop_unfold [of s cs] in simp)
qed

lemma loop_panic: "loop s cs = Panic \<Longrightarrow> loop (s @ t) cs = Panic"
proof (induction s arbitrary: cs rule: length_induct)
  case (1 s)
  show ?case
  proof (cases "next_item s")
    case Panic
    then show ?thesis by (simp add: loop_unfold [of "s @ t" cs] next_panic)
  next
    case (Ret x)
    then obtain c q where n: "next_item s = Ret (Some (c, q))"
      using 1(2) by (cases x) (auto simp: loop_unfold [of s cs])
    note l = next_shorter [OF n]
    have "loop q (cs @ [c]) = Panic"
      using 1(2) n l by (simp add: loop_unfold [of s cs])
    then have "loop (q @ t) (cs @ [c]) = Panic"
      using 1(1) l by blast
    then show ?thesis
      using n l by (simp add: loop_unfold [of "s @ t" cs] next_extend)
  qed
qed

text \<open>The commands found so far are only carried along.\<close>

lemma loop_acc:
  "loop s cs = (case loop s [] of Panic \<Rightarrow> Panic | Ret (cs', r) \<Rightarrow> Ret (cs @ cs', r))"
proof (induction s arbitrary: cs rule: length_induct)
  case (1 s)
  show ?case
  proof (cases "next_item s")
    case (Ret x)
    show ?thesis
    proof (cases x)
      case (Some y)
      obtain c q where y: "y = (c, q)" by (cases y)
      with Ret Some have n: "next_item s = Ret (Some (c, q))" by simp
      have ih: "loop q ds = (case loop q [] of Panic \<Rightarrow> Panic | Ret (cs', r) \<Rightarrow> Ret (ds @ cs', r))" for ds
        using 1 next_shorter [OF n] by blast
      show ?thesis
        using n next_shorter [OF n]
        by (simp add: loop_unfold [of s] ih [of "cs @ [c]"] ih [of "[c]"] split: outcome.splits prod.splits)
    qed (use Ret in \<open>simp add: loop_unfold [of s]\<close>)
  qed (simp add: loop_unfold [of s])
qed

text \<open>Parsing an input in two pieces, the second after what the first left, is parsing it at once.\<close>

lemma loop_append:
  "loop (s @ t) [] =
     (case loop s [] of
        Panic \<Rightarrow> Panic
      | Ret (cs, r) \<Rightarrow>
          (case loop (r @ t) [] of Panic \<Rightarrow> Panic | Ret (cs', r') \<Rightarrow> Ret (cs @ cs', r')))"
proof (cases "loop s []")
  case Panic
  then show ?thesis by (simp add: loop_panic)
next
  case (Ret x)
  obtain cs r where x: "x = (cs, r)" by (cases x)
  show ?thesis
    using loop_acc [of "r @ t" cs] Ret by (simp add: x loop_resume)
qed

end

interpretation resp: prefix_parser "parse_next u" "parse_loop u" for u
  by unfold_locales
    (auto simp: parse_next_extend parse_next_panic parse_next_shorter parse_loop.simps [of u s for s]
      dest!: parse_next_strict suffix_order.less_imp_le)

section \<open>Replies\<close>

definition encode_bulk_string :: "string \<Rightarrow> string" where
  "encode_bulk_string v = ''$'' @ show_nat (length v) @ CRLF @ v @ CRLF"

record stream_entry =
  se_id :: string
  se_fields :: "(string \<times> string) list"

definition encode_stream_entry :: "stream_entry \<Rightarrow> string" where
  "encode_stream_entry entry =
     ''*2'' @ CRLF @ encode_bulk_string (se_id entry) @
     ''*'' @ show_nat (length (se_fields entry) * 2) @ CRLF @
     concat (map (\<lambda>(field, v). encode_bulk_string field @ encode_bulk_string v) (se_fields entry))"

definition encode_stream_entries :: "stream_entry list \<Rightarrow> string" where
  "encode_stream_entries entries =
     ''*'' @ show_nat (length entries) @ CRLF @ concat (map encode_stream_entry entries)"

definition encode_xread_response :: "string \<Rightarrow> stream_entry list \<Rightarrow> string" where
  "encode_xread_response topic entries =
     ''*1'' @ CRLF @ ''*2'' @ CRLF @ encode_bulk_string topic @ encode_stream_entries entries"

definition encode_subscribe_confirmation :: "string \<Rightarrow> nat \<Rightarrow> string" where
  "encode_subscribe_confirmation topic subscription_count =
     ''*3'' @ CRLF @ ''$9'' @ CRLF @ ''subscribe'' @ CRLF @
     ''$'' @ show_nat (length topic) @ CRLF @ topic @ CRLF @ '':'' @ show_nat subscription_count @ CRLF"

definition encode_pubsub_message :: "string \<Rightarrow> string \<Rightarrow> string" where
  "encode_pubsub_message topic payload =
     ''*3'' @ CRLF @ ''$7'' @ CRLF @ ''message'' @ CRLF @
     ''$'' @ show_nat (length topic) @ CRLF @ topic @ CRLF @
     ''$'' @ show_nat (length payload) @ CRLF @ payload @ CRLF"

section \<open>Receiving\<close>

text \<open>
  The part of \<open>read_stream\<close> between a read and the execution of commands: decode what was read,
  append it to what is pending, parse, and drain what was consumed (\<open>drain\<close> panics inside a
  character).
\<close>

definition receive :: "(string \<Rightarrow> string) \<Rightarrow> string \<Rightarrow> bytes \<Rightarrow> (command list \<times> string) outcome" where
  "receive u pending bs =
     (let input = pending @ from_utf8_lossy bs in
      case parse_resp_commands u input of
        Panic \<Rightarrow> Panic
      | Ret (commands, consumed) \<Rightarrow>
          (if consumed > 0 \<and> \<not> is_char_boundary input consumed then Panic
           else Ret (commands, if consumed > 0 then drop consumed input else input)))"

fun receive_all :: "(string \<Rightarrow> string) \<Rightarrow> string \<Rightarrow> bytes list \<Rightarrow> (command list \<times> string) outcome" where
  "receive_all u pending [] = Ret ([], pending)"
| "receive_all u pending (bs # bss) =
     (case receive u pending bs of
        Panic \<Rightarrow> Panic
      | Ret (cs, pending') \<Rightarrow>
          (case receive_all u pending' bss of
             Panic \<Rightarrow> Panic
           | Ret (cs', pending'') \<Rightarrow> Ret (cs @ cs', pending'')))"

lemma valid_str_at_crlf:
  assumes "valid_str (a @ CRLF @ b)"
  shows "valid_str a" and "valid_str b"
proof -
  have ascii: "byte_of_char (CHR 0x0D) < 0x80" "byte_of_char (CHR 0x0A) < 0x80"
    by (simp_all add: byte_of_char_def)
  have v: "valid_utf8 (into_bytes_str a @ byte_of_char (CHR 0x0D) # byte_of_char (CHR 0x0A) # into_bytes_str b)"
    using assms by (simp add: valid_str_def CRLF_def into_bytes_str_def)
  show "valid_str a" using valid_utf8_at_ascii(1) [OF v ascii(1)] by (simp add: valid_str_def)
  have "valid_utf8 ([] @ byte_of_char (CHR 0x0A) # into_bytes_str b)"
    using valid_utf8_at_ascii(2) [OF v ascii(1)] by simp
  from valid_utf8_at_ascii(2) [OF this ascii(2)] show "valid_str b" by (simp add: valid_str_def)
qed

lemma valid_str_boundary:
  assumes "valid_str b"
  shows "is_char_boundary (a @ b) (length a)"
proof (cases b)
  case (Cons c cs)
  then have "\<not> is_cont (byte_of_char c)"
    using assms valid_utf8_head by (simp add: valid_str_def into_bytes_str_def)
  with Cons show ?thesis by (simp add: is_char_boundary_def nth_append)
qed (simp add: is_char_boundary_def)

lemma parse_tokens_valid:
  "parse_tokens n ts s = Ret (Some (l, r)) \<Longrightarrow> valid_str s \<Longrightarrow> valid_str r"
proof (induction n arbitrary: ts s)
  case (Suc n)
  from Suc.prems obtain ll a m token b where
    1: "split_line s = Some (ll, a)" and 2: "parse_bulk_token a m = Ret (Some (token, b))"
    and 3: "parse_tokens n (ts @ [token]) b = Ret (Some (l, r))"
    by (auto split: option.splits outcome.splits if_splits)
  have "valid_str a" using split_line_eq [OF 1] Suc.prems(2) valid_str_at_crlf(2) by blast
  then have "valid_str b" using 2 valid_str_at_crlf(2) by (auto simp: parse_bulk_token_Some)
  with Suc.IH [OF 3] show ?case by simp
qed simp

lemma parse_next_valid:
  assumes "parse_next u s = Ret (Some (c, r))" and "valid_str s"
  shows "valid_str r"
proof (cases "take 1 s = ''*''")
  case True
  then obtain header rest n tokens where "split_line s = Some (header, rest)"
    "parse_tokens n [] rest = Ret (Some (tokens, r))"
    using assms(1) by (auto simp: parse_next_def parse_one_resp_array_def split: option.splits outcome.splits if_splits)
  then show ?thesis
    using split_line_eq valid_str_at_crlf(2) parse_tokens_valid assms(2) by metis
next
  case False
  then obtain line where "split_line s = Some (line, r)"
    using assms(1) by (auto simp: parse_next_def split: option.splits)
  then show ?thesis
    using split_line_eq valid_str_at_crlf(2) assms(2) by metis
qed

lemma parse_loop_valid:
  "parse_loop u s cs = Ret (cs', r) \<Longrightarrow> valid_str s \<Longrightarrow> valid_str r"
proof (induction u s cs rule: parse_loop.induct)
  case (1 u s cs)
  show ?case
  proof (cases "parse_next u s")
    case (Ret x)
    show ?thesis
    proof (cases x)
      case None
      with Ret 1(2,3) show ?thesis by (simp add: parse_loop.simps [of u s])
    next
      case (Some y)
      obtain c q where y: "y = (c, q)" by (cases y)
      have n: "parse_next u s = Ret (Some (c, q))" using Ret Some y by simp
      have l: "length q \<noteq> length s" using parse_next_shorter [OF n] by simp
      have "parse_loop u q (cs @ [c]) = Ret (cs', r)"
        using 1(2) n l by (simp add: parse_loop.simps [of u s])
      with 1(1) [OF Ret Some y [symmetric] l] parse_next_valid [OF n 1(3)] show ?thesis by simp
    qed
  qed (use 1(2) in \<open>simp add: parse_loop.simps [of u s]\<close>)
qed

text \<open>On well-formed text receiving is parsing.\<close>

lemma receive_eq:
  assumes "valid_str pending"
  shows "receive u pending bs = parse_loop u (pending @ from_utf8_lossy bs) []"
proof (cases "parse_loop u (pending @ from_utf8_lossy bs) []")
  case Panic
  then show ?thesis by (simp add: receive_def parse_resp_commands_def)
next
  case (Ret x)
  let ?s = "pending @ from_utf8_lossy bs"
  obtain cs r where x: "x = (cs, r)" by (cases x)
  have "valid_str ?s" using assms by (simp add: valid_str_append)
  then have v: "valid_str r" using Ret parse_loop_valid by (simp add: x)
  obtain p where p: "?s = p @ r"
    using resp.loop_suffix [of u ?s "[]" cs r] Ret by (auto simp: x suffix_def)
  have "length ?s - length r = length p" and "drop (length p) ?s = r"
    unfolding p by simp_all
  moreover have "is_char_boundary ?s (length p)"
    unfolding p by (rule valid_str_boundary [OF v])
  ultimately show ?thesis
    using Ret p by (auto simp: receive_def parse_resp_commands_def x Let_def simp del: append_assoc)
qed

text \<open>
  A blank line and an empty array are no command and are not consumed: whatever follows them
  stays pending.
\<close>

lemma blank_input_blocks:
  "parse_loop u (CRLF @ s) [] = Ret ([], CRLF @ s)"
  "parse_loop u (''*0'' @ CRLF @ s) [] = Ret ([], ''*0'' @ CRLF @ s)"
  by (simp_all add: parse_loop.simps parse_next_def parse_one_resp_array_def split_line_def CRLF_def parse_resp_command_def
      build_command_def split_whitespace_def parse_usize_def digit_val_def)

lemma receive_all_eq:
  "valid_str pending \<Longrightarrow> parse_loop u pending [] = Ret ([], pending) \<Longrightarrow>
     receive_all u pending bss = parse_loop u (pending @ concat (map from_utf8_lossy bss)) []"
proof (induction bss arbitrary: pending)
  case Nil
  then show ?case by simp
next
  case (Cons bs bss)
  let ?s = "pending @ from_utf8_lossy bs"
  let ?t = "concat (map from_utf8_lossy bss)"
  show ?case
  proof (cases "parse_loop u ?s []")
    case Panic
    then show ?thesis
      using resp.loop_append [of u ?s ?t] by (simp add: receive_eq [OF Cons.prems(1)])
  next
    case (Ret x)
    obtain cs r where x: "x = (cs, r)" by (cases x)
    have v: "valid_str r"
      using Ret parse_loop_valid Cons.prems(1) by (simp add: x valid_str_append)
    have stuck: "parse_loop u r [] = Ret ([], r)"
      using resp.loop_resume [of u ?s "[]" cs r "[]"] Ret resp.loop_acc [of u r cs]
      by (auto simp: x split: outcome.splits)
    show ?thesis
      using resp.loop_append [of u ?s ?t] Ret Cons.IH [OF v stuck]
      by (simp add: receive_eq [OF Cons.prems(1)] x)
  qed
qed

section \<open>Round trip\<close>

text \<open>A command as clients send it: an array of bulk strings.\<close>

definition resp_array :: "string list \<Rightarrow> string" where
  "resp_array tokens = ''*'' @ show_nat (length tokens) @ CRLF @ concat (map encode_bulk_string tokens)"

lemma find_crlf_first: "CHR 0x0D \<notin> set l \<Longrightarrow> find_crlf (l @ CRLF @ r) = Some (length l)"
proof (induction l)
  case (Cons a l)
  obtain b s where "l @ CRLF @ r = b # s" by (cases l) (auto simp: CRLF_def)
  with Cons show ?case by auto
qed (simp add: CRLF_def)

lemma split_line_first: "CHR 0x0D \<notin> set l \<Longrightarrow> split_line (l @ CRLF @ r) = Some (l, r)"
  by (simp add: split_line_def find_crlf_first) (simp add: CRLF_def)

lemma show_nat_no_cr: "CHR 0x0D \<notin> set (show_nat n)"
  using show_nat_digits [of "CHR 0x0D" n] by auto

lemma split_line_header:
  "c \<noteq> CHR 0x0D \<Longrightarrow> split_line (c # show_nat n @ CRLF @ r) = Some (c # show_nat n, r)"
  using split_line_first [of "c # show_nat n" r] show_nat_no_cr [of n] by simp

lemma parse_tokens_encoded:
  "list_all (\<lambda>t. length t + 2 < 2 ^ 64) ts \<Longrightarrow>
     parse_tokens (length ts) acc (concat (map encode_bulk_string ts) @ rest) = Ret (Some (acc @ ts, rest))"
proof (induction ts arbitrary: acc)
  case (Cons t ts)
  let ?r = "t @ CRLF @ concat (map encode_bulk_string ts) @ rest"
  have "split_line (encode_bulk_string t @ concat (map encode_bulk_string ts) @ rest) =
      Some (CHR ''$'' # show_nat (length t), ?r)"
    using split_line_header [of "CHR ''$''" "length t" ?r] by (simp add: encode_bulk_string_def)
  moreover have "parse_bulk_token ?r (length t) = Ret (Some (t, concat (map encode_bulk_string ts) @ rest))"
    using Cons.prems by (subst parse_bulk_token_Some) simp
  ultimately show ?case
    using Cons by (simp add: parse_usize_show_nat)
qed simp

lemma parse_next_resp_array:
  assumes "list_all (\<lambda>t. length t + 2 < 2 ^ 64) (p # ps)" and "length (p # ps) * 24 \<le> 2 ^ 63 - 1"
  shows "parse_next u (resp_array (p # ps) @ rest) = Ret (Some (from_parts (to_uppercase u p) ps, rest))"
proof -
  have "split_line (resp_array (p # ps) @ rest) =
      Some (CHR ''*'' # show_nat (length (p # ps)), concat (map encode_bulk_string (p # ps)) @ rest)"
    using split_line_header [of "CHR ''*''" "length (p # ps)" "concat (map encode_bulk_string (p # ps)) @ rest"]
    by (simp add: resp_array_def)
  moreover have "take 1 (resp_array (p # ps) @ rest) = ''*''"
    by (simp add: resp_array_def)
  ultimately show ?thesis
    using assms(2) parse_tokens_encoded [OF assms(1), of "[]" rest]
    by (simp add: parse_next_def parse_one_resp_array_def parse_usize_show_nat build_command_def)
qed

lemma parse_loop_arrays:
  assumes "list_all (\<lambda>ts. ts \<noteq> [] \<and> list_all (\<lambda>t. length t + 2 < 2 ^ 64) ts \<and> length ts * 24 \<le> 2 ^ 63 - 1) cmds"
  shows "parse_loop u (concat (map resp_array cmds)) [] =
    Ret (map (\<lambda>ts. from_parts (to_uppercase u (hd ts)) (tl ts)) cmds, [])"
  using assms
proof (induction cmds)
  case Nil
  then show ?case
    by (simp add: parse_loop.simps [of u "[]"] parse_next_def split_line_def)
next
  case (Cons ts cmds)
  obtain p ps where ts: "ts = p # ps" using Cons.prems by (cases ts) auto
  have n: "parse_next u (resp_array ts @ concat (map resp_array cmds)) =
      Ret (Some (from_parts (to_uppercase u p) ps, concat (map resp_array cmds)))"
    unfolding ts by (rule parse_next_resp_array) (use Cons.prems ts in simp_all)
  have "resp_array ts \<noteq> []" by (simp add: resp_array_def)
  then show ?case
    using Cons n resp.loop_acc [of u "concat (map resp_array cmds)" "[from_parts (to_uppercase u p) ps]"]
    by (simp add: parse_loop.simps [of u "resp_array (p # ps) @ concat (map resp_array cmds)"] ts)
qed

section \<open>Properties\<close>

text \<open>
  C27: How the network cuts the commands into reads matters only to the characters it cuts through.
  For every split, what is found and what stays pending, panics included, is what parsing at once
  gives for the texts the reads decode to on their own; if no read ends inside a character, that is
  what parsing the whole input at once gives.
\<close>

theorem resp_chunking_transparent:
  "receive_all u [] chunks = parse_loop u (concat (map from_utf8_lossy chunks)) [] \<and>
   (list_all valid_utf8 chunks \<longrightarrow> receive_all u [] chunks = parse_loop u (str_of_bytes (concat chunks)) [])"
proof -
  have "concat (map from_utf8_lossy chunks) = str_of_bytes (concat chunks)" if "list_all valid_utf8 chunks"
    using that by (induction chunks) (simp_all add: from_utf8_lossy_valid)
  moreover have "parse_loop u [] [] = Ret ([], [])"
    by (simp add: parse_loop.simps [of u "[]"] parse_next_def split_line_def)
  ultimately show ?thesis
    using receive_all_eq [of "[]" u chunks] by simp
qed

text \<open>
  A line end that is cut does no harm; a character of two bytes that is cut becomes two replacement
  characters.
\<close>

theorem resp_chunking_transparent_witness:
  "receive_all id [] [into_bytes_str (''PING'' @ [CHR 0x0D]), into_bytes_str ([CHR 0x0A] @ ''*1'')] =
     parse_loop id (''PING'' @ CRLF @ ''*1'') [] \<and>
   receive_all id [] [into_bytes_str ''PUBLISH t '' @ [0xC3], 0xA9 # into_bytes_str CRLF] =
     Ret ([Publish ''t'' (str_of_bytes (replacement @ replacement))], [])"
proof -
  have "valid_str (''PING'' @ [CHR 0x0D])" "valid_str ([CHR 0x0A] @ ''*1'')"
    by (rule valid_str_ascii, simp)+
  then have "list_all valid_utf8 [into_bytes_str (''PING'' @ [CHR 0x0D]), into_bytes_str ([CHR 0x0A] @ ''*1'')]"
    by (simp add: valid_str_def)
  from resp_chunking_transparent [THEN conjunct2, THEN mp, OF this, of id]
  have whole: "receive_all id [] [into_bytes_str (''PING'' @ [CHR 0x0D]), into_bytes_str ([CHR 0x0A] @ ''*1'')] =
      parse_loop id (''PING'' @ CRLF @ ''*1'') []"
    by (simp only: concat.simps append_Nil2 str_of_bytes_append str_of_into_bytes) (simp add: CRLF_def)
  have "parse_loop id (concat (map from_utf8_lossy [into_bytes_str ''PUBLISH t '' @ [0xC3], 0xA9 # into_bytes_str CRLF])) [] =
      Ret ([Publish ''t'' (str_of_bytes (replacement @ replacement))], [])"
    by code_simp
  with whole show ?thesis
    by (simp only: resp_chunking_transparent [THEN conjunct1])
qed

text \<open>
  Every command a client sends as an array of bulk strings is understood as the command made
  of exactly those strings, whatever bytes they contain, and parsing goes on with what follows.
\<close>

theorem resp_array_roundtrip:
  assumes "list_all (\<lambda>ts. ts \<noteq> [] \<and> list_all (\<lambda>t. length t + 2 < 2 ^ 64) ts \<and> length ts * 24 \<le> 2 ^ 63 - 1) cmds"
  shows "parse_loop u (concat (map resp_array cmds)) [] =
    Ret (map (\<lambda>ts. from_parts (to_uppercase u (hd ts)) (tl ts)) cmds, [])"
  by (rule parse_loop_arrays [OF assms])

theorem resp_array_roundtrip_witness:
  "parse_loop id (concat (map resp_array [[''publish'', ''t'', ''v''], [''XRANGE'', ''t'', ''-'', ''+'']])) [] =
     Ret ([Publish ''t'' ''v'', Xrange ''t''], [])"
  by (subst resp_array_roundtrip) (simp_all add: to_uppercase_def ascii_upper_def from_parts_def, code_simp)

end
