(* ===== verification/Mock_Redis.thy ===== *)
theory Mock_Redis
  imports Resp
begin

text \<open>
  The mock Redis server of \<^verbatim>\<open>src/src/redis_impls/testing_utils/mod.rs\<close>: its stream store, the
  execution of commands, the connection loop, and the waiting for a captured message. Sockets are
  what they delivered; the two broadcast channels are the lists of what was sent to them.
\<close>

section \<open>Stream store\<close>

type_synonym stream_state = "(string, stream_entry list) hash_map"

definition entries_of :: "stream_state \<Rightarrow> string \<Rightarrow> stream_entry list" where
  "entries_of st topic = (case hm_get st topic of Some es \<Rightarrow> es | None \<Rightarrow> [])"

definition stream_push :: "stream_state \<Rightarrow> string \<Rightarrow> (string \<times> string) list \<Rightarrow> string \<times> stream_state" where
  "stream_push st topic flds =
     (let entries = entries_of st topic;
          i = show_nat (length entries + 1) @ ''-0''
      in (i, hm_insert st topic (entries @ [\<lparr>se_id = i, se_fields = flds\<rparr>])))"

definition stream_all :: "stream_state \<Rightarrow> string \<Rightarrow> stream_entry list" where
  "stream_all st topic = entries_of st topic"

text \<open>Strings compare byte by byte.\<close>

fun str_less :: "string \<Rightarrow> string \<Rightarrow> bool" where
  "str_less _ [] = False"
| "str_less [] (b # bs) = True"
| "str_less (a # as) (b # bs) =
     ((of_char a :: nat) < of_char b \<or> a = b \<and> str_less as bs)"

definition stream_after :: "stream_state \<Rightarrow> string \<Rightarrow> string \<Rightarrow> stream_entry list" where
  "stream_after st topic last_seen =
     (case hm_get st topic of
        None \<Rightarrow> []
      | Some entries \<Rightarrow>
          (if last_seen = ''$'' then (if entries = [] then [] else [last entries])
           else filter (\<lambda>entry. str_less last_seen (se_id entry)) entries))"

section \<open>Commands\<close>

text \<open>
  The result of a command: its reply, what it sent to the message channel, and the new store.
  \<open>execute_command\<close> never returns an error.
\<close>

definition subscribe_reply :: "(string, string list) hash_map \<Rightarrow> string list \<Rightarrow> string" where
  "subscribe_reply pubsub_messages topics =
     concat (map (\<lambda>(index, topic). encode_subscribe_confirmation topic (index + 1))
       (zip [0..<length topics] topics)) @
     concat (map (\<lambda>topic.
       (if topic \<in> set topics
        then (case hm_get pubsub_messages topic of
                Some messages \<Rightarrow> concat (map (encode_pubsub_message topic) messages)
              | None \<Rightarrow> [])
        else [])) topics)"

definition join_space :: "string list \<Rightarrow> string" where
  "join_space xs = concat (case xs of [] \<Rightarrow> [] | y # ys \<Rightarrow> y # map (\<lambda>z. '' '' @ z) ys)"

fun execute_command ::
  "(string, string list) hash_map \<Rightarrow> command \<Rightarrow> stream_state \<Rightarrow> (string + string) \<times> string list \<times> stream_state" where
  "execute_command pm (Client args) st = (Inr (''+OK'' @ CRLF), [], st)"
| "execute_command pm (Publish topic payload) st = (Inr ('':1'' @ CRLF), [payload], st)"
| "execute_command pm (Xadd topic flds) st =
     (let broadcast_payload = join_space (map snd flds);
          (i, st') = stream_push st topic flds
      in (Inr (encode_bulk_string i), [broadcast_payload], st'))"
| "execute_command pm (Xrange topic) st = (Inr (encode_stream_entries (stream_all st topic)), [], st)"
| "execute_command pm (Xread topic last_seen) st =
     (let entries = stream_after st topic last_seen in
      (Inr (if entries = [] then ''$-1'' @ CRLF else encode_xread_response topic entries), [], st))"
| "execute_command pm (Subscribe topics) st = (Inr (subscribe_reply pm topics), [], st)"
| "execute_command pm (Unknown name args) st = (Inr (''+OK'' @ CRLF), [], st)"

section \<open>Connections\<close>

text \<open>
  Everything a connection shares or keeps: the pending input, the store, and what was sent so far
  to the message channel, the connection channel and the client.
\<close>

record conn_state =
  cs_pending :: string
  cs_store :: stream_state
  cs_messages :: "string list"
  cs_commands :: "string list"
  cs_written :: "string list"

text \<open>The libraries' parts: Unicode upper case and the \<open>Debug\<close> of strings.\<close>

record mock_env =
  me_upper :: "string \<Rightarrow> string"
  me_debug :: "string \<Rightarrow> string"
  me_pubsub :: "(string, string list) hash_map"

fun run_commands :: "mock_env \<Rightarrow> command list \<Rightarrow> conn_state \<Rightarrow> string list \<Rightarrow> (string + string list) \<times> conn_state" where
  "run_commands V [] c responses = (Inr responses, c)"
| "run_commands V (command # cmds) c responses =
     (let c1 = c\<lparr>cs_commands := cs_commands c @ [describe (me_debug V) command]\<rparr>;
          (r, msgs, st) = execute_command (me_pubsub V) command (cs_store c1);
          c2 = c1\<lparr>cs_store := st, cs_messages := cs_messages c1 @ msgs\<rparr>
      in case r of
           Inl e \<Rightarrow> (Inl e, c2)
         | Inr response \<Rightarrow> run_commands V cmds c2 (responses @ [response]))"

text \<open>What a read gives (no bytes: the client closed), and whether each write and the flush succeed.\<close>

record read_event =
  rd_result :: "string + bytes"
  rd_writes :: "(string + unit) list"
  rd_flush :: "string + unit"

fun write_responses :: "(string + unit) list \<Rightarrow> string list \<Rightarrow> conn_state \<Rightarrow> (string + unit) \<times> conn_state" where
  "write_responses ws [] c = (Inr (), c)"
| "write_responses ws (r # rs) c =
     (case (case ws of [] \<Rightarrow> Inr () | w # _ \<Rightarrow> w) of
        Inl e \<Rightarrow> (Inl (''Error writing response: '' @ e), c)
      | Inr _ \<Rightarrow> write_responses (tl ws) rs (c\<lparr>cs_written := cs_written c @ [r]\<rparr>))"

definition read_stream :: "mock_env \<Rightarrow> read_event \<Rightarrow> conn_state \<Rightarrow> ((string + unit) \<times> conn_state) outcome" where
  "read_stream V ev c =
     (case rd_result ev of
        Inl e \<Rightarrow> Ret (Inl (''Error reading from stream: '' @ e), c)
      | Inr bs \<Rightarrow>
          (if bs = [] then Ret (Inr (), c)
           else case receive (me_upper V) (cs_pending c) bs of
             Panic \<Rightarrow> Panic
           | Ret (commands, pending') \<Rightarrow>
               (case run_commands V commands (c\<lparr>cs_pending := pending'\<rparr>) [] of
                  (Inl e, c1) \<Rightarrow> Ret (Inl e, c1)
                | (Inr responses, c1) \<Rightarrow>
                    (case write_responses (rd_writes ev) responses c1 of
                       (Inl e, c2) \<Rightarrow> Ret (Inl e, c2)
                     | (Inr _, c2) \<Rightarrow>
                         (case rd_flush ev of
                            Inl e \<Rightarrow> Ret (Inl (''Error flushing stream: '' @ e), c2)
                          | Inr _ \<Rightarrow> Ret (Inr (), c2))))))"

text \<open>The connection loop: what ends each wait of its \<open>select!\<close>.\<close>

datatype conn_event = Shutdown | ReadableErr string | Readable read_event

datatype conn_status = Closed conn_state | ConnPanicked | ConnWaiting conn_state

fun handle_connection :: "mock_env \<Rightarrow> conn_event list \<Rightarrow> conn_state \<Rightarrow> conn_status" where
  "handle_connection V [] c = ConnWaiting c"
| "handle_connection V (Shutdown # evs) c = Closed c"
| "handle_connection V (ReadableErr e # evs) c = Closed c"
| "handle_connection V (Readable ev # evs) c =
     (case read_stream V ev c of
        Panic \<Rightarrow> ConnPanicked
      | Ret (Inl e, c') \<Rightarrow> Closed c'
      | Ret (Inr _, c') \<Rightarrow> handle_connection V evs c')"

section \<open>Waiting for a message\<close>

datatype recv_event = Received string | Lagged nat | ChannelClosed | TimeoutElapsed

definition contains :: "string \<Rightarrow> string \<Rightarrow> bool" where
  "contains message expected \<longleftrightarrow> sublist expected message"

fun wait_for_broadcast_message :: "string \<Rightarrow> string \<Rightarrow> recv_event list \<Rightarrow> (string + unit) option" where
  "wait_for_broadcast_message expected label [] = None"
| "wait_for_broadcast_message expected label (Received message # evs) =
     (if contains message expected then Some (Inr ()) else wait_for_broadcast_message expected label evs)"
| "wait_for_broadcast_message expected label (Lagged n # evs) = wait_for_broadcast_message expected label evs"
| "wait_for_broadcast_message expected label (ChannelClosed # evs) =
     Some (Inl (label @ '' channel closed before observing '' @ expected))"
| "wait_for_broadcast_message expected label (TimeoutElapsed # evs) =
     Some (Inl (label @ '' not found: '' @ expected))"

definition check_for_message :: "string \<Rightarrow> recv_event list \<Rightarrow> (string + unit) option" where
  "check_for_message expected evs = wait_for_broadcast_message expected ''Message'' evs"

definition check_for_connection_command :: "string \<Rightarrow> recv_event list \<Rightarrow> (string + unit) option" where
  "check_for_connection_command expected evs = wait_for_broadcast_message expected ''Connection command'' evs"

definition mock_get_host :: "string \<Rightarrow> string" where
  "mock_get_host host = ''redis://'' @ host"

section \<open>Lemmas\<close>

text \<open>The store numbers the entries of a topic from 1.\<close>

definition entry_id :: "nat \<Rightarrow> string" where
  "entry_id i = show_nat i @ ''-0''"

definition store_ok :: "stream_state \<Rightarrow> bool" where
  "store_ok st \<longleftrightarrow> (\<forall>topic. map se_id (entries_of st topic) = map (\<lambda>i. entry_id (i + 1)) [0..<length (entries_of st topic)])"

lemma entries_of_insert:
  "entries_of (hm_insert st topic es) t = (if t = topic then es else entries_of st t)"
  by (simp add: entries_of_def)

lemma entries_of_push:
  "entries_of (snd (stream_push st topic fs)) t =
     (if t = topic then entries_of st topic @ [\<lparr>se_id = entry_id (length (entries_of st topic) + 1), se_fields = fs\<rparr>]
      else entries_of st t)"
  by (simp add: stream_push_def entries_of_insert Let_def entry_id_def)

lemma store_ok_push: "store_ok st \<Longrightarrow> store_ok (snd (stream_push st topic fs))"
  by (auto simp: store_ok_def entries_of_push)

lemma execute_store_ok: "store_ok st \<Longrightarrow> store_ok (snd (snd (execute_command pm cmd st)))"
  using store_ok_push
  by (cases cmd) (auto simp: Let_def case_prod_unfold)

lemma execute_Inr: "\<exists>r. fst (execute_command pm cmd st) = Inr r"
  by (cases cmd) (auto simp: Let_def case_prod_unfold)

text \<open>The commands of a connection one after the other: replies, messages, store.\<close>

fun exec_all :: "(string, string list) hash_map \<Rightarrow> command list \<Rightarrow> stream_state \<Rightarrow> string list \<times> string list \<times> stream_state" where
  "exec_all pm [] st = ([], [], st)"
| "exec_all pm (c # cs) st =
     (let (r, msgs, st1) = execute_command pm c st;
          (rs, msgs', st2) = exec_all pm cs st1
      in (projr r # rs, msgs @ msgs', st2))"

lemma exec_all_append:
  "exec_all pm (cs @ ds) st =
     (let (rs, ms, st1) = exec_all pm cs st; (rs', ms', st2) = exec_all pm ds st1
      in (rs @ rs', ms @ ms', st2))"
  by (induction cs arbitrary: st) (simp_all add: Let_def case_prod_unfold)

lemma run_commands_exec:
  "run_commands V cmds c rs =
     (case exec_all (me_pubsub V) cmds (cs_store c) of
        (rs', ms, st) \<Rightarrow>
          (Inr (rs @ rs'),
           c\<lparr>cs_store := st, cs_messages := cs_messages c @ ms,
             cs_commands := cs_commands c @ map (describe (me_debug V)) cmds\<rparr>))"
proof (induction cmds arbitrary: c rs)
  case (Cons cmd cmds)
  obtain r ms st where e: "execute_command (me_pubsub V) cmd (cs_store c) = (Inr r, ms, st)"
    using execute_Inr [of "me_pubsub V" cmd "cs_store c"] by (metis prod.collapse)
  show ?case
    by (simp add: e Cons Let_def case_prod_unfold)
qed simp

lemma write_all: "list_all is_ok ws \<Longrightarrow> write_responses ws rs c = (Inr (), c\<lparr>cs_written := cs_written c @ rs\<rparr>)"
proof (induction rs arbitrary: ws c)
  case (Cons r rs)
  then show ?case by (cases ws) (auto simp: is_ok_iff)
qed simp

text \<open>A read whose writes succeed.\<close>

definition clean_read :: "bytes \<Rightarrow> read_event" where
  "clean_read bs = \<lparr>rd_result = Inr bs, rd_writes = [], rd_flush = Inr ()\<rparr>"

lemma read_stream_clean:
  assumes "receive (me_upper V) (cs_pending c) bs = Ret (cmds, pending)" and "bs \<noteq> []"
  shows "read_stream V (clean_read bs) c =
    (case exec_all (me_pubsub V) cmds (cs_store c) of
       (rs, ms, st) \<Rightarrow>
         Ret (Inr (), \<lparr>cs_pending = pending, cs_store = st, cs_messages = cs_messages c @ ms,
           cs_commands = cs_commands c @ map (describe (me_debug V)) cmds, cs_written = cs_written c @ rs\<rparr>))"
  using assms
  by (simp add: read_stream_def clean_read_def run_commands_exec write_all case_prod_unfold)

lemma connection_runs:
  assumes "receive_all (me_upper V) (cs_pending c) chunks = Ret (cmds, pending)" and "[] \<notin> set chunks"
  shows "handle_connection V (map (\<lambda>bs. Readable (clean_read bs)) chunks) c =
    (case exec_all (me_pubsub V) cmds (cs_store c) of
       (rs, ms, st) \<Rightarrow>
         ConnWaiting \<lparr>cs_pending = pending, cs_store = st, cs_messages = cs_messages c @ ms,
           cs_commands = cs_commands c @ map (describe (me_debug V)) cmds, cs_written = cs_written c @ rs\<rparr>)"
  using assms
proof (induction chunks arbitrary: c cmds)
  case (Cons bs chunks)
  obtain cs1 p1 cs2 where r: "receive (me_upper V) (cs_pending c) bs = Ret (cs1, p1)"
    "receive_all (me_upper V) p1 chunks = Ret (cs2, pending)" "cmds = cs1 @ cs2"
    using Cons.prems(1) by (auto split: outcome.splits prod.splits)
  have "bs \<noteq> []" "[] \<notin> set chunks" using Cons.prems(2) by auto
  with r show ?case
    by (simp add: read_stream_clean [OF r(1)] Cons.IH exec_all_append case_prod_unfold Let_def)
qed simp

subsection \<open>Order of identifiers\<close>

lemma show_nat_1: "n < 10 \<Longrightarrow> show_nat n = [digit_char n]"
  by (subst show_nat.simps) simp

lemma str_less_append: "str_less (p @ a) (p @ b) = str_less a b"
  by (induction p) simp_all

lemma digit_char_inj: "d < 10 \<Longrightarrow> e < 10 \<Longrightarrow> digit_char d = digit_char e \<longleftrightarrow> d = e"
  using of_char_digit_char by (metis add_left_cancel)

lemma entry_id_less_9: "i < 10 \<Longrightarrow> j < 10 \<Longrightarrow> str_less (entry_id i) (entry_id j) \<longleftrightarrow> i < j"
  by (simp add: entry_id_def show_nat_1 of_char_digit_char digit_char_inj)

lemma entry_id_two_digits: "10 \<le> j \<Longrightarrow> j < 90 \<Longrightarrow> \<not> str_less (entry_id 9) (entry_id j)"
proof -
  assume j: "10 \<le> j" "j < 90"
  then have s: "show_nat j = [digit_char (j div 10), digit_char (j mod 10)]"
    by (subst show_nat.simps) (simp add: show_nat_1)
  have "j div 10 < 9" using j by simp
  then show ?thesis
    by (simp add: entry_id_def s show_nat_1 of_char_digit_char digit_char_inj)
qed

lemma store_ids:
  "store_ok st \<Longrightarrow> i < length (entries_of st topic) \<Longrightarrow> se_id (entries_of st topic ! i) = entry_id (i + 1)"
  unfolding store_ok_def by (metis (no_types, lifting) add_0 diff_zero length_map length_upt nth_map nth_upt)

lemma filter_drop:
  assumes "\<And>i. i < length xs \<Longrightarrow> P (xs ! i) \<longleftrightarrow> k \<le> i"
  shows "filter P xs = drop k xs"
  using assms
proof (induction xs arbitrary: k)
  case (Cons x xs)
  have p: "P x \<longleftrightarrow> k = 0" using Cons.prems [of 0] by auto
  have "P (xs ! i) \<longleftrightarrow> k - 1 \<le> i" if "i < length xs" for i
    using Cons.prems [of "Suc i"] that by auto
  from Cons.IH [OF this] p show ?case by (cases k) auto
qed simp

lemma stream_after_eq:
  "i \<noteq> ''$'' \<Longrightarrow> stream_after st topic i = filter (\<lambda>e. str_less i (se_id e)) (entries_of st topic)"
  by (simp add: stream_after_def entries_of_def split: option.splits)

lemma entry_id_not_dollar: "entry_id i \<noteq> ''$''"
proof
  assume "entry_id i = ''$''"
  then have "length (show_nat i) + 2 = 1" unfolding entry_id_def by (metis length_Cons length_append list.size(3) One_nat_def Suc_1)
  then show False by simp
qed

lemma stream_after_small:
  assumes "store_ok st" and "k \<le> length (entries_of st topic)" and "length (entries_of st topic) \<le> 9"
  shows "stream_after st topic (entry_id k) = drop k (entries_of st topic)"
  unfolding stream_after_eq [OF entry_id_not_dollar]
  by (rule filter_drop) (use assms store_ids [OF assms(1)] entry_id_less_9 in auto)

lemma exec_all_store_ok: "store_ok st \<Longrightarrow> store_ok (snd (snd (exec_all pm cmds st)))"
proof (induction cmds arbitrary: st)
  case (Cons c cs)
  have "store_ok (snd (snd (execute_command pm c st)))"
    using Cons.prems by (rule execute_store_ok)
  then show ?case
    using Cons.IH by (simp add: Let_def case_prod_unfold)
qed simp

lemma store_ok_Nil: "store_ok []"
  by (simp add: store_ok_def entries_of_def)

lemma wait_succeeds:
  "wait_for_broadcast_message expected label evs = Some (Inr ()) \<Longrightarrow>
     \<exists>pre m post. evs = pre @ Received m # post \<and> sublist expected m \<and>
        ChannelClosed \<notin> set pre \<and> TimeoutElapsed \<notin> set pre"
proof (induction evs)
  case (Cons e evs)
  show ?case
  proof (cases "\<exists>m. e = Received m \<and> contains m expected")
    case True
    then show ?thesis by (metis append_Nil contains_def empty_iff list.set(1))
  next
    case False
    then have w: "wait_for_broadcast_message expected label evs = Some (Inr ())"
      and e: "e \<noteq> ChannelClosed" "e \<noteq> TimeoutElapsed"
      using Cons.prems by (cases e; auto)+
    from Cons.IH [OF w] obtain pre m post where "evs = pre @ Received m # post" "sublist expected m"
      "ChannelClosed \<notin> set pre" "TimeoutElapsed \<notin> set pre" by blast
    with e show ?thesis
      by (intro exI [of _ "e # pre"] exI [of _ m] exI [of _ post]) simp
  qed
qed simp

lemma wait_finds:
  "sublist expected m \<Longrightarrow> ChannelClosed \<notin> set pre \<Longrightarrow> TimeoutElapsed \<notin> set pre \<Longrightarrow>
     wait_for_broadcast_message expected label (pre @ Received m # post) = Some (Inr ())"
proof (induction pre)
  case (Cons e pre)
  then show ?case by (cases e) auto
qed (simp add: contains_def)

section \<open>Properties\<close>

text \<open>
  A connection answers its commands as if they had arrived at once, however the reads cut
  them up (outside of characters): it announces each command, executes them in order on the
  store, writes their replies in order, and keeps the incomplete rest pending.
\<close>

theorem connection_refines_commands:
  assumes "list_all valid_utf8 chunks" and "[] \<notin> set chunks"
    and "parse_loop (me_upper V) (str_of_bytes (concat chunks)) [] = Ret (cmds, rest)"
    and "exec_all (me_pubsub V) cmds st = (replies, msgs, st')"
  shows "handle_connection V (map (\<lambda>bs. Readable (clean_read bs)) chunks)
      \<lparr>cs_pending = [], cs_store = st, cs_messages = [], cs_commands = [], cs_written = []\<rparr> =
    ConnWaiting \<lparr>cs_pending = rest, cs_store = st', cs_messages = msgs,
      cs_commands = map (describe (me_debug V)) cmds, cs_written = replies\<rparr>"
proof -
  have "concat (map from_utf8_lossy chunks) = str_of_bytes (concat chunks)"
    using assms(1) by (induction chunks) (simp_all add: from_utf8_lossy_valid)
  moreover have "parse_loop (me_upper V) [] [] = Ret ([], [])"
    by (simp add: parse_loop.simps [of _ "[]"] parse_next_def split_line_def)
  ultimately have "receive_all (me_upper V) [] chunks = Ret (cmds, rest)"
    using receive_all_eq [of "[]" "me_upper V" chunks] assms(3) by simp
  then show ?thesis
    using connection_runs [of V "\<lparr>cs_pending = [], cs_store = st, cs_messages = [], cs_commands = [], cs_written = []\<rparr>"
        chunks cmds rest] assms(2,4) by simp
qed

theorem connection_refines_commands_witness:
  "handle_connection \<lparr>me_upper = id, me_debug = id, me_pubsub = []\<rparr>
      (map (\<lambda>bs. Readable (clean_read bs)) [into_bytes_str (resp_array [''XRANGE'', ''t''])])
      \<lparr>cs_pending = [], cs_store = [], cs_messages = [], cs_commands = [], cs_written = []\<rparr> =
    ConnWaiting \<lparr>cs_pending = [], cs_store = [], cs_messages = [], cs_commands = [''XRANGE [t]''],
      cs_written = [''*0'' @ CRLF]\<rparr>"
proof -
  have s: "resp_array [''XRANGE'', ''t''] = ''*2'' @ CRLF @ ''$6'' @ CRLF @ ''XRANGE'' @ CRLF @ ''$1'' @ CRLF @ ''t'' @ CRLF"
    by (simp add: resp_array_def encode_bulk_string_def show_nat_1 digit_char_def, code_simp)
  have "valid_str (resp_array [''XRANGE'', ''t''])"
    unfolding s by (rule valid_str_ascii) (simp add: CRLF_def)
  then have 1: "list_all valid_utf8 [into_bytes_str (resp_array [''XRANGE'', ''t''])]"
    by (simp add: valid_str_def)
  have 2: "[] \<notin> set [into_bytes_str (resp_array [''XRANGE'', ''t''])]"
    by (simp add: resp_array_def into_bytes_str_def)
  have "parse_next id (resp_array [''XRANGE'', ''t''] @ []) = Ret (Some (Xrange ''t'', []))"
    by (subst parse_next_resp_array) (simp_all add: to_uppercase_def ascii_upper_def from_parts_def)
  then have 3: "parse_loop (me_upper \<lparr>me_upper = id, me_debug = id, me_pubsub = []\<rparr>)
      (str_of_bytes (concat [into_bytes_str (resp_array [''XRANGE'', ''t''])])) [] = Ret ([Xrange ''t''], [])"
    by (simp add: parse_loop.simps [of _ "resp_array _"] parse_loop.simps [of _ "[]"] parse_next_def [of _ "[]"]
        split_line_def [of "[]"]) (simp add: resp_array_def)
  have 4: "exec_all (me_pubsub \<lparr>me_upper = id, me_debug = id, me_pubsub = []\<rparr>) [Xrange ''t''] [] =
      ([''*0'' @ CRLF], [], [])"
    by (simp add: stream_all_def entries_of_def encode_stream_entries_def show_nat_1 digit_char_def, code_simp)
  from connection_refines_commands [OF 1 2 3 4] show ?thesis by simp
qed

text \<open>
  Whatever commands were executed, the entries of a topic are numbered 1, 2, 3 and so on;
  \<open>XADD\<close> returns the next number and appends its fields, \<open>XRANGE\<close> returns all entries.
\<close>

theorem store_numbering:
  "store_ok (snd (snd (exec_all pm cmds []))) \<and>
   fst (stream_push st topic flds) = entry_id (length (stream_all st topic) + 1) \<and>
   stream_all (snd (stream_push st topic flds)) t =
     (if t = topic then stream_all st topic @ [\<lparr>se_id = entry_id (length (stream_all st topic) + 1), se_fields = flds\<rparr>]
      else stream_all st t)"
  using entries_of_push [of st topic flds t] exec_all_store_ok [OF store_ok_Nil]
  by (simp add: stream_all_def) (simp add: stream_push_def entry_id_def Let_def)

lemma xread_nothing_after_9:
  assumes "store_ok st" and "n = length (entries_of st topic)" and "9 \<le> n" and "n < 90"
  shows "stream_after st topic (entry_id 9) = []"
proof -
  have "\<not> str_less (entry_id 9) (se_id (entries_of st topic ! i))" if "i < n" for i
    using store_ids [OF assms(1), of i topic] entry_id_two_digits [of "i + 1"] entry_id_less_9 [of 9 "i + 1"]
      that assms(2) \<open>n < 90\<close> by (cases "i + 1 < 10") auto
  then show ?thesis
    by (auto simp: stream_after_eq [OF entry_id_not_dollar] filter_empty_conv in_set_conv_nth assms(2))
qed

lemma replicated_xadds:
  "length (entries_of (snd (snd (exec_all [] (replicate k (Xadd topic [])) st))) topic) = k + length (entries_of st topic)"
  by (induction k arbitrary: st) (simp_all add: Let_def case_prod_unfold entries_of_push)

text \<open>
  The end of input does not end a connection: the loop comes back to its wait unchanged any
  number of times, until the server shuts down.
\<close>

theorem closed_client_keeps_looping:
  "handle_connection V (replicate n (Readable (clean_read [])) @ evs) c = handle_connection V evs c"
  by (induction n) (simp_all add: read_stream_def clean_read_def)

text \<open>
  Waiting for a captured message succeeds exactly when a message that contains the expected
  text comes before the channel closes and before the time is over; lagging does not end it.
\<close>

theorem check_for_message_succeeds_iff:
  "check_for_message expected evs = Some (Inr ()) \<longleftrightarrow>
     (\<exists>pre m post. evs = pre @ Received m # post \<and> sublist expected m \<and>
        ChannelClosed \<notin> set pre \<and> TimeoutElapsed \<notin> set pre)"
  using wait_succeeds wait_finds unfolding check_for_message_def by blast

end
