(* ===== verification/Mock_Redis_Server.thy ===== *)
theory Mock_Redis_Server
  imports Mock_Redis Effects Broadcast "HOL-Library.Multiset"
begin

text \<open>
  The mock Redis server as a whole, \<^verbatim>\<open>src/src/redis_impls/testing_utils/mod.rs\<close>: the start and the
  drop of \<open>TestHarness\<close>, the accept loop of \<open>listen_for_requests\<close>, and any number of connections
  that run at the same time over one store. The steps of a connection are the stretches between
  two points where other tasks can act: announcing a command, the critical section on the store,
  sending what the command captured, writing the replies.
\<close>

section \<open>Start and drop\<close>

text \<open>
  What the operating system answers while the server starts, and whether the receiver of the
  host name is still there when it is sent.
\<close>

record listen_env =
  le_bind :: "string + unit"
  le_local_addr :: "string + string"
  le_receiver_alive :: bool

text \<open>
  \<open>listen_for_requests\<close> up to its loop: it returns when it cannot bind, panics when the
  address is unknown or nobody waits for it, and listens otherwise.
\<close>

datatype listen_status = ListenReturned | ListenPanicked | Listening string

definition listen_start :: "listen_env \<Rightarrow> effect list \<times> listen_status" where
  "listen_start L =
     (case le_bind L of
        Inl e \<Rightarrow> ([LogError (''Error binding mock Redis server: '' @ e)], ListenReturned)
      | Inr _ \<Rightarrow>
          (case le_local_addr L of
             Inl e \<Rightarrow> ([], ListenPanicked)
           | Inr addr \<Rightarrow> ([], if le_receiver_alive L then Listening addr else ListenPanicked)))"

section \<open>Connections\<close>

text \<open>
  Where a connection stands: at the wait of its \<open>select!\<close>; before the next of the commands of
  a read, with the replies so far; after that command was announced; after it was executed,
  with the captured messages still to be sent; closed; or ended by a panic.
\<close>

datatype conn_phase =
    AtSelect
  | Running "command list" "string list" read_event
  | Announced command "command list" "string list" read_event
  | Executed "string list" "command list" "string list" read_event
  | Finished
  | Crashed

record conn =
  cn_pending :: string
  cn_written :: "string list"
  cn_phase :: conn_phase

record shared =
  sh_store :: stream_state
  sh_messages :: "string list"
  sh_commands :: "string list"

definition conn_new :: conn where
  "conn_new = \<lparr>cn_pending = [], cn_written = [], cn_phase = AtSelect\<rparr>"

text \<open>The part of \<open>read_stream\<close> up to its loop over the commands.\<close>

definition conn_read :: "mock_env \<Rightarrow> read_event \<Rightarrow> conn \<Rightarrow> conn" where
  "conn_read V ev c =
     (case rd_result ev of
        Inl e \<Rightarrow> c\<lparr>cn_phase := Finished\<rparr>
      | Inr bs \<Rightarrow>
          (if bs = [] then c
           else case receive (me_upper V) (cn_pending c) bs of
             Panic \<Rightarrow> c\<lparr>cn_phase := Crashed\<rparr>
           | Ret (commands, pending') \<Rightarrow> c\<lparr>cn_pending := pending', cn_phase := Running commands [] ev\<rparr>))"

text \<open>The writes and the flush at the end of \<open>read_stream\<close>.\<close>

definition conn_write :: "read_event \<Rightarrow> string list \<Rightarrow> conn \<Rightarrow> conn" where
  "conn_write ev responses c =
     (case write_responses (rd_writes ev) responses
         \<lparr>cs_pending = [], cs_store = [], cs_messages = [], cs_commands = [], cs_written = cn_written c\<rparr> of
        (Inl e, w) \<Rightarrow> c\<lparr>cn_written := cs_written w, cn_phase := Finished\<rparr>
      | (Inr _, w) \<Rightarrow>
          c\<lparr>cn_written := cs_written w, cn_phase := (case rd_flush ev of Inl e \<Rightarrow> Finished | Inr _ \<Rightarrow> AtSelect)\<rparr>)"

text \<open>
  The next stretch of a connection inside \<open>read_stream\<close>, with the command it executed and the
  reply, if it did; \<open>None\<close> where the connection waits or has ended.
\<close>

fun conn_advance ::
  "mock_env \<Rightarrow> shared \<Rightarrow> conn_phase \<Rightarrow> conn \<Rightarrow> (shared \<times> conn \<times> (command \<times> string) option) option" where
  "conn_advance V sh (Running (cmd # cmds) rs ev) c =
     Some (sh\<lparr>sh_commands := sh_commands sh @ [describe (me_debug V) cmd]\<rparr>,
       c\<lparr>cn_phase := Announced cmd cmds rs ev\<rparr>, None)"
| "conn_advance V sh (Announced cmd cmds rs ev) c =
     (case execute_command (me_pubsub V) cmd (sh_store sh) of
        (Inl e, msgs, st) \<Rightarrow> Some (sh\<lparr>sh_store := st\<rparr>, c\<lparr>cn_phase := Finished\<rparr>, None)
      | (Inr response, msgs, st) \<Rightarrow>
          Some (sh\<lparr>sh_store := st\<rparr>, c\<lparr>cn_phase := Executed msgs cmds (rs @ [response]) ev\<rparr>, Some (cmd, response)))"
| "conn_advance V sh (Executed msgs cmds rs ev) c =
     Some (sh\<lparr>sh_messages := sh_messages sh @ msgs\<rparr>, c\<lparr>cn_phase := Running cmds rs ev\<rparr>, None)"
| "conn_advance V sh (Running [] rs ev) c = Some (sh, conn_write ev rs c, None)"
| "conn_advance V sh AtSelect c = None"
| "conn_advance V sh Finished c = None"
| "conn_advance V sh Crashed c = None"

section \<open>Server\<close>

record server =
  sv_shared :: shared
  sv_conns :: "conn list"
  sv_listening :: bool
  sv_cancelled :: bool

definition server_init :: server where
  "server_init =
     \<lparr>sv_shared = \<lparr>sh_store = [], sh_messages = [], sh_commands = []\<rparr>, sv_conns = [],
      sv_listening = True, sv_cancelled = False\<rparr>"

text \<open>
  The harness keeps the first receiver of each of its two channels; the token it shares with the
  server is the server's \<open>sv_cancelled\<close>.
\<close>

record 'r test_harness =
  th_host :: string
  th_message_receiver :: 'r
  th_connection_receiver :: 'r

record 'c server_channels =
  sc_message :: 'c
  sc_connection :: 'c

text \<open>
  \<open>TestHarness::new\<close> waits for the host name and panics when it never comes. The result has the
  messages that the server publishes to its subscribers, too.
\<close>

definition test_harness_new ::
  "('c, 'r, string) broadcast \<Rightarrow> listen_env \<Rightarrow> (string, string list) hash_map option \<Rightarrow>
     effect list \<times> ('r test_harness \<times> 'c server_channels \<times> (string, string list) hash_map \<times> server) outcome" where
  "test_harness_new B L pubsub_messages =
     (let (message_receiver, message_sender) = ch_channel B 32;
          (connection_receiver, connection_sender) = ch_channel B 32;
          (es, st) = listen_start (L\<lparr>le_receiver_alive := True\<rparr>);
          pm = (case pubsub_messages of Some m \<Rightarrow> m | None \<Rightarrow> [])
      in (es, case st of
                Listening host \<Rightarrow>
                  Ret (\<lparr>th_host = host, th_message_receiver = message_receiver, th_connection_receiver = connection_receiver\<rparr>,
                    \<lparr>sc_message = message_sender, sc_connection = connection_sender\<rparr>, pm, server_init)
              | ListenReturned \<Rightarrow> Panic
              | ListenPanicked \<Rightarrow> Panic))"

definition harness_drop :: "server \<Rightarrow> server" where
  "harness_drop s = s\<lparr>sv_cancelled := True\<rparr>"

text \<open>
  One step of the server and what it was: of the environment (a connection arrives or fails to,
  bytes or the end of the input arrive, waiting for them fails, the harness is dropped) or of the
  server itself, an execution with the number of the connection, the command and its reply. The
  accept loop and the connections wait on the same token; when something else is ready too,
  \<open>select!\<close> may take either.
\<close>

datatype server_label =
    Accepted
  | AcceptFailed string
  | HarnessDropped
  | Arrived nat read_event
  | ReadableFailed nat string
  | Internal
  | Exec nat command string

inductive server_step :: "mock_env \<Rightarrow> server \<Rightarrow> server_label \<Rightarrow> server \<Rightarrow> bool" for V where
  accept: "sv_listening s \<Longrightarrow> server_step V s Accepted (s\<lparr>sv_conns := sv_conns s @ [conn_new]\<rparr>)"
| accept_failed: "sv_listening s \<Longrightarrow> server_step V s (AcceptFailed e) s"
| stop_listening: "sv_listening s \<Longrightarrow> sv_cancelled s \<Longrightarrow> server_step V s Internal (s\<lparr>sv_listening := False\<rparr>)"
| dropped_harness: "server_step V s HarnessDropped (harness_drop s)"
| shutdown: "i < length (sv_conns s) \<Longrightarrow> c = sv_conns s ! i \<Longrightarrow> cn_phase c = AtSelect \<Longrightarrow> sv_cancelled s \<Longrightarrow>
    server_step V s Internal (s\<lparr>sv_conns := (sv_conns s)[i := c\<lparr>cn_phase := Finished\<rparr>]\<rparr>)"
| readable_err: "i < length (sv_conns s) \<Longrightarrow> c = sv_conns s ! i \<Longrightarrow> cn_phase c = AtSelect \<Longrightarrow>
    server_step V s (ReadableFailed i e) (s\<lparr>sv_conns := (sv_conns s)[i := c\<lparr>cn_phase := Finished\<rparr>]\<rparr>)"
| read: "i < length (sv_conns s) \<Longrightarrow> c = sv_conns s ! i \<Longrightarrow> cn_phase c = AtSelect \<Longrightarrow>
    server_step V s (Arrived i ev) (s\<lparr>sv_conns := (sv_conns s)[i := conn_read V ev c]\<rparr>)"
| advance: "i < length (sv_conns s) \<Longrightarrow> c = sv_conns s ! i \<Longrightarrow>
    conn_advance V (sv_shared s) (cn_phase c) c = Some (sh, c', x) \<Longrightarrow>
    server_step V s (case x of None \<Rightarrow> Internal | Some (cmd, r) \<Rightarrow> Exec i cmd r)
      (s\<lparr>sv_shared := sh, sv_conns := (sv_conns s)[i := c']\<rparr>)"

inductive server_run :: "mock_env \<Rightarrow> server \<Rightarrow> server_label list \<Rightarrow> server \<Rightarrow> bool" for V where
  run_start: "server_run V s [] s"
| run_step: "server_run V s ls s' \<Longrightarrow> server_step V s' l s'' \<Longrightarrow> server_run V s (ls @ [l]) s''"


section \<open>Lemmas\<close>

subsection \<open>What a run did\<close>

text \<open>The executions of a run in their order, those of one connection, and the input of one.\<close>

definition execs :: "server_label list \<Rightarrow> (nat \<times> command \<times> string) list" where
  "execs ls = List.map_filter (\<lambda>l. case l of Exec i cmd r \<Rightarrow> Some (i, cmd, r) | _ \<Rightarrow> None) ls"

definition exec_of :: "nat \<Rightarrow> server_label list \<Rightarrow> (command \<times> string) list" where
  "exec_of i ls = map snd (filter (\<lambda>x. fst x = i) (execs ls))"

definition input_of :: "nat \<Rightarrow> server_label \<Rightarrow> bytes option" where
  "input_of i l =
     (case l of
        Arrived j ev \<Rightarrow>
          (case rd_result ev of Inr bs \<Rightarrow> if j = i \<and> bs \<noteq> [] then Some bs else None | Inl _ \<Rightarrow> None)
      | _ \<Rightarrow> None)"

definition reads_of :: "nat \<Rightarrow> server_label list \<Rightarrow> bytes list" where
  "reads_of i ls = List.map_filter (input_of i) ls"

lemma execs_simps [simp]:
  "execs [] = []" "execs (ls @ ks) = execs ls @ execs ks" "execs [Internal] = []" "execs [Accepted] = []"
  "execs [AcceptFailed e] = []" "execs [HarnessDropped] = []" "execs [Arrived i ev] = []"
  "execs [ReadableFailed i e] = []" "execs [Exec i cmd r] = [(i, cmd, r)]"
  by (simp_all add: execs_def)

lemma exec_of_simps [simp]:
  "exec_of i [] = []" "exec_of i (ls @ ks) = exec_of i ls @ exec_of i ks"
  "exec_of i [Internal] = []" "exec_of i [Accepted] = []" "exec_of i [AcceptFailed e] = []"
  "exec_of i [HarnessDropped] = []" "exec_of i [Arrived j ev] = []" "exec_of i [ReadableFailed j e] = []"
  "exec_of i [Exec j cmd r] = (if j = i then [(cmd, r)] else [])"
  by (simp_all add: exec_of_def)

lemma reads_of_simps [simp]:
  "reads_of i [] = []" "reads_of i (ls @ ks) = reads_of i ls @ reads_of i ks"
  "reads_of i [Internal] = []" "reads_of i [Accepted] = []" "reads_of i [AcceptFailed e] = []"
  "reads_of i [HarnessDropped] = []" "reads_of i [ReadableFailed j e] = []" "reads_of i [Exec j cmd r] = []"
  "reads_of i [Arrived j ev] =
     (case rd_result ev of Inr bs \<Rightarrow> if j = i \<and> bs \<noteq> [] then [bs] else [] | Inl _ \<Rightarrow> [])"
  by (simp_all add: reads_of_def input_of_def split: sum.splits)

text \<open>What a phase has still to do: commands, replies to write, captured messages to send.\<close>

fun todo :: "conn_phase \<Rightarrow> command list" where
  "todo (Running cmds _ _) = cmds"
| "todo (Announced cmd cmds _ _) = cmd # cmds"
| "todo (Executed _ cmds _ _) = cmds"
| "todo _ = []"

fun unwritten :: "conn_phase \<Rightarrow> string list" where
  "unwritten (Running _ rs _) = rs"
| "unwritten (Announced _ _ rs _) = rs"
| "unwritten (Executed _ _ rs _) = rs"
| "unwritten _ = []"

fun unsent :: "conn_phase \<Rightarrow> string list" where
  "unsent (Executed msgs _ _ _) = msgs"
| "unsent _ = []"

fun called :: "conn_phase \<Rightarrow> command list" where
  "called (Announced cmd _ _ _) = [cmd]"
| "called _ = []"

subsection \<open>Steps of one connection\<close>

lemma receive_all_snoc:
  "receive_all u p (bss @ [bs]) =
     (case receive_all u p bss of
        Panic \<Rightarrow> Panic
      | Ret (cs, q) \<Rightarrow> (case receive u q bs of Panic \<Rightarrow> Panic | Ret (cs', q') \<Rightarrow> Ret (cs @ cs', q')))"
  by (induction bss arbitrary: p) (auto split: outcome.splits prod.splits)

lemma write_responses_prefix:
  "write_responses ws rs c = (r, c') \<Longrightarrow>
     (\<exists>done. cs_written c' = cs_written c @ done \<and> prefix done rs \<and> (is_ok r \<longrightarrow> done = rs))"
proof (induction rs arbitrary: ws c)
  case (Cons x rs)
  show ?case
  proof (cases "case ws of [] \<Rightarrow> Inr () | w # _ \<Rightarrow> w")
    case (Inl e)
    with Cons.prems show ?thesis by (simp, elim conjE, hypsubst, simp)
  next
    case (Inr u)
    with Cons.prems have "write_responses (tl ws) rs (c\<lparr>cs_written := cs_written c @ [x]\<rparr>) = (r, c')" by simp
    from Cons.IH [OF this] show ?thesis by auto
  qed
qed simp

lemma conn_write_cases:
  obtains out where "cn_written (conn_write ev rs c) = cn_written c @ out" and "prefix out rs"
    and "cn_phase (conn_write ev rs c) = Finished"
  | "cn_written (conn_write ev rs c) = cn_written c @ rs" and "cn_phase (conn_write ev rs c) = AtSelect"
proof -
  let ?w = "\<lparr>cs_pending = [], cs_store = [], cs_messages = [], cs_commands = [], cs_written = cn_written c\<rparr>"
  obtain r w where w: "write_responses (rd_writes ev) rs ?w = (r, w)" by fastforce
  obtain out where "cs_written w = cn_written c @ out" "prefix out rs" "is_ok r \<longrightarrow> out = rs"
    using write_responses_prefix [OF w] by auto
  with w that show thesis
    by (cases r; cases "rd_flush ev") (auto simp: conn_write_def)
qed

lemma conn_write_pending [simp]: "cn_pending (conn_write ev rs c) = cn_pending c"
  by (simp add: conn_write_def split: sum.splits prod.splits)


text \<open>
  What holds of a connection after a run: its input was understood as what it executed and has
  still to execute, it has crashed only where understanding it panics, and its replies are written
  in order, all of them unless a write failed.
\<close>

definition conn_inv :: "mock_env \<Rightarrow> server_label list \<Rightarrow> nat \<Rightarrow> conn \<Rightarrow> bool" where
  "conn_inv V ls i c \<longleftrightarrow>
     (cn_phase c \<noteq> Crashed \<longrightarrow>
        receive_all (me_upper V) [] (reads_of i ls) = Ret (map fst (exec_of i ls) @ todo (cn_phase c), cn_pending c)) \<and>
     (cn_phase c = Crashed \<longrightarrow> receive_all (me_upper V) [] (reads_of i ls) = Panic) \<and>
     prefix (cn_written c) (map snd (exec_of i ls)) \<and>
     (cn_phase c \<noteq> Finished \<longrightarrow> map snd (exec_of i ls) = cn_written c @ unwritten (cn_phase c))"

lemma conn_inv_read:
  assumes "conn_inv V ls i c" and "cn_phase c = AtSelect"
  shows "conn_inv V (ls @ [Arrived i ev]) i (conn_read V ev c)"
proof (cases "rd_result ev")
  case (Inl e)
  with assms show ?thesis by (simp add: conn_inv_def conn_read_def)
next
  case (Inr bs)
  with assms show ?thesis
    by (cases "receive (me_upper V) (cn_pending c) bs")
      (auto simp: conn_inv_def conn_read_def receive_all_snoc)
qed

lemma conn_inv_finish:
  "conn_inv V ls i c \<Longrightarrow> cn_phase c = AtSelect \<Longrightarrow> reads_of i [l] = [] \<Longrightarrow> exec_of i [l] = [] \<Longrightarrow>
     conn_inv V (ls @ [l]) i (c\<lparr>cn_phase := Finished\<rparr>)"
  by (simp add: conn_inv_def)

lemma conn_inv_write:
  assumes "conn_inv V ls i c" and "cn_phase c = Running [] rs ev"
  shows "conn_inv V (ls @ [Internal]) i (conn_write ev rs c)"
  by (rule conn_write_cases [of ev rs c]) (use assms in \<open>auto simp: conn_inv_def\<close>)

abbreviation advance_label :: "nat \<Rightarrow> (command \<times> string) option \<Rightarrow> server_label" where
  "advance_label i x \<equiv> (case x of None \<Rightarrow> Internal | Some (cmd, r) \<Rightarrow> Exec i cmd r)"

text \<open>The stretches of a connection, one by one.\<close>

lemma conn_advance_cases:
  assumes "conn_advance V sh ph c = Some (sh', c', x)"
  obtains (announce) cmd cmds rs ev where "ph = Running (cmd # cmds) rs ev"
    and "sh' = sh\<lparr>sh_commands := sh_commands sh @ [describe (me_debug V) cmd]\<rparr>"
    and "c' = c\<lparr>cn_phase := Announced cmd cmds rs ev\<rparr>" and "x = None"
  | (execute) cmd cmds rs ev r msgs st where "ph = Announced cmd cmds rs ev"
    and "execute_command (me_pubsub V) cmd (sh_store sh) = (Inr r, msgs, st)"
    and "sh' = sh\<lparr>sh_store := st\<rparr>" and "c' = c\<lparr>cn_phase := Executed msgs cmds (rs @ [r]) ev\<rparr>"
    and "x = Some (cmd, r)"
  | (capture) msgs cmds rs ev where "ph = Executed msgs cmds rs ev"
    and "sh' = sh\<lparr>sh_messages := sh_messages sh @ msgs\<rparr>" and "c' = c\<lparr>cn_phase := Running cmds rs ev\<rparr>"
    and "x = None"
  | (reply) rs ev where "ph = Running [] rs ev" and "sh' = sh" and "c' = conn_write ev rs c" and "x = None"
proof (cases ph)
  case (Running cmds rs ev)
  with assms announce reply show thesis by (cases cmds) auto
next
  case (Announced cmd cmds rs ev)
  obtain r msgs st where "execute_command (me_pubsub V) cmd (sh_store sh) = (Inr r, msgs, st)"
    using execute_Inr [of "me_pubsub V" cmd "sh_store sh"] by (metis prod.collapse)
  with Announced assms execute show thesis by auto
qed (use assms capture in auto)

lemma conn_inv_advance:
  assumes "conn_inv V ls i c" and "conn_advance V sh (cn_phase c) c = Some (sh', c', x)"
  shows "conn_inv V (ls @ [advance_label i x]) i c'"
  using assms(2)
proof (cases rule: conn_advance_cases)
  case (reply rs ev)
  with conn_inv_write [OF assms(1) reply(1)] show ?thesis by simp
qed (use assms(1) in \<open>auto simp: conn_inv_def\<close>)

lemma conn_inv_other:
  "conn_inv V ls j c \<Longrightarrow> reads_of j [l] = [] \<Longrightarrow> exec_of j [l] = [] \<Longrightarrow> conn_inv V (ls @ [l]) j c"
  by (simp add: conn_inv_def)

subsection \<open>The store and the channels\<close>

text \<open>
  The executions are one sequential run of the commands on the store, in the order in which the
  store was locked; the captured messages and the announced commands are those of this run, up
  to what the connections have still to send or to execute.
\<close>

definition shared_inv :: "mock_env \<Rightarrow> server_label list \<Rightarrow> server \<Rightarrow> bool" where
  "shared_inv V ls s \<longleftrightarrow>
     (\<exists>msgs. exec_all (me_pubsub V) (map (fst \<circ> snd) (execs ls)) [] =
         (map (snd \<circ> snd) (execs ls), msgs, sh_store (sv_shared s)) \<and>
       mset msgs = mset (sh_messages (sv_shared s)) + (\<Sum>c\<leftarrow>sv_conns s. mset (unsent (cn_phase c)))) \<and>
     mset (sh_commands (sv_shared s)) =
       mset (map (describe (me_debug V) \<circ> fst \<circ> snd) (execs ls)) +
       (\<Sum>c\<leftarrow>sv_conns s. mset (map (describe (me_debug V)) (called (cn_phase c))))"

lemma sum_list_replace:
  fixes f :: "'a \<Rightarrow> 'b multiset"
  assumes "i < length xs"
  shows "(\<Sum>y\<leftarrow>xs[i := x]. f y) + f (xs ! i) = (\<Sum>y\<leftarrow>xs. f y) + f x"
proof -
  have "xs = take i xs @ xs ! i # drop (Suc i) xs"
    using assms by (rule id_take_nth_drop)
  then have "(\<Sum>y\<leftarrow>xs. f y) = sum_list (map f (take i xs)) + (f (xs ! i) + sum_list (map f (drop (Suc i) xs)))"
    by (metis list.simps(9) map_append sum_list.Cons sum_list_append)
  moreover have "(\<Sum>y\<leftarrow>xs[i := x]. f y) = sum_list (map f (take i xs)) + (f x + sum_list (map f (drop (Suc i) xs)))"
    using assms by (simp add: upd_conv_take_nth_drop)
  ultimately show ?thesis by (simp add: ac_simps)
qed

text \<open>A connection that changes without anything unsent or called.\<close>

lemma sum_list_quiet:
  fixes f :: "conn_phase \<Rightarrow> 'b multiset"
  assumes "i < length cs" and "f (cn_phase c') = f (cn_phase (cs ! i))"
  shows "(\<Sum>c\<leftarrow>cs[i := c']. f (cn_phase c)) = (\<Sum>c\<leftarrow>cs. f (cn_phase c))"
  using sum_list_replace [OF assms(1), of "\<lambda>c. f (cn_phase c)" c'] assms(2) by simp


lemma shared_inv_quiet:
  assumes "shared_inv V ls s" and "execs [l] = []" and "sv_shared s' = sv_shared s"
    and "i < length (sv_conns s)" and "sv_conns s' = (sv_conns s)[i := c']"
    and "unsent (cn_phase c') = unsent (cn_phase (sv_conns s ! i))"
    and "called (cn_phase c') = called (cn_phase (sv_conns s ! i))"
  shows "shared_inv V (ls @ [l]) s'"
  using assms(1) sum_list_quiet [OF assms(4), of "\<lambda>p. mset (unsent p)" c']
    sum_list_quiet [OF assms(4), of "\<lambda>p. mset (map (describe (me_debug V)) (called p))" c']
  unfolding shared_inv_def by (simp add: assms)

lemma exec_all_snoc:
  assumes "exec_all pm cs st = (rs, ms, st1)" and "execute_command pm c st1 = (Inr r, ms', st2)"
  shows "exec_all pm (cs @ [c]) st = (rs @ [r], ms @ ms', st2)"
  using assms by (simp add: exec_all_append)

lemma shared_inv_advance:
  assumes "shared_inv V ls s" and "i < length (sv_conns s)"
    and "conn_advance V (sv_shared s) (cn_phase (sv_conns s ! i)) (sv_conns s ! i) = Some (sh', c', x)"
  shows "shared_inv V (ls @ [advance_label i x]) (s\<lparr>sv_shared := sh', sv_conns := (sv_conns s)[i := c']\<rparr>)"
proof -
  note us = sum_list_replace [OF assms(2), of "\<lambda>c. mset (unsent (cn_phase c))" c']
  note ca = sum_list_replace [OF assms(2), of "\<lambda>c. mset (map (describe (me_debug V)) (called (cn_phase c)))" c']
  obtain msgs where m: "exec_all (me_pubsub V) (map (fst \<circ> snd) (execs ls)) [] =
      (map (snd \<circ> snd) (execs ls), msgs, sh_store (sv_shared s))"
    "mset msgs = mset (sh_messages (sv_shared s)) + (\<Sum>c\<leftarrow>sv_conns s. mset (unsent (cn_phase c)))"
    "mset (sh_commands (sv_shared s)) =
       mset (map (describe (me_debug V) \<circ> fst \<circ> snd) (execs ls)) +
       (\<Sum>c\<leftarrow>sv_conns s. mset (map (describe (me_debug V)) (called (cn_phase c))))"
    using assms(1) unfolding shared_inv_def by blast
  from assms(3) show ?thesis
  proof (cases rule: conn_advance_cases)
    case (announce cmd cmds rs ev)
    with m us ca show ?thesis by (simp add: shared_inv_def)
  next
    case (execute cmd cmds rs ev r ms st)
    with m us ca exec_all_snoc [OF m(1) execute(2)] show ?thesis by (simp add: shared_inv_def comp_assoc)
  next
    case (capture ms cmds rs ev)
    with m us ca show ?thesis by (simp add: shared_inv_def ac_simps)
  next
    case (reply rs ev)
    have "cn_phase c' = Finished \<or> cn_phase c' = AtSelect"
      unfolding reply(3) by (rule conn_write_cases [of ev rs "sv_conns s ! i"]) simp_all
    then have "unsent (cn_phase c') = []" "called (cn_phase c') = []" by auto
    with m us ca reply show ?thesis by (simp add: shared_inv_def)
  qed
qed

definition server_inv :: "mock_env \<Rightarrow> server_label list \<Rightarrow> server \<Rightarrow> bool" where
  "server_inv V ls s \<longleftrightarrow>
     shared_inv V ls s \<and>
     (\<forall>i < length (sv_conns s). conn_inv V ls i (sv_conns s ! i)) \<and>
     (\<forall>i \<ge> length (sv_conns s). reads_of i ls = [] \<and> exec_of i ls = [])"

lemma server_inv_conn:
  assumes "server_inv V ls s" and "i < length (sv_conns s)" and "sv_conns s' = (sv_conns s)[i := c']"
    and "shared_inv V (ls @ [l]) s'" and "conn_inv V (ls @ [l]) i c'"
    and "\<And>j. j \<noteq> i \<Longrightarrow> reads_of j [l] = [] \<and> exec_of j [l] = []"
  shows "server_inv V (ls @ [l]) s'"
  using assms conn_inv_other unfolding server_inv_def
  by (auto simp: nth_list_update)

lemma server_step_inv:
  assumes "server_step V s l s'" and "server_inv V ls s"
  shows "server_inv V (ls @ [l]) s'"
  using assms
proof (induction rule: server_step.induct)
  case (accept s)
  then show ?case
    by (auto simp: server_inv_def shared_inv_def nth_append conn_new_def conn_inv_def less_Suc_eq)
next
  case (shutdown i s c)
  then show ?case
    by (intro server_inv_conn [OF shutdown.prems, where i = i] shared_inv_quiet [where i = i and s = s])
      (auto simp: server_inv_def conn_inv_finish)
next
  case (readable_err i s c e)
  then show ?case
    by (intro server_inv_conn [OF readable_err.prems, where i = i] shared_inv_quiet [where i = i and s = s])
      (auto simp: server_inv_def conn_inv_finish)
next
  case (read i s c ev)
  have "unsent (cn_phase (conn_read V ev c)) = []" "called (cn_phase (conn_read V ev c)) = []"
    using read(3) by (auto simp: conn_read_def split: sum.splits outcome.splits)
  with read show ?case
    by (intro server_inv_conn [OF read.prems, where i = i] shared_inv_quiet [where i = i and s = s])
      (auto simp: server_inv_def conn_inv_read split: sum.splits)
next
  case (advance i s c sh c' x)
  then show ?case
    by (intro server_inv_conn [OF advance.prems, where i = i] shared_inv_advance conn_inv_advance)
      (auto simp: server_inv_def split: option.splits)
qed (auto simp: server_inv_def shared_inv_def harness_drop_def conn_inv_def)

lemma server_run_inv: "server_run V s ls s' \<Longrightarrow> s = server_init \<Longrightarrow> server_inv V ls s'"
proof (induction rule: server_run.induct)
  case (run_start s)
  then show ?case by (simp add: server_inv_def shared_inv_def server_init_def)
next
  case (run_step s ls s' l s'')
  then show ?case using server_step_inv by blast
qed


subsection \<open>Connections alone\<close>

text \<open>The stretches a connection has left, the end of its wait included.\<close>

fun phase_work :: "conn_phase \<Rightarrow> nat" where
  "phase_work AtSelect = 1"
| "phase_work (Running cmds _ _) = 3 * length cmds + 2"
| "phase_work (Announced _ cmds _ _) = 3 * length cmds + 4"
| "phase_work (Executed _ cmds _ _) = 3 * length cmds + 3"
| "phase_work Finished = 0"
| "phase_work Crashed = 0"

lemma conn_write_work: "phase_work (cn_phase (conn_write ev rs c)) \<le> 1"
  by (rule conn_write_cases [of ev rs c]) simp_all

lemma conn_advance_work:
  assumes "conn_advance V sh ph c = Some (sh', c', x)"
  shows "phase_work (cn_phase c') < phase_work ph"
  using assms
proof (cases rule: conn_advance_cases)
  case (reply rs ev)
  then show ?thesis using conn_write_work [of ev rs c] by simp
qed simp_all

text \<open>A connection that nothing interrupts, up to its next wait or its end.\<close>

function conn_finish :: "mock_env \<Rightarrow> shared \<Rightarrow> conn \<Rightarrow> shared \<times> conn" where
  "conn_finish V sh c =
     (case conn_advance V sh (cn_phase c) c of
        None \<Rightarrow> (sh, c)
      | Some (sh', c', x) \<Rightarrow> conn_finish V sh' c')"
  by pat_completeness auto
termination
  by (relation "measure (\<lambda>(V, sh, c). phase_work (cn_phase c))") (auto dest: conn_advance_work)

declare conn_finish.simps [simp del]

lemma conn_finish_stop: "conn_advance V sh (cn_phase c) c = None \<Longrightarrow> conn_finish V sh c = (sh, c)"
  by (simp add: conn_finish.simps [of V sh c])

lemma conn_finish_step:
  "conn_advance V sh (cn_phase c) c = Some (sh', c', x) \<Longrightarrow> conn_finish V sh c = conn_finish V sh' c'"
  by (simp add: conn_finish.simps [of V sh c])

lemma conn_write_phase [simp]: "conn_write ev rs (c\<lparr>cn_phase := p\<rparr>) = conn_write ev rs c"
  by (simp add: conn_write_def split: sum.splits prod.splits)

lemma conn_finish_write: "conn_finish V sh (conn_write ev rs c) = (sh, conn_write ev rs c)"
  by (rule conn_write_cases [of ev rs c]) (simp_all add: conn_finish_stop)

lemma conn_finish_running:
  "conn_finish V sh (c\<lparr>cn_phase := Running cmds rs ev\<rparr>) =
     (case exec_all (me_pubsub V) cmds (sh_store sh) of
        (rs', ms, st) \<Rightarrow>
          (sh\<lparr>sh_store := st, sh_messages := sh_messages sh @ ms,
              sh_commands := sh_commands sh @ map (describe (me_debug V)) cmds\<rparr>,
           conn_write ev (rs @ rs') c))"
proof (induction cmds arbitrary: sh rs)
  case Nil
  then show ?case by (simp add: conn_finish_step conn_finish_write)
next
  case (Cons cmd cmds)
  obtain r ms st where e: "execute_command (me_pubsub V) cmd (sh_store sh) = (Inr r, ms, st)"
    using execute_Inr [of "me_pubsub V" cmd "sh_store sh"] by (metis prod.collapse)
  have "conn_finish V sh (c\<lparr>cn_phase := Running (cmd # cmds) rs ev\<rparr>) =
      conn_finish V (sh\<lparr>sh_commands := sh_commands sh @ [describe (me_debug V) cmd], sh_store := st,
        sh_messages := sh_messages sh @ ms\<rparr>) (c\<lparr>cn_phase := Running cmds (rs @ [r]) ev\<rparr>)"
    by (simp add: conn_finish_step e)
  then show ?case
    by (simp add: Cons.IH e Let_def case_prod_unfold)
qed

text \<open>Connection and shared state as \<open>read_stream\<close> has them.\<close>

definition view :: "shared \<Rightarrow> conn \<Rightarrow> conn_state" where
  "view sh c = \<lparr>cs_pending = cn_pending c, cs_store = sh_store sh, cs_messages = sh_messages sh,
     cs_commands = sh_commands sh, cs_written = cn_written c\<rparr>"

lemma write_responses_written:
  "cs_written c = cs_written d \<Longrightarrow>
     write_responses ws rs c =
     (fst (write_responses ws rs d), c\<lparr>cs_written := cs_written (snd (write_responses ws rs d))\<rparr>)"
proof (induction rs arbitrary: ws c d)
  case (Cons x rs)
  show ?case
  proof (cases "case ws of [] \<Rightarrow> Inr () | w # _ \<Rightarrow> w")
    case (Inl e)
    with Cons.prems show ?thesis by simp
  next
    case (Inr u)
    then show ?thesis
      using Cons.IH [of "c\<lparr>cs_written := cs_written c @ [x]\<rparr>" "d\<lparr>cs_written := cs_written d @ [x]\<rparr>" "tl ws"] Cons.prems
      by simp
  qed
qed simp

subsection \<open>Shutdown\<close>

fun internal :: "server_label \<Rightarrow> bool" where
  "internal Internal = True"
| "internal (Exec _ _ _) = True"
| "internal _ = False"

definition server_work :: "server \<Rightarrow> nat" where
  "server_work s = (if sv_listening s then 1 else 0) + (\<Sum>c\<leftarrow>sv_conns s. phase_work (cn_phase c))"

definition server_closed :: "server \<Rightarrow> bool" where
  "server_closed s \<longleftrightarrow> \<not> sv_listening s \<and> list_all (\<lambda>c. cn_phase c = Finished \<or> cn_phase c = Crashed) (sv_conns s)"

lemma sum_list_decrease:
  fixes f :: "'a \<Rightarrow> nat"
  assumes "i < length xs" and "f x < f (xs ! i)"
  shows "(\<Sum>y\<leftarrow>xs[i := x]. f y) < (\<Sum>y\<leftarrow>xs. f y)"
proof -
  have "xs = take i xs @ xs ! i # drop (Suc i) xs"
    using assms(1) by (rule id_take_nth_drop)
  then have "(\<Sum>y\<leftarrow>xs. f y) = sum_list (map f (take i xs)) + (f (xs ! i) + sum_list (map f (drop (Suc i) xs)))"
    by (metis list.simps(9) map_append sum_list.Cons sum_list_append)
  with assms show ?thesis by (simp add: upd_conv_take_nth_drop)
qed

lemma internal_step_work: "server_step V s l s' \<Longrightarrow> internal l \<Longrightarrow> server_work s' < server_work s"
proof (induction rule: server_step.induct)
  case (shutdown i s c)
  then show ?case using sum_list_decrease [of i "sv_conns s" "\<lambda>c. phase_work (cn_phase c)"] by (simp add: server_work_def)
next
  case (advance i s c sh c' x)
  then show ?case
    using sum_list_decrease [of i "sv_conns s" "\<lambda>c. phase_work (cn_phase c)"] conn_advance_work
    by (simp add: server_work_def)
qed (simp_all add: server_work_def)

lemma server_step_cancelled: "server_step V s l s' \<Longrightarrow> sv_cancelled s \<Longrightarrow> sv_cancelled s'"
  by (induction rule: server_step.induct) (auto simp: harness_drop_def)

lemma conn_advance_enabled:
  assumes "cn_phase c \<notin> {AtSelect, Finished, Crashed}"
  shows "\<exists>r. conn_advance V sh (cn_phase c) c = Some r"
proof (cases "cn_phase c")
  case (Running cmds rs ev)
  then show ?thesis by (cases cmds) simp_all
next
  case (Announced cmd cmds rs ev)
  then show ?thesis by (simp split: prod.splits sum.splits)
qed (use assms in auto)

lemma internal_step_enabled:
  assumes "sv_cancelled s" and "\<not> server_closed s"
  shows "\<exists>l s'. internal l \<and> server_step V s l s'"
proof (cases "sv_listening s")
  case True
  with assms(1) show ?thesis using server_step.stop_listening internal.simps(1) by blast
next
  case False
  with assms(2) obtain i where i: "i < length (sv_conns s)"
    "cn_phase (sv_conns s ! i) \<noteq> Finished" "cn_phase (sv_conns s ! i) \<noteq> Crashed"
    by (auto simp: server_closed_def list_all_length)
  show ?thesis
  proof (cases "cn_phase (sv_conns s ! i) = AtSelect")
    case True
    with i(1) assms(1) show ?thesis using server_step.shutdown internal.simps(1) by blast
  next
    case False
    with i obtain sh c' x where a: "conn_advance V (sv_shared s) (cn_phase (sv_conns s ! i)) (sv_conns s ! i) = Some (sh, c', x)"
      using conn_advance_enabled [of "sv_conns s ! i" V "sv_shared s"] by (metis insert_iff singletonD prod_cases3)
    have "internal (advance_label i x)" by (cases x) auto
    with server_step.advance [OF i(1) refl a] show ?thesis by blast
  qed
qed

lemma closed_no_internal_step:
  assumes "server_step V s l s'" and "internal l"
  shows "\<not> server_closed s"
proof
  assume "server_closed s"
  then have "server_work s = 0"
    by (auto simp: server_closed_def server_work_def list_all_iff)
  with internal_step_work [OF assms] show False by simp
qed

text \<open>
  The client of a connection has closed it: from then on the connection is always readable, and
  every read gives nothing. Such reads leave the server as it is.
\<close>

fun idle_read :: "server_label \<Rightarrow> bool" where
  "idle_read (Arrived i ev) = (rd_result ev = Inr [])"
| "idle_read _ = False"

lemma idle_read_step: "server_step V s l s' \<Longrightarrow> idle_read l \<Longrightarrow> s' = s"
  by (induction rule: server_step.induct) (auto simp: conn_read_def split: option.splits)

lemma internal_run_bounded:
  "server_run V s ls s' \<Longrightarrow> list_all (\<lambda>l. internal l \<or> idle_read l) ls \<Longrightarrow>
     length (filter internal ls) + server_work s' \<le> server_work s"
proof (induction rule: server_run.induct)
  case (run_step s ls s' l s'')
  then show ?case
    using internal_step_work [of V s' l s''] idle_read_step [of V s' l s''] by (cases "internal l") auto
qed simp

lemma server_run_cancelled: "server_run V s ls s' \<Longrightarrow> sv_cancelled s \<Longrightarrow> sv_cancelled s'"
  by (induction rule: server_run.induct) (auto dest: server_step_cancelled)


subsection \<open>Schedules\<close>

text \<open>Runs that can be computed: what happens next, chosen by a list.\<close>

datatype schedule = DoAccept | DoDrop | DoStop | DoShutdown nat | DoRead nat read_event | DoAdvance nat

fun scheduled :: "mock_env \<Rightarrow> schedule \<Rightarrow> server \<Rightarrow> (server_label \<times> server) option" where
  "scheduled V DoAccept s =
     (if sv_listening s then Some (Accepted, s\<lparr>sv_conns := sv_conns s @ [conn_new]\<rparr>) else None)"
| "scheduled V DoDrop s = Some (HarnessDropped, harness_drop s)"
| "scheduled V DoStop s =
     (if sv_listening s \<and> sv_cancelled s then Some (Internal, s\<lparr>sv_listening := False\<rparr>) else None)"
| "scheduled V (DoShutdown i) s =
     (if i < length (sv_conns s) \<and> cn_phase (sv_conns s ! i) = AtSelect \<and> sv_cancelled s
      then Some (Internal, s\<lparr>sv_conns := (sv_conns s)[i := (sv_conns s ! i)\<lparr>cn_phase := Finished\<rparr>]\<rparr>) else None)"
| "scheduled V (DoRead i ev) s =
     (if i < length (sv_conns s) \<and> cn_phase (sv_conns s ! i) = AtSelect
      then Some (Arrived i ev, s\<lparr>sv_conns := (sv_conns s)[i := conn_read V ev (sv_conns s ! i)]\<rparr>) else None)"
| "scheduled V (DoAdvance i) s =
     (if i < length (sv_conns s)
      then map_option (\<lambda>(sh, c', x). (advance_label i x, s\<lparr>sv_shared := sh, sv_conns := (sv_conns s)[i := c']\<rparr>))
        (conn_advance V (sv_shared s) (cn_phase (sv_conns s ! i)) (sv_conns s ! i))
      else None)"

fun schedule_run :: "mock_env \<Rightarrow> schedule list \<Rightarrow> server_label list \<Rightarrow> server \<Rightarrow> (server_label list \<times> server) option" where
  "schedule_run V [] ls s = Some (ls, s)"
| "schedule_run V (a # as) ls s =
     (case scheduled V a s of None \<Rightarrow> None | Some (l, s') \<Rightarrow> schedule_run V as (ls @ [l]) s')"

lemma scheduled_step: "scheduled V a s = Some (l, s') \<Longrightarrow> server_step V s l s'"
  by (cases a) (auto split: if_splits intro: server_step.intros)

lemma schedule_run_sound:
  "schedule_run V as ls s = Some (ls', s') \<Longrightarrow> server_run V s0 ls s \<Longrightarrow> server_run V s0 ls' s'"
proof (induction as arbitrary: ls s)
  case (Cons a as)
  then obtain l t where t: "scheduled V a s = Some (l, t)" and r: "schedule_run V as (ls @ [l]) t = Some (ls', s')"
    by (auto split: option.splits)
  from Cons.IH [OF r run_step [OF Cons.prems(2) scheduled_step [OF t]]] show ?case .
qed simp

text \<open>Two clients add an entry each; the one that came second is first at the store.\<close>

definition example_mock :: mock_env where
  "example_mock = \<lparr>me_upper = id, me_debug = id, me_pubsub = []\<rparr>"

definition xadd_read :: "string \<Rightarrow> read_event" where
  "xadd_read v = clean_read (into_bytes_str (''XADD t * k '' @ v @ CRLF))"

definition race :: "schedule list" where
  "race = [DoAccept, DoAccept, DoRead 0 (xadd_read ''a''), DoRead 1 (xadd_read ''b''),
     DoAdvance 0, DoAdvance 1, DoAdvance 1, DoAdvance 0, DoAdvance 0, DoAdvance 1, DoAdvance 1, DoAdvance 0]"

definition race_result :: "server_label list \<times> server" where
  "race_result = the (schedule_run example_mock race [] server_init)"

lemma race_run: "server_run example_mock server_init (fst race_result) (snd race_result)"
proof -
  have "schedule_run example_mock race [] server_init \<noteq> None" by code_simp
  then have "schedule_run example_mock race [] server_init = Some (fst race_result, snd race_result)"
    by (simp add: race_result_def)
  then show ?thesis by (rule schedule_run_sound) (rule run_start)
qed

lemma race_values:
  "execs (fst race_result) =
     [(1, Xadd ''t'' [(''k'', ''b'')], ''$3'' @ CRLF @ ''1-0'' @ CRLF), (0, Xadd ''t'' [(''k'', ''a'')], ''$3'' @ CRLF @ ''2-0'' @ CRLF)]"
  "sh_messages (sv_shared (snd race_result)) = [''a'', ''b'']"
  "map cn_phase (sv_conns (snd race_result)) = [AtSelect, AtSelect]"
  by code_simp+


section \<open>Properties\<close>

text \<open>
  C8: However the connections of the mock server interleave, all commands take effect one after
  the other, in the order in which they locked the store: the replies of all connections and the
  final store are those of that sequential run. Each captured message of that run is sent to the
  message channel once, though not always in that order, and none is missing when no connection
  is in the middle of a command.
\<close>

theorem store_linearizable:
  assumes "server_run V server_init ls s"
  shows "\<exists>msgs. exec_all (me_pubsub V) (map (fst \<circ> snd) (execs ls)) [] =
      (map (snd \<circ> snd) (execs ls), msgs, sh_store (sv_shared s)) \<and>
    mset (sh_messages (sv_shared s)) \<subseteq># mset msgs \<and>
    (list_all (\<lambda>c. unsent (cn_phase c) = []) (sv_conns s) \<longrightarrow> mset (sh_messages (sv_shared s)) = mset msgs)"
proof -
  obtain msgs where m: "exec_all (me_pubsub V) (map (fst \<circ> snd) (execs ls)) [] =
      (map (snd \<circ> snd) (execs ls), msgs, sh_store (sv_shared s))"
    "mset msgs = mset (sh_messages (sv_shared s)) + (\<Sum>c\<leftarrow>sv_conns s. mset (unsent (cn_phase c)))"
    using server_run_inv [OF assms refl] by (auto simp: server_inv_def shared_inv_def)
  moreover have "(\<Sum>c\<leftarrow>cs. mset (unsent (cn_phase c))) = {#}" if "list_all (\<lambda>c. unsent (cn_phase c) = []) cs" for cs
    using that by (induction cs) simp_all
  ultimately show ?thesis by auto
qed

theorem store_linearizable_witness:
  "\<exists>msgs. exec_all [] [Xadd ''t'' [(''k'', ''b'')], Xadd ''t'' [(''k'', ''a'')]] [] =
      ([''$3'' @ CRLF @ ''1-0'' @ CRLF, ''$3'' @ CRLF @ ''2-0'' @ CRLF], msgs, sh_store (sv_shared (snd race_result))) \<and>
    mset [''a'', ''b''] = mset msgs"
proof -
  have "list_all (\<lambda>p. unsent p = []) (map cn_phase (sv_conns (snd race_result)))"
    unfolding race_values(3) by simp
  then have "list_all (\<lambda>c. unsent (cn_phase c) = []) (sv_conns (snd race_result))"
    by (simp add: list_all_iff)
  with store_linearizable [OF race_run] show ?thesis
    unfolding race_values(1,2) by (auto simp: example_mock_def simp del: exec_all.simps)
qed



text \<open>
  C28: Dropping the harness shuts the server down: once the token is cancelled and no new
  connection or input comes, the server makes a bounded number of steps, and as long as the accept
  loop or a connection has not ended there is one it can make. Connections that their clients have
  closed stay readable, and \<open>select!\<close> may take an empty read of theirs any number of times before it
  takes the cancelled branch; these reads are not counted, and they change nothing.
\<close>

theorem shutdown_terminates:
  assumes "server_run V s ls s'" and "sv_cancelled s" and "list_all (\<lambda>l. internal l \<or> idle_read l) ls"
  shows "length (filter internal ls) \<le> server_work s \<and>
    ((\<exists>l s''. internal l \<and> server_step V s' l s'') \<longleftrightarrow> \<not> server_closed s') \<and>
    (\<forall>l s''. idle_read l \<longrightarrow> server_step V s' l s'' \<longrightarrow> s'' = s')"
  using internal_run_bounded [OF assms(1,3)] internal_step_enabled [of s' V] closed_no_internal_step [of V s']
    server_run_cancelled [OF assms(1,2)] idle_read_step [of V s'] by auto

theorem shutdown_terminates_witness:
  "\<exists>ls s'. server_run example_mock (harness_drop (snd race_result)) ls s' \<and> length (filter internal ls) \<le> 3 \<and>
     length ls = 5 \<and> server_closed s'"
proof -
  let ?s = "harness_drop (snd race_result)"
  let ?as = "[DoRead 0 (clean_read []), DoShutdown 1, DoStop, DoRead 0 (clean_read []), DoShutdown 0]"
  let ?x = "the (schedule_run example_mock ?as [] ?s)"
  have "schedule_run example_mock ?as [] ?s \<noteq> None" by code_simp
  then have "schedule_run example_mock ?as [] ?s = Some (fst ?x, snd ?x)"
    by simp
  then have r: "server_run example_mock ?s (fst ?x) (snd ?x)"
    by (rule schedule_run_sound) (rule run_start)
  have c: "sv_cancelled ?s" by (simp add: harness_drop_def)
  have i: "list_all (\<lambda>l. internal l \<or> idle_read l) (fst ?x)" by code_simp
  have w: "server_work ?s = 3" by code_simp
  have "server_closed (snd ?x)" "length (fst ?x) = 5" by code_simp+
  with shutdown_terminates [OF r c i] r w show ?thesis by auto
qed

text \<open>
  The stretches are \<open>read_stream\<close>: a connection that reads and is not interrupted does to its
  own state and to the shared state exactly what the whole function does, and ends where the
  connection loop goes on from its result.
\<close>

theorem stretches_implement_read_stream:
  assumes "cn_phase c = AtSelect" and "conn_finish V sh (conn_read V ev c) = (sh', c')"
  shows "(case read_stream V ev (view sh c) of
      Panic \<Rightarrow> cn_phase c' = Crashed
    | Ret (r, v) \<Rightarrow> view sh' c' = v \<and> cn_phase c' = (if is_ok r then AtSelect else Finished))"
proof (cases "rd_result ev")
  case (Inl e)
  with assms show ?thesis
    by (simp add: conn_read_def read_stream_def conn_finish_stop) (auto simp: view_def)
next
  case (Inr bs)
  show ?thesis
  proof (cases "bs = []")
    case True
    with Inr assms show ?thesis by (simp add: conn_read_def read_stream_def conn_finish_stop)
  next
    case ne: False
    show ?thesis
    proof (cases "receive (me_upper V) (cn_pending c) bs")
      case Panic
      with Inr ne assms show ?thesis by (auto simp: conn_read_def read_stream_def conn_finish_stop view_def)
    next
      case (Ret x)
      obtain cmds p where x: "x = (cmds, p)" by (cases x)
      obtain rs ms st where e: "exec_all (me_pubsub V) cmds (sh_store sh) = (rs, ms, st)" by (metis prod_cases3)
      let ?v = "\<lparr>cs_pending = p, cs_store = st, cs_messages = sh_messages sh @ ms,
        cs_commands = sh_commands sh @ map (describe (me_debug V)) cmds, cs_written = cn_written c\<rparr>"
      let ?d = "\<lparr>cs_pending = [], cs_store = [], cs_messages = [], cs_commands = [], cs_written = cn_written c\<rparr>"
      obtain w d where w: "write_responses (rd_writes ev) rs ?d = (w, d)" by fastforce
      have v: "write_responses (rd_writes ev) rs ?v = (w, ?v\<lparr>cs_written := cs_written d\<rparr>)"
        by (subst write_responses_written [of ?v ?d]) (simp_all add: w)
      have "sh' = sh\<lparr>sh_store := st, sh_messages := sh_messages sh @ ms,
          sh_commands := sh_commands sh @ map (describe (me_debug V)) cmds\<rparr>"
        "c' = conn_write ev rs (c\<lparr>cn_pending := p\<rparr>)"
        using assms(2) conn_finish_running [where V = V and sh = sh and c = "c\<lparr>cn_pending := p\<rparr>" and cmds = cmds and rs = "[]" and ev = ev]
        by (auto simp: conn_read_def Inr ne Ret x e)
      then show ?thesis
        using v w by (cases w; cases "rd_flush ev")
          (simp_all add: read_stream_def Inr ne Ret x view_def run_commands_exec e conn_write_def)
    qed
  qed
qed

theorem stretches_implement_read_stream_witness:
  "case read_stream example_mock (xadd_read ''a'')
       (view \<lparr>sh_store = [], sh_messages = [], sh_commands = []\<rparr> conn_new) of
     Panic \<Rightarrow> False
   | Ret (r, v) \<Rightarrow> is_ok r \<and> cs_messages v = [''a'']"
proof -
  let ?sh = "\<lparr>sh_store = [], sh_messages = [], sh_commands = []\<rparr>"
  let ?x = "conn_finish example_mock ?sh (conn_read example_mock (xadd_read ''a'') conn_new)"
  have v: "sh_messages (fst ?x) = [''a'']" "cn_phase (snd ?x) = AtSelect" by code_simp+
  have "cn_phase conn_new = AtSelect" by (simp add: conn_new_def)
  from stretches_implement_read_stream [OF this, where V = example_mock and sh = ?sh and ev = "xadd_read ''a''",
      OF prod.collapse [symmetric]] v
  show ?thesis by (auto simp: view_def split: outcome.splits if_splits)
qed







text \<open>
  The harness starts exactly when the listener is bound and has an address; its host is that
  address. Otherwise \<open>new\<close> panics, with one error line when binding was the reason.
\<close>

theorem test_harness_new_cases:
  "fst (test_harness_new B L pm) =
     (case le_bind L of Inl e \<Rightarrow> [LogError (''Error binding mock Redis server: '' @ e)] | Inr _ \<Rightarrow> []) \<and>
   (snd (test_harness_new B L pm) = Panic \<longleftrightarrow> \<not> is_ok (le_bind L) \<or> \<not> is_ok (le_local_addr L)) \<and>
   (snd (test_harness_new B L pm) = Ret (h, chs, pm', srv) \<longrightarrow> le_local_addr L = Inr (th_host h) \<and> srv = server_init)"
  by (auto simp: test_harness_new_def listen_start_def case_prod_unfold Let_def split: sum.splits)

end
