(* ===== verification/Resp_Replies.thy ===== *)
theory Resp_Replies
  imports Mock_Redis
begin

text \<open>
  The replies of the mock Redis server (\<^verbatim>\<open>src/src/redis_impls/testing_utils/mod.rs\<close>) as a client reads
  them: the values of the Redis serialisation protocol with their encoding and a decoder, which
  are the reference here, and what the replies of \<open>execute_command\<close> decode to.
\<close>

section \<open>Protocol values\<close>

datatype resp_value =
    RespSimple string
  | RespInt nat
  | RespBulk string
  | RespNil
  | RespArray "resp_value list"

fun resp_encode :: "resp_value \<Rightarrow> string" where
  "resp_encode (RespSimple s) = ''+'' @ s @ CRLF"
| "resp_encode (RespInt n) = '':'' @ show_nat n @ CRLF"
| "resp_encode (RespBulk s) = ''$'' @ show_nat (length s) @ CRLF @ s @ CRLF"
| "resp_encode RespNil = ''$-1'' @ CRLF"
| "resp_encode (RespArray vs) = ''*'' @ show_nat (length vs) @ CRLF @ concat (map resp_encode vs)"

text \<open>Decoding \<open>n\<close> values one after the other.\<close>

primrec decode_many :: "(string \<Rightarrow> ('a \<times> string) option) \<Rightarrow> nat \<Rightarrow> string \<Rightarrow> ('a list \<times> string) option" where
  "decode_many dec 0 s = Some ([], s)"
| "decode_many dec (Suc n) s =
     (case dec s of
        None \<Rightarrow> None
      | Some (v, r) \<Rightarrow> map_option (\<lambda>(vs, r'). (v # vs, r')) (decode_many dec n r))"

definition decode_bulk :: "string \<Rightarrow> string \<Rightarrow> (resp_value \<times> string) option" where
  "decode_bulk digits r =
     (case parse_usize digits of
        None \<Rightarrow> None
      | Some n \<Rightarrow>
          if take 2 (drop n r) = CRLF then Some (RespBulk (take n r), drop (n + 2) r) else None)"

text \<open>The argument bounds how deep arrays are nested.\<close>

primrec resp_decode :: "nat \<Rightarrow> string \<Rightarrow> (resp_value \<times> string) option" where
  "resp_decode 0 s = None"
| "resp_decode (Suc d) s =
     (case split_line s of
        None \<Rightarrow> None
      | Some (line, r) \<Rightarrow>
          (case line of
             [] \<Rightarrow> None
           | c # digits \<Rightarrow>
               if c = CHR ''+'' then Some (RespSimple digits, r)
               else if c = CHR '':'' then map_option (\<lambda>n. (RespInt n, r)) (parse_usize digits)
               else if c = CHR ''$'' then (if digits = ''-1'' then Some (RespNil, r) else decode_bulk digits r)
               else if c = CHR ''*'' then
                 Option.bind (parse_usize digits) (\<lambda>n.
                   map_option (\<lambda>(vs, r'). (RespArray vs, r')) (decode_many (resp_decode d) n r))
               else None))"

text \<open>How deep arrays are nested in a value.\<close>

fun resp_depth :: "resp_value \<Rightarrow> nat" where
  "resp_depth (RespArray vs) = Suc (fold max (map resp_depth vs) 0)"
| "resp_depth _ = 1"

text \<open>The values that can be sent: sizes of 64 bits, simple strings of one line.\<close>

fun resp_ok :: "resp_value \<Rightarrow> bool" where
  "resp_ok (RespSimple s) = (CHR 0x0D \<notin> set s)"
| "resp_ok (RespInt n) = (n < 2 ^ 64)"
| "resp_ok (RespBulk s) = (length s < 2 ^ 64)"
| "resp_ok RespNil = True"
| "resp_ok (RespArray vs) = (length vs < 2 ^ 64 \<and> list_all resp_ok vs)"

section \<open>Round trip\<close>

lemma show_nat_not_minus: "show_nat n \<noteq> ''-1''"
  using show_nat_digits [of "CHR ''-''" n] by auto

lemma split_line_typed:
  "CHR 0x0D \<notin> set l \<Longrightarrow> CHR 0x0D \<noteq> c \<Longrightarrow> split_line ((c # l) @ CRLF @ r) = Some (c # l, r)"
  by (rule split_line_first) simp

lemma decode_many_concat:
  assumes "\<And>v r. v \<in> set vs \<Longrightarrow> dec (enc v @ r) = Some (v, r)"
  shows "decode_many dec (length vs) (concat (map enc vs) @ r) = Some (vs, r)"
  using assms by (induction vs) auto

lemma fold_max_le: "fold max xs a \<le> (d :: nat) \<longleftrightarrow> a \<le> d \<and> (\<forall>x \<in> set xs. x \<le> d)"
  by (induction xs arbitrary: a) auto

lemma resp_decode_encode:
  "resp_ok v \<Longrightarrow> resp_depth v \<le> d \<Longrightarrow> resp_decode d (resp_encode v @ r) = Some (v, r)"
proof (induction v arbitrary: d r)
  case (RespSimple s)
  then obtain k where "d = Suc k" by (cases d) auto
  with RespSimple split_line_typed [of s "CHR ''+''" r] show ?case by simp
next
  case (RespInt n)
  then obtain k where "d = Suc k" by (cases d) auto
  with RespInt split_line_typed [of "show_nat n" "CHR '':''" r] show ?case
    by (simp add: show_nat_no_cr parse_usize_show_nat)
next
  case (RespBulk s)
  then obtain k where "d = Suc k" by (cases d) auto
  with RespBulk split_line_typed [of "show_nat (length s)" "CHR ''$''" "s @ CRLF @ r"] show ?case
    by (simp add: show_nat_no_cr show_nat_not_minus decode_bulk_def parse_usize_show_nat CRLF_def)
next
  case RespNil
  then obtain k where "d = Suc k" by (cases d) auto
  with split_line_typed [of "''-1''" "CHR ''$''" r] show ?case by simp
next
  case (RespArray vs)
  then obtain k where d: "d = Suc k" by (cases d) auto
  have "resp_decode k (resp_encode v @ q) = Some (v, q)" if "v \<in> set vs" for v q
    using that RespArray by (auto simp: d list_all_iff fold_max_le)
  then have "decode_many (resp_decode k) (length vs) (concat (map resp_encode vs) @ r) = Some (vs, r)"
    by (rule decode_many_concat)
  with d RespArray.prems split_line_typed [of "show_nat (length vs)" "CHR ''*''" "concat (map resp_encode vs) @ r"] show ?case
    by (simp add: show_nat_no_cr parse_usize_show_nat)
qed

section \<open>Replies\<close>

definition entry_value :: "stream_entry \<Rightarrow> resp_value" where
  "entry_value e =
     RespArray [RespBulk (se_id e), RespArray (concat (map (\<lambda>(k, v). [RespBulk k, RespBulk v]) (se_fields e)))]"

definition subscribe_values :: "(string, string list) hash_map \<Rightarrow> string list \<Rightarrow> resp_value list" where
  "subscribe_values pm topics =
     map (\<lambda>(i, topic). RespArray [RespBulk ''subscribe'', RespBulk topic, RespInt (i + 1)]) (zip [0..<length topics] topics) @
     concat (map (\<lambda>topic. case hm_get pm topic of
         None \<Rightarrow> []
       | Some ms \<Rightarrow> map (\<lambda>m. RespArray [RespBulk ''message'', RespBulk topic, RespBulk m]) ms) topics)"

text \<open>What a command answers, as values; a subscription answers with several.\<close>

fun reply_values :: "(string, string list) hash_map \<Rightarrow> command \<Rightarrow> stream_state \<Rightarrow> resp_value list" where
  "reply_values pm (Client args) st = [RespSimple ''OK'']"
| "reply_values pm (Publish topic payload) st = [RespInt 1]"
| "reply_values pm (Xadd topic flds) st = [RespBulk (fst (stream_push st topic flds))]"
| "reply_values pm (Xrange topic) st = [RespArray (map entry_value (stream_all st topic))]"
| "reply_values pm (Xread topic last_seen) st =
     (case stream_after st topic last_seen of
        [] \<Rightarrow> [RespNil]
      | es \<Rightarrow> [RespArray [RespArray [RespBulk topic, RespArray (map entry_value es)]]])"
| "reply_values pm (Subscribe topics) st = subscribe_values pm topics"
| "reply_values pm (Unknown name args) st = [RespSimple ''OK'']"

lemma show_nat_small:
  "show_nat (Suc 0) = ''1''" "show_nat (Suc (Suc 0)) = ''2''" "show_nat (Suc (Suc (Suc 0))) = ''3''"
  "show_nat (length ''message'') = ''7''" "show_nat (length ''subscribe'') = ''9''"
  by code_simp+

lemma encode_bulk: "resp_encode (RespBulk s) = encode_bulk_string s"
  by (simp add: encode_bulk_string_def)

lemma length_pairs_concat: "length (concat (map (\<lambda>(k, v). [f k, g v]) xs)) = length xs * 2"
  by (induction xs) auto

lemma encode_entry: "resp_encode (entry_value e) = encode_stream_entry e"
proof -
  have "concat (map resp_encode (concat (map (\<lambda>(k, v). [RespBulk k, RespBulk v]) fs))) =
      concat (map (\<lambda>(k, v). encode_bulk_string k @ encode_bulk_string v) fs)" for fs
    by (induction fs) (auto simp: encode_bulk simp del: resp_encode.simps(3))
  then show ?thesis
    by (simp add: entry_value_def encode_stream_entry_def encode_bulk length_pairs_concat show_nat_small
        del: resp_encode.simps(3))
qed

lemma encode_entries: "resp_encode (RespArray (map entry_value es)) = encode_stream_entries es"
  by (simp add: encode_stream_entries_def encode_entry comp_def)

lemma encode_confirmation:
  "resp_encode (RespArray [RespBulk ''subscribe'', RespBulk topic, RespInt n]) = encode_subscribe_confirmation topic n"
  using show_nat_small by (simp add: encode_subscribe_confirmation_def)

lemma encode_message:
  "resp_encode (RespArray [RespBulk ''message'', RespBulk topic, RespBulk m]) = encode_pubsub_message topic m"
  using show_nat_small by (simp add: encode_pubsub_message_def)

lemma encode_subscribe: "concat (map resp_encode (subscribe_values pm topics)) = subscribe_reply pm topics"
proof -
  have c: "map resp_encode (map (\<lambda>(i, topic). RespArray [RespBulk ''subscribe'', RespBulk topic, RespInt (i + 1)]) xs) =
      map (\<lambda>(i, topic). encode_subscribe_confirmation topic (i + 1)) xs" for xs
    by (induction xs) (simp_all add: encode_confirmation case_prod_unfold del: resp_encode.simps)
  have m: "concat (map resp_encode (map (\<lambda>m. RespArray [RespBulk ''message'', RespBulk topic, RespBulk m]) ms)) =
      concat (map (encode_pubsub_message topic) ms)" for topic ms
    by (induction ms) (simp_all add: encode_message del: resp_encode.simps)
  have "concat (map resp_encode (concat (map (\<lambda>topic. case hm_get pm topic of None \<Rightarrow> []
        | Some ms \<Rightarrow> map (\<lambda>m. RespArray [RespBulk ''message'', RespBulk topic, RespBulk m]) ms) ts))) =
      concat (map (\<lambda>topic. if topic \<in> set topics
        then (case hm_get pm topic of Some messages \<Rightarrow> concat (map (encode_pubsub_message topic) messages) | None \<Rightarrow> [])
        else []) ts)" if "set ts \<subseteq> set topics" for ts
    using that by (induction ts) (auto simp: m simp del: resp_encode.simps map_map split: option.splits)
  from this [of topics] show ?thesis
    unfolding subscribe_values_def subscribe_reply_def map_append concat_append c by simp
qed

text \<open>The reply of a command is the encoding of its values.\<close>

lemma execute_command_values:
  "fst (execute_command pm cmd st) = Inr (concat (map resp_encode (reply_values pm cmd st)))"
proof (cases cmd)
  case (Xread topic last_seen)
  then show ?thesis
    by (cases "stream_after st topic last_seen")
      (simp_all add: encode_xread_response_def encode_bulk encode_entries [symmetric] show_nat_small Let_def
        del: resp_encode.simps(3))
next
  case (Subscribe topics)
  then show ?thesis by (simp add: encode_subscribe)
next
  case (Xadd topic fs)
  then show ?thesis by (simp add: encode_bulk case_prod_unfold Let_def del: resp_encode.simps(3))
next
  case (Xrange topic)
  then show ?thesis by (simp add: encode_entries del: resp_encode.simps)
qed (simp_all add: show_nat_small)

lemma entry_depth: "resp_depth (entry_value e) \<le> 3"
  by (auto simp: entry_value_def fold_max_le)

lemmas entry_depth' = order_trans [OF entry_depth]

lemma reply_depth: "v \<in> set (reply_values pm cmd st) \<Longrightarrow> resp_depth v \<le> 6"
proof (cases cmd)
  case (Subscribe topics)
  assume "v \<in> set (reply_values pm cmd st)"
  with Subscribe obtain a b c where "v = RespArray [RespBulk a, RespBulk b, c]" "resp_depth c = 1"
    by (auto simp: subscribe_values_def split: option.splits)
  then show ?thesis by simp
qed (auto simp: fold_max_le split: list.splits intro!: entry_depth')

text \<open>The values that a sequence of commands answers.\<close>

fun values_all :: "(string, string list) hash_map \<Rightarrow> command list \<Rightarrow> stream_state \<Rightarrow> resp_value list" where
  "values_all pm [] st = []"
| "values_all pm (c # cs) st = reply_values pm c st @ values_all pm cs (snd (snd (execute_command pm c st)))"

lemma exec_all_values: "concat (fst (exec_all pm cs st)) = concat (map resp_encode (values_all pm cs st))"
proof (induction cs arbitrary: st)
  case (Cons c cs)
  then show ?case
    by (simp add: case_prod_unfold Let_def execute_command_values del: resp_encode.simps)
qed simp

lemma values_all_depth: "v \<in> set (values_all pm cs st) \<Longrightarrow> resp_depth v \<le> 6"
  by (induction cs arbitrary: st) (auto dest: reply_depth)

section \<open>Properties\<close>

text \<open>
  C21: A client can take the replies of the mock server apart: whatever commands a connection sends
  one after the other, the bytes it gets back are a sequence of protocol values and nothing else,
  namely the values that the commands answer, in order: the identifier of an added entry, all
  entries of a topic with their fields, those after an identifier or nil, a confirmation per
  topic and then the preloaded messages.
\<close>

theorem replies_decode:
  assumes "exec_all pm cs st = (rs, ms, st')" and "list_all resp_ok (values_all pm cs st)"
  shows "decode_many (resp_decode 6) (length (values_all pm cs st)) (concat rs) = Some (values_all pm cs st, [])"
proof -
  have "resp_decode 6 (resp_encode v @ r) = Some (v, r)" if "v \<in> set (values_all pm cs st)" for v r
    using that assms(2) values_all_depth by (intro resp_decode_encode) (auto simp: list_all_iff)
  from decode_many_concat [OF this, where r = "[]"] show ?thesis
    using exec_all_values [of pm cs st] by (simp add: assms(1))
qed

theorem replies_decode_witness:
  "decode_many (resp_decode 6) 3 (concat (fst (exec_all [] [Xadd ''t'' [(''k'', ''v'')], Xread ''t'' ''0'', Xread ''u'' ''$''] []))) =
     Some ([RespBulk ''1-0'',
       RespArray [RespArray [RespBulk ''t'', RespArray [RespArray [RespBulk ''1-0'', RespArray [RespBulk ''k'', RespBulk ''v'']]]]],
       RespNil], [])"
proof -
  let ?cs = "[Xadd ''t'' [(''k'', ''v'')], Xread ''t'' ''0'', Xread ''u'' ''$'']"
  have v: "values_all [] ?cs [] = [RespBulk ''1-0'',
      RespArray [RespArray [RespBulk ''t'', RespArray [RespArray [RespBulk ''1-0'', RespArray [RespBulk ''k'', RespBulk ''v'']]]]],
      RespNil]"
    by code_simp
  obtain rs ms st where e: "exec_all [] ?cs [] = (rs, ms, st)" by (metis prod_cases3)
  have "list_all resp_ok (values_all [] ?cs [])" unfolding v by simp
  from replies_decode [OF e this] show ?thesis
    unfolding v e by (simp add: numeral_3_eq_3 del: decode_many.simps)
qed

end
