(* ===== verification/Mock_Redis_Client.thy ===== *)
theory Mock_Redis_Client
  imports Resp_Replies Redis_Stream_Runtime
begin

text \<open>
  The crate's Redis Stream code against its own mock server: publisher, snapshot and polling loop
  of \<^verbatim>\<open>src/src/redis_impls/stream\<close> on one side, \<^verbatim>\<open>src/src/redis_impls/testing_utils/mod.rs\<close> on the
  other. Between them is the client library: how it writes commands and reads replies is a
  parameter, with what its documentation says as hypotheses.
\<close>

section \<open>The client library\<close>

text \<open>
  The bytes of the commands the crate issues, and the reading of a reply to \<open>XRANGE\<close> as a value
  and as entries.
\<close>

record ('o, 'e, 'p) redis_wire =
  w_xadd :: "xadd \<Rightarrow> bytes"
  w_xrange_all :: "string \<Rightarrow> bytes"
  w_xread :: "xread \<Rightarrow> bytes"
  w_value :: "bytes \<Rightarrow> 'e + 'o redis_value"
  w_range :: "'o redis_value \<Rightarrow> 'p + 'o stream_id list"
  w_read :: "bytes \<Rightarrow> 'e + (string \<times> 'o stream_id list) list"

fun maxlen_args :: "stream_maxlen \<Rightarrow> string list" where
  "maxlen_args (Approx n) = [''MAXLEN'', ''~'', show_nat n]"
| "maxlen_args (Equals n) = [''MAXLEN'', ''='', show_nat n]"

text \<open>The entry that the client makes of one of the server.\<close>

definition client_entry :: "stream_entry \<Rightarrow> 'o stream_id" where
  "client_entry e = entry_of_fields (se_id e) (map (\<lambda>(k, v). (k, into_bytes_str v)) (se_fields e))"

fun single_field :: "stream_entry \<Rightarrow> bool" where
  "single_field e = (length (se_fields e) = 1)"

definition entries_value :: "stream_entry list \<Rightarrow> resp_value" where
  "entries_value es = RespArray (map entry_value es)"

text \<open>
  As documented, commands are arrays of bulk strings with the arguments in the order of the
  command's syntax; the reply to \<open>XRANGE\<close> is a list of entries, the reply to \<open>XREAD\<close> is nil or a
  list of keys with their entries. A client keeps the fields of an entry in a hash map, so nothing
  is said of entries with several fields.
\<close>

definition wire_documented :: "('o, 'e, 'p) redis_wire \<Rightarrow> bool" where
  "wire_documented W \<longleftrightarrow>
     (\<forall>topic len k v. w_xadd W (XaddMaxlen topic len ''*'' [(k, into_bytes_str v)]) =
        into_bytes_str (resp_array ([''XADD'', topic] @ maxlen_args len @ [''*'', k, v]))) \<and>
     (\<forall>topic. w_xrange_all W topic = into_bytes_str (resp_array [''XRANGE'', topic, ''-'', ''+''])) \<and>
     (\<forall>ms topic i. w_xread W (xread.Xread ms topic i) =
        into_bytes_str (resp_array [''XREAD'', ''BLOCK'', show_nat ms, ''STREAMS'', topic, i])) \<and>
     (\<forall>es. list_all single_field es \<longrightarrow> resp_ok (entries_value es) \<longrightarrow>
        (\<exists>raw. w_value W (into_bytes_str (resp_encode (entries_value es))) = Inr raw \<and>
           w_range W raw = Inr (map client_entry es))) \<and>
     w_read W (into_bytes_str (resp_encode RespNil)) = Inr [] \<and>
     (\<forall>topic es. list_all single_field es \<longrightarrow> resp_ok (RespArray [RespArray [RespBulk topic, entries_value es]]) \<longrightarrow>
        w_read W (into_bytes_str (resp_encode (RespArray [RespArray [RespBulk topic, entries_value es]]))) =
          Inr [(topic, map client_entry es)])"

section \<open>What the server makes of the commands\<close>

lemma show_nat_plain: "show_nat n \<noteq> ''*''" "CHR ''-'' \<notin> set (show_nat n)"
  using show_nat_digits [of "CHR ''*''" n] show_nat_digits [of "CHR ''-''" n] by auto

lemma length_show_nat: "length (show_nat n) \<le> Suc (n div 10)"
proof (induction n rule: show_nat.induct)
  case (1 n)
  then show ?case by (subst show_nat.simps) auto
qed

lemma from_parts_xadd:
  "from_parts (to_uppercase u ''XADD'') ([topic] @ maxlen_args len @ [''*'', k, v]) = Xadd topic [(k, v)]"
  by (cases len)
    (simp_all add: to_uppercase_def ascii_upper_def from_parts_def xadd_fields_def Let_def show_nat_plain)

lemma from_parts_xrange: "from_parts (to_uppercase u ''XRANGE'') [topic, ''-'', ''+''] = Xrange topic"
  by (simp add: to_uppercase_def ascii_upper_def from_parts_def)

lemma show_nat_not_streams: "show_nat n \<noteq> ''STREAMS''"
  using show_nat_digits [of "CHR ''S''" n] by auto

lemma from_parts_xread:
  "from_parts (to_uppercase u ''XREAD'') [''BLOCK'', show_nat ms, ''STREAMS'', topic, i] = command.Xread topic i"
  by (simp add: to_uppercase_def ascii_upper_def from_parts_def show_nat_not_streams)


text \<open>Entries as the store numbers them.\<close>

definition numbered :: "nat \<Rightarrow> string list \<Rightarrow> stream_entry list" where
  "numbered n vs = map (\<lambda>(i, v). \<lparr>se_id = entry_id (n + i + 1), se_fields = [(''data'', v)]\<rparr>) (zip [0..<length vs] vs)"

lemma numbered_Cons:
  "numbered n (v # vs) = \<lparr>se_id = entry_id (n + 1), se_fields = [(''data'', v)]\<rparr> # numbered (Suc n) vs"
  by (rule nth_equalityI) (auto simp: numbered_def nth_Cons' simp del: upt_Suc)

lemma exec_xadds:
  "entries_of (snd (snd (exec_all pm (map (\<lambda>v. Xadd topic [(''data'', v)]) vs) st))) topic =
     entries_of st topic @ numbered (length (entries_of st topic)) vs"
proof (induction vs arbitrary: st)
  case (Cons v vs)
  from Cons [of "snd (stream_push st topic [(''data'', v)])"] show ?case
    by (simp add: Let_def case_prod_unfold entries_of_push numbered_Cons)
qed (simp add: numbered_def)

lemma exec_xadds_xrange:
  "last (fst (exec_all pm (map (\<lambda>v. Xadd topic [(''data'', v)]) vs @ [Xrange topic]) [])) =
     resp_encode (entries_value (numbered 0 vs))"
  using exec_xadds [of pm topic vs "[]"]
  by (simp add: exec_all_append Let_def case_prod_unfold stream_all_def entries_value_def encode_entries
      entries_of_def [of "[]"] del: resp_encode.simps)

lemma entry_id_ok: "n < 2 ^ 64 \<Longrightarrow> length (entry_id n) < 2 ^ 64"
  using length_show_nat [of n] by (simp add: entry_id_def)

lemma numbered_ok:
  assumes "n + length vs < 2 ^ 64" and "list_all (\<lambda>v. length v < 2 ^ 64) vs"
  shows "list_all resp_ok (map entry_value (numbered n vs))"
  using assms
proof (induction vs arbitrary: n)
  case (Cons v vs)
  then have "list_all resp_ok (map entry_value (numbered (Suc n) vs))" by simp
  moreover have "resp_ok (entry_value \<lparr>se_id = entry_id (n + 1), se_fields = [(''data'', v)]\<rparr>)"
    using Cons.prems entry_id_ok [of "n + 1"] by (simp add: entry_value_def)
  ultimately show ?case by (simp add: numbered_Cons)
qed (simp add: numbered_def)

lemma numbered_single: "list_all single_field (numbered n vs)"
  by (auto simp: numbered_def list_all_iff)

lemma length_numbered [simp]: "length (numbered n vs) = length vs"
  by (simp add: numbered_def)

section \<open>Publishing\<close>

text \<open>Publishing messages one after the other: the commands that are sent.\<close>

fun publish_all ::
  "('l, 'c, 'e) conn_env \<Rightarrow> ('c \<Rightarrow> xadd \<Rightarrow> 'e + unit) \<Rightarrow> ('m \<Rightarrow> byte_message) \<Rightarrow>
     stream_publisher \<Rightarrow> 'm list \<Rightarrow> 'c host_map \<Rightarrow> xadd list \<times> 'c host_map" where
  "publish_all E X into_bytes p [] m = ([], m)"
| "publish_all E X into_bytes p (msg # msgs) m =
     (let (r, m1, cmds) = stream_publish E X into_bytes p msg m;
          (cmds', m2) = publish_all E X into_bytes p msgs m1
      in (cmds @ cmds', m2))"

lemma publish_all_connected:
  "hm_get m (sp_host p) = Some conn \<Longrightarrow>
     publish_all E X into_bytes p msgs m =
       (map (\<lambda>msg. XaddMaxlen (sp_topic p) (sp_max_len p) ''*'' [(''data'', byte_value (into_bytes msg))]) msgs, m)"
  by (induction msgs) (simp_all add: stream_publish_def get_connection_eq_write get_connection_write_eq Let_def)

fun maxlen_of :: "stream_maxlen \<Rightarrow> nat" where
  "maxlen_of (Approx n) = n"
| "maxlen_of (Equals n) = n"

lemma maxlen_args_short:
  "maxlen_of len < 2 ^ 64 \<Longrightarrow> list_all (\<lambda>t. length t + 2 < 2 ^ 64) (maxlen_args len) \<and> length (maxlen_args len) = 3"
  using length_show_nat [of "maxlen_of len"] by (cases len) auto

lemma str_of_concat: "str_of_bytes (concat (map (\<lambda>x. into_bytes_str (f x)) xs)) = concat (map f xs)"
  by (induction xs) simp_all

text \<open>The bytes of the commands are those of the arrays the server parses.\<close>

lemma wire_commands:
  assumes "wire_documented W" and "length topic + 2 < 2 ^ 64" and "maxlen_of len < 2 ^ 64"
    and "list_all (\<lambda>v. length v + 2 < 2 ^ 64) vs"
  shows "parse_loop u (str_of_bytes (concat (map (\<lambda>v. w_xadd W (XaddMaxlen topic len ''*'' [(''data'', into_bytes_str v)])) vs) @
      w_xrange_all W topic)) [] = Ret (map (\<lambda>v. Xadd topic [(''data'', v)]) vs @ [Xrange topic], [])"
proof -
  let ?xadd = "\<lambda>v. [''XADD'', topic] @ maxlen_args len @ [''*'', ''data'', v]"
  let ?args = "map ?xadd vs @ [[''XRANGE'', topic, ''-'', ''+'']]"
  have "str_of_bytes (concat (map (\<lambda>v. w_xadd W (XaddMaxlen topic len ''*'' [(''data'', into_bytes_str v)])) vs) @
      w_xrange_all W topic) = concat (map resp_array ?args)"
    using assms(1) by (simp add: wire_documented_def str_of_concat comp_def)
  moreover have "list_all (\<lambda>ts. ts \<noteq> [] \<and> list_all (\<lambda>t. length t + 2 < 2 ^ 64) ts \<and> length ts * 24 \<le> 2 ^ 63 - 1) ?args"
    using assms(2,4) maxlen_args_short [OF assms(3)] by (simp add: list_all_iff)
  moreover have "map (\<lambda>ts. from_parts (to_uppercase u (hd ts)) (tl ts)) ?args =
      map (\<lambda>v. Xadd topic [(''data'', v)]) vs @ [Xrange topic]"
    using from_parts_xadd [of u topic len "''data''"] from_parts_xrange by simp
  ultimately show ?thesis by (simp only: parse_loop_arrays)
qed

text \<open>A connection of the server at its start.\<close>

definition conn_start :: "stream_state \<Rightarrow> conn_state" where
  "conn_start st = \<lparr>cs_pending = [], cs_store = st, cs_messages = [], cs_commands = [], cs_written = []\<rparr>"


text \<open>What the connection writes last.\<close>

lemma mock_answers:
  assumes "wire_documented W" and "length topic + 2 < 2 ^ 64" and "maxlen_of len < 2 ^ 64"
    and "list_all (\<lambda>v. length v + 2 < 2 ^ 64) vs"
    and "list_all valid_utf8 chunks" and "[] \<notin> set chunks"
    and "concat chunks = concat (map (\<lambda>v. w_xadd W (XaddMaxlen topic len ''*'' [(''data'', into_bytes_str v)])) vs) @
      w_xrange_all W topic"
  shows "\<exists>c. handle_connection V (map (\<lambda>bs. Readable (clean_read bs)) chunks) (conn_start []) = ConnWaiting c \<and>
    last (cs_written c) = resp_encode (entries_value (numbered 0 vs))"
proof -
  let ?cmds = "map (\<lambda>v. Xadd topic [(''data'', v)]) vs @ [Xrange topic]"
  obtain rs ms st where e: "exec_all (me_pubsub V) ?cmds [] = (rs, ms, st)" by (metis prod_cases3)
  have "parse_loop (me_upper V) (str_of_bytes (concat chunks)) [] = Ret (?cmds, [])"
    unfolding assms(7) by (rule wire_commands [OF assms(1-4)])
  from connection_refines_commands [OF assms(5,6) this e] exec_xadds_xrange [of "me_pubsub V" topic vs] show ?thesis
    by (simp add: conn_start_def e)
qed

section \<open>Snapshots\<close>

lemma snapshot_of_entries:
  assumes "hm_get m host = Some conn" and "xrange_all conn topic = Inr raw"
    and "range_reply raw = Inr (map client_entry (numbered n vs))"
    and "string_conversions L" and "list_all valid_str vs"
    and "list_all (\<lambda>v. tv (object_of_fields [(''data'', into_bytes_str v)]) = Inr (json v)) vs"
  shows "redis_snapshot_get E xrange_all range_reply L tv convert host topic m =
    (Inr (map (\<lambda>v. convert (byte_from_value (json v))) vs), m)"
proof -
  have "map (stream_entry_to_byte_message L tv) (map client_entry (numbered n vs)) =
      map Inr (map (\<lambda>v. byte_from_value (json v)) vs)"
    using assms(5,6)
  proof (induction vs arbitrary: n)
    case (Cons v vs)
    have "stream_entry_to_byte_message L tv (entry_of_fields (entry_id (n + 1)) [(''data'', into_bytes_str v)]) =
        Inr (byte_from_value (json v))"
      by (rule entry_of_fields_message [OF assms(4)]) (use Cons.prems in \<open>simp_all add: valid_str_def\<close>)
    with Cons show ?case by (simp add: numbered_Cons client_entry_def)
  qed (simp add: numbered_def)
  then have "collect_results (map (stream_entry_to_byte_message L tv) (map client_entry (numbered n vs))) =
      Inr (map (\<lambda>v. byte_from_value (json v)) vs)"
    by (simp only: collect_results_Inr_iff)
  with assms(1-3) show ?thesis
    by (simp add: redis_snapshot_get_def get_connection_eq_write get_connection_write_eq comp_def)
qed

section \<open>Polling\<close>

text \<open>
  The replies that the polling task gets from a connection of the mock server. Between two
  polls, others may have changed the store: the list has the store at each poll.
\<close>

fun mock_polls ::
  "('o, 'e, 'p) redis_wire \<Rightarrow> mock_env \<Rightarrow> string \<Rightarrow> string \<Rightarrow> conn_state \<Rightarrow> stream_state list \<Rightarrow> ('o, 'e) xread_event list" where
  "mock_polls W U topic i c [] = []"
| "mock_polls W U topic i c (st # sts) =
     (case handle_connection U [Readable (clean_read (w_xread W (xread.Xread READ_BLOCK_TIME_MS topic i)))] (c\<lparr>cs_store := st\<rparr>) of
        ConnWaiting c' \<Rightarrow>
          (case w_read W (into_bytes_str (last (cs_written c'))) of
             Inl e \<Rightarrow> [XError e]
           | Inr ks \<Rightarrow> XReply ks # mock_polls W U topic (last (i # map sid_id (concat (map snd ks)))) c' sts)
      | _ \<Rightarrow> [])"

text \<open>A store with few entries, of one field each, that can be sent.\<close>

definition small_store :: "string \<Rightarrow> stream_state \<Rightarrow> bool" where
  "small_store topic st \<longleftrightarrow> store_ok st \<and> length (entries_of st topic) \<le> 9 \<and>
     list_all (\<lambda>e. single_field e \<and> resp_ok (entry_value e)) (entries_of st topic)"

lemma valid_str_array: "list_all valid_str ts \<Longrightarrow> valid_str (resp_array ts)"
proof -
  assume ts: "list_all valid_str ts"
  have ascii: "valid_str ''*''" "valid_str ''$''" "valid_str CRLF" by (simp_all add: valid_str_ascii CRLF_def)
  have "valid_str (encode_bulk_string t)" if "valid_str t" for t
    unfolding encode_bulk_string_def using that ascii by (intro valid_str_append valid_str_show_nat)
  with ts have "valid_str (concat (map encode_bulk_string ts))"
    by (induction ts) (simp_all add: valid_str_append)
  with ascii show ?thesis
    unfolding resp_array_def by (intro valid_str_append valid_str_show_nat)
qed

lemma set_stream_after: "set (stream_after st topic i) \<subseteq> set (entries_of st topic)"
  by (auto simp: stream_after_def entries_of_def split: option.splits if_splits)

lemma length_stream_after: "length (stream_after st topic i) \<le> length (entries_of st topic)"
  by (auto simp: stream_after_def entries_of_def Suc_le_eq split: option.splits)

lemma connection_one_command:
  assumes "parse_loop (me_upper U) (str_of_bytes bs) [] = Ret ([cmd], [])"
    and "valid_utf8 bs" and "bs \<noteq> []" and "cs_pending c = []"
  shows "\<exists>c'. cs_pending c' = [] \<and> handle_connection U [Readable (clean_read bs)] c = ConnWaiting c' \<and>
    last (cs_written c') = concat (map resp_encode (reply_values (me_pubsub U) cmd (cs_store c)))"
proof -
  have "parse_loop (me_upper U) [] [] = Ret ([], [])"
    by (simp add: parse_loop.simps [of _ "[]"] parse_next_def split_line_def)
  then have "receive_all (me_upper U) (cs_pending c) [bs] = Ret ([cmd], [])"
    using receive_all_eq [of "[]" "me_upper U" "[bs]"] assms by (simp add: from_utf8_lossy_valid)
  moreover obtain ms st' where "execute_command (me_pubsub U) cmd (cs_store c) =
      (Inr (concat (map resp_encode (reply_values (me_pubsub U) cmd (cs_store c)))), ms, st')"
    using execute_command_values by (metis prod.collapse)
  ultimately show ?thesis
    using connection_runs [of U c "[bs]"] assms(3)
    by (simp del: receive_all.simps reply_values.simps handle_connection.simps)
qed

lemma mock_poll:
  assumes "wire_documented W" and "small_store topic st" and "cs_pending c = []"
    and "valid_str topic" and "length topic + 2 < 2 ^ 64" and "valid_str i" and "length i + 2 < 2 ^ 64"
  shows "\<exists>c'. cs_pending c' = [] \<and>
    handle_connection U [Readable (clean_read (w_xread W (xread.Xread READ_BLOCK_TIME_MS topic i)))] (c\<lparr>cs_store := st\<rparr>) =
      ConnWaiting c' \<and>
    w_read W (into_bytes_str (last (cs_written c'))) =
      Inr (if stream_after st topic i = [] then [] else [(topic, map client_entry (stream_after st topic i))])"
proof -
  let ?args = "[''XREAD'', ''BLOCK'', show_nat READ_BLOCK_TIME_MS, ''STREAMS'', topic, i]"
  let ?es = "stream_after st topic i"
  have w: "w_xread W (xread.Xread READ_BLOCK_TIME_MS topic i) = into_bytes_str (resp_array ?args)"
    using assms(1) by (simp add: wire_documented_def)
  have "length (show_nat READ_BLOCK_TIME_MS) + 2 < 2 ^ 64"
    using length_show_nat [of READ_BLOCK_TIME_MS] by (simp add: READ_BLOCK_TIME_MS_def)
  then have "parse_loop (me_upper U) (resp_array ?args) [] = Ret ([command.Xread topic i], [])"
    using parse_loop_arrays [of "[?args]" "me_upper U"] assms(5,7) from_parts_xread by simp
  moreover have "valid_str (resp_array ?args)"
    by (rule valid_str_array) (use assms(4,6) in \<open>simp add: valid_str_ascii\<close>)
  moreover have "into_bytes_str (resp_array ?args) \<noteq> []" by (simp add: resp_array_def into_bytes_str_def)
  ultimately obtain c' where c': "cs_pending c' = []"
    "handle_connection U [Readable (clean_read (w_xread W (xread.Xread READ_BLOCK_TIME_MS topic i)))]
      (c\<lparr>cs_store := st\<rparr>) = ConnWaiting c'"
    "last (cs_written c') = concat (map resp_encode (reply_values (me_pubsub U) (command.Xread topic i) st))"
    using connection_one_command [of U "into_bytes_str (resp_array ?args)" "command.Xread topic i" "c\<lparr>cs_store := st\<rparr>"] assms(3)
    by (auto simp: w valid_str_def simp del: handle_connection.simps reply_values.simps)
  have "list_all (\<lambda>e. single_field e \<and> resp_ok (entry_value e)) ?es" "length ?es \<le> 9"
    using assms(2) set_stream_after [of st topic i] length_stream_after [of st topic i]
    by (auto simp: small_store_def list_all_iff)
  then have "list_all single_field ?es" "resp_ok (RespArray [RespArray [RespBulk topic, entries_value ?es]])"
    using assms(5) by (auto simp: entries_value_def list_all_iff)
  with assms(1) have "w_read W (into_bytes_str (resp_encode (RespArray [RespArray [RespBulk topic, entries_value ?es]]))) =
      Inr [(topic, map client_entry ?es)]" "w_read W (into_bytes_str (resp_encode RespNil)) = Inr []"
    unfolding wire_documented_def by blast+
  with c' show ?thesis
    by (intro exI [of _ c']) (simp add: entries_value_def del: resp_encode.simps split: list.splits)
qed

lemma client_entry_ids: "sid_id \<circ> client_entry = se_id"
  by (rule ext) (simp add: client_entry_def entry_of_fields_def)

lemma mock_poll_received:
  assumes "wire_documented W" and "small_store topic st" and "cs_pending c = []"
    and "valid_str topic" and "length topic + 2 < 2 ^ 64" and "valid_str i" and "length i + 2 < 2 ^ 64"
  shows "\<exists>c'. cs_pending c' = [] \<and>
    received (mock_polls W U topic i c (st # sts)) = map client_entry (stream_after st topic i) @
      received (mock_polls W U topic (last (i # map se_id (stream_after st topic i))) c' sts)"
proof -
  from mock_poll [OF assms, where U = U] show ?thesis
    by (auto simp: client_entry_ids simp del: handle_connection.simps)
qed

lemma entry_id_sendable: "n \<le> 9 \<Longrightarrow> valid_str (entry_id n) \<and> length (entry_id n) + 2 < 2 ^ 64"
  using length_show_nat [of n] by (simp add: entry_id_def valid_str_append valid_str_ascii)

lemma last_entry_id:
  assumes "store_ok st" and "entries_of st topic \<noteq> []"
  shows "se_id (last (entries_of st topic)) = entry_id (length (entries_of st topic))"
  using store_ids [OF assms(1), of "length (entries_of st topic) - 1" topic] assms(2) by (simp add: last_conv_nth)

text \<open>From a known entry on, every poll brings what was added since.\<close>

lemma mock_polls_followed:
  assumes "wire_documented W" and "valid_str topic" and "length topic + 2 < 2 ^ 64"
    and "list_all (small_store topic) (st # sts)"
    and "sorted_wrt (\<lambda>a b. prefix (entries_of a topic) (entries_of b topic)) (st # sts)"
    and "cs_pending c = []" and "k = length (entries_of st topic)"
  shows "received (mock_polls W U topic (entry_id k) c sts) =
    map client_entry (drop k (entries_of (last (st # sts)) topic))"
  using assms(4-7)
proof (induction sts arbitrary: st c k)
  case (Cons s sts)
  let ?es = "entries_of s topic"
  have ok: "small_store topic s" "store_ok s" "length ?es \<le> 9" and p: "prefix (entries_of st topic) ?es"
    using Cons.prems by (auto simp: small_store_def)
  then have k: "k \<le> length ?es" "k \<le> 9" using Cons.prems(4) by (auto dest: prefix_length_le)
  have after: "stream_after s topic (entry_id k) = drop k ?es"
    using ok k by (intro stream_after_small)
  have "last (entry_id k # map se_id (drop k ?es)) = entry_id (length ?es)"
    using k last_entry_id [OF ok(2), of topic] by (cases "k = length ?es"; cases "?es = []") (auto simp: last_map)
  with mock_poll_received [OF assms(1) ok(1) Cons.prems(3) assms(2,3), of "entry_id k" U sts] entry_id_sendable [OF k(2)]
  obtain c' where c': "cs_pending c' = []" "received (mock_polls W U topic (entry_id k) c (s # sts)) =
      map client_entry (drop k ?es) @ received (mock_polls W U topic (entry_id (length ?es)) c' sts)"
    unfolding after by auto
  have "received (mock_polls W U topic (entry_id (length ?es)) c' sts) =
      map client_entry (drop (length ?es) (entries_of (last (s # sts)) topic))"
    using Cons.IH [OF _ _ c'(1) refl, of s] Cons.prems(1,2) by simp
  moreover have "prefix ?es (entries_of (last (s # sts)) topic)"
    using Cons.prems(2) by (cases sts) auto
  ultimately show ?case
    unfolding c'(2) using k by (auto simp: prefix_def)
qed simp

lemma stream_after_dollar:
  "stream_after st topic ''$'' = (if entries_of st topic = [] then [] else [last (entries_of st topic)])"
  by (auto simp: stream_after_def entries_of_def split: option.splits)

lemma dollar_sendable: "valid_str ''$'' \<and> length ''$'' + 2 < 2 ^ 64"
  by (simp add: valid_str_ascii)

lemma mock_polls_from_start:
  assumes "wire_documented W" and "valid_str topic" and "length topic + 2 < 2 ^ 64"
    and "list_all (small_store topic) (quiet @ st # sts)"
    and "sorted_wrt (\<lambda>a b. prefix (entries_of a topic) (entries_of b topic)) (st # sts)"
    and "list_all (\<lambda>s. entries_of s topic = []) quiet" and "entries_of st topic \<noteq> []" and "cs_pending c = []"
  shows "received (mock_polls W U topic ''$'' c (quiet @ st # sts)) =
    map client_entry (drop (length (entries_of st topic) - 1) (entries_of (last (st # sts)) topic))"
  using assms(4,6,8)
proof (induction quiet arbitrary: c)
  case Nil
  let ?es = "entries_of st topic"
  have ok: "small_store topic st" "store_ok st" using Nil by (auto simp: small_store_def)
  from mock_poll_received [OF assms(1) ok(1) Nil(3) assms(2,3), of "''$''" U sts] dollar_sendable
  obtain c' where c': "cs_pending c' = []" "received (mock_polls W U topic ''$'' c (st # sts)) =
      client_entry (last ?es) # received (mock_polls W U topic (entry_id (length ?es)) c' sts)"
    using assms(7) last_entry_id [OF ok(2) assms(7)] by (auto simp: stream_after_dollar)
  have "received (mock_polls W U topic (entry_id (length ?es)) c' sts) =
      map client_entry (drop (length ?es) (entries_of (last (st # sts)) topic))"
    by (rule mock_polls_followed [OF assms(1-3) _ assms(5) c'(1) refl]) (use Nil in simp)
  moreover have "prefix ?es (entries_of (last (st # sts)) topic)"
    using assms(5) by (cases sts) auto
  then obtain more where "entries_of (last (st # sts)) topic = ?es @ more" by (auto simp: prefix_def)
  moreover have "drop (length ?es - 1) (?es @ more) = last ?es # more"
    using assms(7) by (cases ?es rule: rev_cases) auto
  ultimately show ?case using c'(2) by simp
next
  case (Cons q quiet)
  from mock_poll_received [OF assms(1) _ Cons.prems(3) assms(2,3), of q "''$''" U "quiet @ st # sts"] dollar_sendable Cons.prems
  obtain c' where "cs_pending c' = []" "received (mock_polls W U topic ''$'' c (q # quiet @ st # sts)) =
      received (mock_polls W U topic ''$'' c' (quiet @ st # sts))"
    by (auto simp: stream_after_dollar)
  with Cons.IH [of c'] Cons.prems show ?case by simp
qed

section \<open>A client library\<close>

text \<open>A client library that does what is documented, so that the hypotheses can hold.\<close>

fun redis_of_resp :: "resp_value \<Rightarrow> unit redis_value" where
  "redis_of_resp (RespSimple s) = RSimpleString s"
| "redis_of_resp (RespBulk s) = RBulkString (into_bytes_str s)"
| "redis_of_resp (RespArray vs) = RArray (map redis_of_resp vs)"
| "redis_of_resp _ = ROther ()"

fun text_of_value :: "unit redis_value \<Rightarrow> string" where
  "text_of_value (RBulkString b) = str_of_bytes b"
| "text_of_value _ = []"

fun items_of_value :: "unit redis_value \<Rightarrow> unit redis_value list" where
  "items_of_value (RArray vs) = vs"
| "items_of_value _ = []"

definition entry_of_value :: "unit redis_value \<Rightarrow> unit stream_id" where
  "entry_of_value v =
     \<lparr>sid_id = text_of_value (items_of_value v ! 0),
      sid_map = map (\<lambda>(k, w). (text_of_value k, w)) (pairs (items_of_value (items_of_value v ! 1)))\<rparr>"

definition read_value :: "bytes \<Rightarrow> string + unit redis_value" where
  "read_value bs =
     (case resp_decode 6 (str_of_bytes bs) of
        Some (v, []) \<Rightarrow> Inr (redis_of_resp v)
      | _ \<Rightarrow> Inl ''unexpected reply'')"

fun example_xadd :: "xadd \<Rightarrow> bytes" where
  "example_xadd (XaddMaxlen topic len i fs) =
     into_bytes_str (resp_array ([''XADD'', topic] @ maxlen_args len @ [i] @ concat (map (\<lambda>(k, v). [k, str_of_bytes v]) fs)))"

fun example_xread :: "xread \<Rightarrow> bytes" where
  "example_xread (xread.Xread ms topic i) =
     into_bytes_str (resp_array [''XREAD'', ''BLOCK'', show_nat ms, ''STREAMS'', topic, i])"

definition example_wire :: "(unit, string, string) redis_wire" where
  "example_wire =
     \<lparr>w_xadd = example_xadd,
      w_xrange_all = (\<lambda>topic. into_bytes_str (resp_array [''XRANGE'', topic, ''-'', ''+''])),
      w_xread = example_xread,
      w_value = read_value,
      w_range = (\<lambda>v. Inr (map entry_of_value (items_of_value v))),
      w_read = (\<lambda>bs. map_sum id (\<lambda>v. map (\<lambda>kv. (text_of_value (items_of_value kv ! 0),
        map entry_of_value (items_of_value (items_of_value kv ! 1)))) (items_of_value v)) (read_value bs))\<rparr>"

lemma read_value_encode:
  "resp_ok v \<Longrightarrow> resp_depth v \<le> 6 \<Longrightarrow> read_value (into_bytes_str (resp_encode v)) = Inr (redis_of_resp v)"
  using resp_decode_encode [of v 6 "[]"] by (simp add: read_value_def del: resp_encode.simps resp_ok.simps)

lemma entry_of_client: "single_field e \<Longrightarrow> entry_of_value (redis_of_resp (entry_value e)) = client_entry e"
  by (auto simp: entry_of_value_def entry_value_def client_entry_def entry_of_fields_def length_Suc_conv)

lemma entries_of_client:
  "list_all single_field es \<Longrightarrow> map entry_of_value (items_of_value (redis_of_resp (entries_value es))) = map client_entry es"
  by (induction es) (simp_all add: entries_value_def entry_of_client del: single_field.simps)

lemma entries_depth: "resp_depth (entries_value es) \<le> 4"
  by (auto simp: entries_value_def fold_max_le intro: entry_depth')

lemma example_wire_documented: "wire_documented example_wire"
proof -
  have "resp_depth (RespArray [RespArray [RespBulk topic, entries_value es]]) \<le> 6" for topic es
    using entries_depth [of es] by (simp add: fold_max_le)
  moreover have "resp_depth (entries_value es) \<le> 6" for es
    using entries_depth [of es] by simp
  moreover have "resp_ok RespNil" "resp_depth RespNil \<le> 6" by simp_all
  ultimately show ?thesis
    unfolding wire_documented_def example_wire_def
    by (simp add: read_value_encode entries_of_client del: resp_encode.simps resp_ok.simps resp_depth.simps)
qed

section \<open>Properties\<close>

text \<open>
  C6: What is published to the mock server can be read back: when a publisher has sent its
  messages on one connection and a snapshot is then taken on it, the snapshot returns all of them,
  once each and in order, as the JSON of their payload, however the bytes of the commands are cut
  into reads on their way to the server, as long as no cut goes through a character. The client
  library in between is assumed to write the commands and to read the replies as documented, the
  payloads to be text.
\<close>

theorem mock_stream_roundtrip:
  assumes "wire_documented W" and "string_conversions L"
    and "hm_get m (sp_host p) = Some conn"
    and "publish_all E X into_bytes p msgs m = (cmds, m')"
    and "concat chunks = concat (map (w_xadd W) cmds) @ w_xrange_all W (sp_topic p)"
    and "list_all valid_utf8 chunks" and "[] \<notin> set chunks"
    and "length (sp_topic p) + 2 < 2 ^ 64" and "maxlen_of (sp_max_len p) < 2 ^ 64" and "length msgs < 2 ^ 64"
    and "list_all (\<lambda>msg. valid_utf8 (byte_value (into_bytes msg)) \<and> length (byte_value (into_bytes msg)) + 2 < 2 ^ 64 \<and>
      tv (object_of_fields [(''data'', byte_value (into_bytes msg))]) = Inr (json (byte_value (into_bytes msg)))) msgs"
  shows "\<exists>c. handle_connection V (map (\<lambda>bs. Readable (clean_read bs)) chunks) (conn_start []) = ConnWaiting c \<and>
    redis_snapshot_get E (\<lambda>_ _. w_value W (into_bytes_str (last (cs_written c)))) (w_range W) L tv convert
      (sp_host p) (sp_topic p) m' =
    (Inr (map (\<lambda>msg. convert (byte_from_value (json (byte_value (into_bytes msg))))) msgs), m)"
proof -
  let ?vs = "map (\<lambda>msg. str_of_bytes (byte_value (into_bytes msg))) msgs"
  have cmds: "cmds = map (\<lambda>v. XaddMaxlen (sp_topic p) (sp_max_len p) ''*'' [(''data'', into_bytes_str v)]) ?vs" "m' = m"
    using assms(4) publish_all_connected [OF assms(3), of E X into_bytes msgs] by (simp_all add: comp_def)
  have len: "list_all (\<lambda>v. length v + 2 < 2 ^ 64) ?vs" "list_all (\<lambda>v. length v < 2 ^ 64) ?vs"
    using assms(11) by (auto simp: list_all_iff str_of_bytes_def)
  have "concat chunks = concat (map (\<lambda>v. w_xadd W (XaddMaxlen (sp_topic p) (sp_max_len p) ''*'' [(''data'', into_bytes_str v)])) ?vs) @
      w_xrange_all W (sp_topic p)"
    unfolding assms(5) cmds by (simp add: comp_def)
  from mock_answers [OF assms(1,8,9) len(1) assms(6,7) this] obtain c
    where c: "handle_connection V (map (\<lambda>bs. Readable (clean_read bs)) chunks) (conn_start []) = ConnWaiting c"
      "last (cs_written c) = resp_encode (entries_value (numbered 0 ?vs))" by blast
  have "resp_ok (entries_value (numbered 0 ?vs))"
    using numbered_ok [of 0 ?vs] len(2) assms(10) by (simp add: entries_value_def)
  with assms(1) numbered_single obtain raw
    where raw: "w_value W (into_bytes_str (last (cs_written c))) = Inr raw"
      "w_range W raw = Inr (map client_entry (numbered 0 ?vs))"
    unfolding wire_documented_def c(2) by blast
  have "redis_snapshot_get E (\<lambda>_ _. w_value W (into_bytes_str (last (cs_written c)))) (w_range W) L tv convert
      (sp_host p) (sp_topic p) m =
    (Inr (map (\<lambda>v. convert (byte_from_value (json (into_bytes_str v)))) ?vs), m)"
    by (rule snapshot_of_entries [where raw = raw and n = 0 and conn = conn])
      (use assms(2,3,11) raw in \<open>auto simp: list_all_iff valid_str_def\<close>)
  with c(1) show ?thesis by (simp add: cmds(2) comp_def)
qed


text \<open>Two texts published with exact trimming, and the bytes sent for them and for the snapshot.\<close>

fun example_string :: "unit redis_value \<Rightarrow> string + string" where
  "example_string (RSimpleString s) = Inr s"
| "example_string (RBulkString b) = Inr (str_of_bytes b)"
| "example_string _ = Inl ''no string''"

fun example_json :: "json \<Rightarrow> string + bytes" where
  "example_json (JString s) = Inr (into_bytes_str s)"
| "example_json (JObject m) = (case fmlookup m ''data'' of Some (JString s) \<Rightarrow> Inr (into_bytes_str s) | _ \<Rightarrow> Inr [])"
| "example_json _ = Inr []"

definition example_lib :: "(unit, string) redis_lib" where
  "example_lib = \<lparr>from_redis_value = example_string, parsing_error = id, parsing_error_debug = id\<rparr>"

definition example_conn :: "(string, unit, string) conn_env" where
  "example_conn = \<lparr>client_open = (\<lambda>h. Inr h), connect = (\<lambda>_. Inr ()), redis_error_debug = id\<rparr>"

definition example_publisher :: stream_publisher where
  "example_publisher = \<lparr>sp_host = ''h'', sp_max_len = Equals 9, sp_topic = ''t''\<rparr>"

definition example_published :: "xadd list \<times> unit host_map" where
  "example_published = publish_all example_conn (\<lambda>_ _. Inr ()) string_into_bytes example_publisher
     [string_from_value ''a'', string_from_value ''bc''] [(''h'', ())]"

definition example_sent :: bytes where
  "example_sent = concat (map (w_xadd example_wire) (fst example_published)) @ w_xrange_all example_wire ''t''"

definition example_text :: string where
  "example_text =
     resp_array [''XADD'', ''t'', ''MAXLEN'', ''='', ''9'', ''*'', ''data'', ''a''] @
     resp_array [''XADD'', ''t'', ''MAXLEN'', ''='', ''9'', ''*'', ''data'', ''bc''] @
     resp_array [''XRANGE'', ''t'', ''-'', ''+'']"

lemma example_sent_text: "example_sent = into_bytes_str example_text"
proof -
  have "hm_get [(''h'', ())] (sp_host example_publisher) = Some ()" by (simp add: example_publisher_def hm_get_def)
  then have "fst example_published = map (\<lambda>v. XaddMaxlen ''t'' (Equals 9) ''*'' [(''data'', into_bytes_str v)]) [''a'', ''bc'']"
    by (simp add: example_published_def publish_all_connected string_defs byte_value_def del: publish_all.simps)
      (simp add: example_publisher_def)
  moreover have "show_nat 9 = ''9''" by code_simp
  ultimately show ?thesis by (simp add: example_sent_def example_wire_def example_text_def)
qed

lemma example_text_ascii: "list_all (\<lambda>c. of_char c < (128 :: nat)) example_text"
proof -
  have "list_all (\<lambda>c. of_char c < (128 :: nat)) (show_nat n)" for n
    using show_nat_digits [of _ n] by (fastforce simp: list_all_iff)
  then show ?thesis
    by (simp add: example_text_def resp_array_def encode_bulk_string_def CRLF_def)
qed

lemma example_chunks:
  "list_all valid_utf8 [take 20 example_sent, drop 20 example_sent]"
  "[] \<notin> set [take 20 example_sent, drop 20 example_sent]"
proof -
  have "valid_str (take 20 example_text)" "valid_str (drop 20 example_text)"
    using example_text_ascii list_all_append [of _ "take 20 example_text" "drop 20 example_text"]
    unfolding append_take_drop_id by (blast intro: valid_str_ascii)+
  then show "list_all valid_utf8 [take 20 example_sent, drop 20 example_sent]"
    by (simp add: valid_str_def example_sent_text into_bytes_str_def take_map drop_map)
  have "20 < length example_text"
    by (simp add: example_text_def resp_array_def encode_bulk_string_def CRLF_def)
  then show "[] \<notin> set [take 20 example_sent, drop 20 example_sent]"
    by (auto simp: example_sent_text into_bytes_str_def)
qed

theorem mock_stream_roundtrip_witness:
  "\<exists>c. handle_connection \<lparr>me_upper = id, me_debug = id, me_pubsub = []\<rparr>
        (map (\<lambda>bs. Readable (clean_read bs)) [take 20 example_sent, drop 20 example_sent]) (conn_start []) = ConnWaiting c \<and>
    redis_snapshot_get example_conn (\<lambda>_ _. w_value example_wire (into_bytes_str (last (cs_written c))))
      (w_range example_wire) example_lib example_json string_from ''h'' ''t'' [(''h'', ())] =
    (Inr [string_from_value ''a'', string_from_value ''bc''], [(''h'', ())])"
proof -
  let ?msgs = "[string_from_value ''a'', string_from_value ''bc'']"
  have L: "string_conversions example_lib" by (simp add: string_conversions_def example_lib_def)
  have p: "sp_host example_publisher = ''h''" "sp_topic example_publisher = ''t''" "sp_max_len example_publisher = Equals 9"
    by (simp_all add: example_publisher_def)
  have m: "hm_get [(''h'', ())] (sp_host example_publisher) = Some ()" by (simp add: p hm_get_def)
  have pub: "publish_all example_conn (\<lambda>_ _. Inr ()) string_into_bytes example_publisher ?msgs [(''h'', ())] =
      (fst example_published, [(''h'', ())])"
    unfolding example_published_def publish_all_connected [OF m] by simp
  note u = example_chunks(1) and ne = example_chunks(2)
  have c: "concat [take 20 example_sent, drop 20 example_sent] =
      concat (map (w_xadd example_wire) (fst example_published)) @ w_xrange_all example_wire (sp_topic example_publisher)"
    unfolding example_sent_def [symmetric] p by simp
  have ok: "list_all (\<lambda>msg. valid_utf8 (byte_value (string_into_bytes msg)) \<and> length (byte_value (string_into_bytes msg)) + 2 < 2 ^ 64 \<and>
      example_json (object_of_fields [(''data'', byte_value (string_into_bytes msg))]) = Inr (byte_value (string_into_bytes msg))) ?msgs"
    by (simp add: string_defs byte_value_def object_of_fields_def valid_str_def [symmetric] valid_str_ascii)
  from mock_stream_roundtrip [OF example_wire_documented L m pub c u ne _ _ _ ok,
      of "\<lparr>me_upper = id, me_debug = id, me_pubsub = []\<rparr>" string_from]
  show ?thesis
    by (simp add: p string_defs byte_defs valid_str_ascii)
qed

text \<open>
  C20: The polling task works against the mock server while a topic has at most nine entries: it
  receives nothing until the topic has an entry, then the newest one, and from there on every
  entry that is added, once each and in order, however the additions fall between the polls. The
  server takes \<open>$\<close> for the last entry itself, so that entry may be older than the task.
\<close>

theorem redis_stream_on_mock:
  assumes "wire_documented W" and "valid_str topic" and "length topic + 2 < 2 ^ 64"
    and "list_all (small_store topic) (quiet @ st # sts)"
    and "sorted_wrt (\<lambda>a b. prefix (entries_of a topic) (entries_of b topic)) (st # sts)"
    and "list_all (\<lambda>s. entries_of s topic = []) quiet" and "entries_of st topic \<noteq> []" and "cs_pending c = []"
  shows "sends (fst (snd (monitor_stream V topic (mock_polls W U topic ''$'' c (quiet @ st # sts))))) =
    List.map_filter (entry_message V)
      (map client_entry (drop (length (entries_of st topic) - 1) (entries_of (last (st # sts)) topic)))"
  unfolding monitor_stream_def monitor_loop_sends mock_polls_from_start [OF assms] ..

text \<open>A store of the topic \<open>t\<close> with the given texts.\<close>

definition example_store :: "string list \<Rightarrow> stream_state" where
  "example_store vs = snd (snd (exec_all [] (map (\<lambda>v. Xadd ''t'' [(''data'', v)]) vs) []))"

lemma entries_of_example: "entries_of (example_store vs) ''t'' = numbered 0 vs"
  using exec_xadds [of "[]" "''t''" vs "[]"] by (simp add: example_store_def entries_of_def [of "[]"])

lemma small_example: "length vs \<le> 9 \<Longrightarrow> list_all (\<lambda>v. length v < 2 ^ 64) vs \<Longrightarrow> small_store ''t'' (example_store vs)"
  using exec_all_store_ok [OF store_ok_Nil, of "[]" "map (\<lambda>v. Xadd ''t'' [(''data'', v)]) vs"] numbered_ok [of 0 vs]
    numbered_single [of 0 vs]
  by (auto simp: small_store_def entries_of_example list_all_iff) (simp add: example_store_def)

theorem redis_stream_on_mock_witness:
  "sends (fst (snd (monitor_stream \<lparr>entry_lib = example_lib, entry_to_vec = example_json, entry_debug = sid_id\<rparr> ''t''
      (mock_polls example_wire \<lparr>me_upper = id, me_debug = id, me_pubsub = []\<rparr> ''t'' ''$'' (conn_start [])
        ([example_store []] @ example_store [''a'', ''b''] # [example_store [''a'', ''b''], example_store [''a'', ''b'', ''c'', ''d'']]))))) =
    map string_into_bytes (map string_from_value [''b'', ''c'', ''d''])"
proof -
  let ?quiet = "[example_store []]" and ?st = "example_store [''a'', ''b'']"
    and ?sts = "[example_store [''a'', ''b''], example_store [''a'', ''b'', ''c'', ''d'']]"
  have small: "list_all (small_store ''t'') (?quiet @ ?st # ?sts)" by (simp add: small_example)
  have grow: "sorted_wrt (\<lambda>a b. prefix (entries_of a ''t'') (entries_of b ''t'')) (?st # ?sts)"
    by (simp add: entries_of_example numbered_def)
  have "list_all (\<lambda>s. entries_of s ''t'' = []) ?quiet" "entries_of ?st ''t'' \<noteq> []" "cs_pending (conn_start []) = []"
    "valid_str ''t''" "length ''t'' + 2 < 2 ^ 64"
    by (simp_all add: entries_of_example numbered_def conn_start_def valid_str_ascii)
  note sends = redis_stream_on_mock [OF example_wire_documented this(4,5) small grow this(1-3)]
  have "entry_message \<lparr>entry_lib = example_lib, entry_to_vec = example_json, entry_debug = sid_id\<rparr>
      (entry_of_fields i [(''data'', into_bytes_str v)]) = Some (string_into_bytes (string_from_value v))"
    if "valid_str v" for i v
    using entry_of_fields_message [of example_lib "[(''data'', into_bytes_str v)]" example_json "into_bytes_str v" i] that
    by (simp add: entry_message_def valid_str_def string_conversions_def example_lib_def object_of_fields_def
        string_defs byte_defs)
  then show ?thesis
    unfolding sends
    by (simp add: entries_of_example numbered_def List.map_filter_def client_entry_def valid_str_ascii)
qed

end
