(* ===== verification/Mock_Redis_Pubsub.thy ===== *)
theory Mock_Redis_Pubsub
  imports Mock_Redis_Client Redis_Pubsub
begin

text \<open>
  The Redis pub/sub task of \<^verbatim>\<open>src/src/redis_impls/pubsub/runtime/mod.rs\<close> against the mock server of
  \<^verbatim>\<open>src/src/redis_impls/testing_utils/mod.rs\<close> with preloaded messages, as the tests of the crate use
  it. The client library's part of a subscription is a parameter, like in \<open>Mock_Redis_Client\<close>.
\<close>

section \<open>The client library\<close>

text \<open>
  The bytes of a subscription, and the payloads of the messages that the bytes received on a
  subscribed connection carry; there are none as long as the subscription is not confirmed.
\<close>

record ('o, 'p) subscribe_wire =
  w_subscribe :: "string \<Rightarrow> bytes"
  w_messages :: "bytes \<Rightarrow> ('p + 'o redis_value) list option"

definition confirmation :: "string \<Rightarrow> resp_value" where
  "confirmation topic = RespArray [RespBulk ''subscribe'', RespBulk topic, RespInt 1]"

definition pushed :: "string \<Rightarrow> string \<Rightarrow> resp_value" where
  "pushed topic m = RespArray [RespBulk ''message'', RespBulk topic, RespBulk m]"

definition subscribe_documented :: "('o, 'p) subscribe_wire \<Rightarrow> bool" where
  "subscribe_documented W \<longleftrightarrow>
     (\<forall>topic. w_subscribe W topic = into_bytes_str (resp_array [''SUBSCRIBE'', topic])) \<and>
     (\<forall>topic ms. list_all resp_ok (confirmation topic # map (pushed topic) ms) \<longrightarrow>
        w_messages W (into_bytes_str (concat (map resp_encode (confirmation topic # map (pushed topic) ms)))) =
          Some (map (\<lambda>m. Inr (RBulkString (into_bytes_str m))) ms))"

section \<open>One subscription\<close>

lemma from_parts_subscribe: "from_parts (to_uppercase u ''SUBSCRIBE'') [topic] = Subscribe [topic]"
  by (simp add: to_uppercase_def ascii_upper_def from_parts_def)

lemma mock_subscription:
  assumes "subscribe_documented W" and "hm_get (me_pubsub U) topic = Some ms" and "cs_pending c = []"
    and "valid_str topic" and "length topic + 2 < 2 ^ 64" and "list_all (\<lambda>m. length m < 2 ^ 64) ms"
  shows "\<exists>c'. handle_connection U [Readable (clean_read (w_subscribe W topic))] c = ConnWaiting c' \<and>
    w_messages W (into_bytes_str (last (cs_written c'))) = Some (map (\<lambda>m. Inr (RBulkString (into_bytes_str m))) ms)"
proof -
  let ?args = "[''SUBSCRIBE'', topic]"
  have "parse_loop (me_upper U) (resp_array ?args) [] = Ret ([Subscribe [topic]], [])"
    using parse_loop_arrays [of "[?args]" "me_upper U"] assms(5) from_parts_subscribe by simp
  moreover have "valid_str (resp_array ?args)"
    by (rule valid_str_array) (use assms(4) in \<open>simp add: valid_str_ascii\<close>)
  moreover have "into_bytes_str (resp_array ?args) \<noteq> []" by (simp add: resp_array_def into_bytes_str_def)
  ultimately obtain c' where c': "handle_connection U [Readable (clean_read (into_bytes_str (resp_array ?args)))] c = ConnWaiting c'"
    "last (cs_written c') = concat (map resp_encode (reply_values (me_pubsub U) (Subscribe [topic]) (cs_store c)))"
    using connection_one_command [of U "into_bytes_str (resp_array ?args)" "Subscribe [topic]" c] assms(3)
    by (auto simp: valid_str_def simp del: handle_connection.simps reply_values.simps)
  have v: "reply_values (me_pubsub U) (Subscribe [topic]) (cs_store c) = confirmation topic # map (pushed topic) ms"
    using assms(2) by (simp add: subscribe_values_def confirmation_def pushed_def)
  have "list_all resp_ok (confirmation topic # map (pushed topic) ms)"
    using assms(5,6) by (auto simp: confirmation_def pushed_def list_all_iff)
  with assms(1) c' show ?thesis
    unfolding subscribe_documented_def v by metis
qed

section \<open>The task\<close>

lemma drain_incoming:
  "drain_messages L (map Incoming ps @ evs) =
     (concat (map (drain_payload L) ps) @ fst (drain_messages L evs), snd (drain_messages L evs))"
  by (induction ps) (simp_all del: drain_messages.simps(1-3))

lemma sends_bulk:
  "sends (concat (map (drain_payload L) (map (\<lambda>m. Inr (RBulkString (into_bytes_str m))) ms))) =
     map (\<lambda>m. byte_from_value (into_bytes_str m)) ms"
  by (induction ms) (simp_all add: drain_payload_def)

text \<open>Attempts that connect, receive the messages and then lose the connection.\<close>

definition served :: "('l, 'c, 'e, 'o, 'p) ps_try \<Rightarrow> string \<Rightarrow> string \<Rightarrow> string list \<Rightarrow> bool" where
  "served a host topic ms \<longleftrightarrow> (\<exists>pubsub. connect_and_subscribe a host topic = Inr pubsub) \<and>
     ps_events a = map (\<lambda>m. Incoming (Inr (RBulkString (into_bytes_str m)))) ms @ [drain_event.Closed]"

lemma served_attempt:
  assumes "served a host topic ms" and "outage_inv st"
  shows "\<exists>es st'. ps_attempt L R host topic st (PsAttempt a) = (es, Continue st') \<and> outage_inv st' \<and>
    sends es = map (\<lambda>m. byte_from_value (into_bytes_str m)) ms"
proof -
  let ?ps = "map (\<lambda>m. Inr (RBulkString (into_bytes_str m))) ms"
  have e: "ps_events a = map Incoming ?ps @ [drain_event.Closed]"
    using assms(1) by (simp add: served_def comp_def)
  obtain pubsub where c: "connect_and_subscribe a host topic = Inr pubsub" using assms(1) by (auto simp: served_def)
  obtain es st' d where f: "ps_fail R (re_io R ''Redis pub/sub connection closed unexpectedly'' host)
      ''Redis pub/sub connection drop'' outage_default = (es, Continue st')" "outage_inv st'" "sends es = []"
    by (rule ps_fail_cases [OF outage_inv_default])
  then show ?thesis
    by (auto simp: c e drain_incoming on_recovery_eq sends_bulk Let_def simp del: map_map split: prod.splits)
qed

lemma served_loop:
  assumes "list_all (\<lambda>a. served a host topic ms) as" and "outage_inv st"
  shows "sends (fst (ps_loop L R host topic st (map PsAttempt as))) =
    concat (replicate (length as) (map (\<lambda>m. byte_from_value (into_bytes_str m)) ms))"
  using assms
proof (induction as arbitrary: st)
  case (Cons a as)
  then have a: "served a host topic ms" by simp
  from served_attempt [OF a Cons.prems(2), of L R] Cons show ?case
    by (auto simp del: ps_attempt.simps)
qed simp

section \<open>A client library\<close>

text \<open>Reading values until the input is used up; the number bounds how many.\<close>

fun decode_all :: "nat \<Rightarrow> string \<Rightarrow> resp_value list option" where
  "decode_all n [] = Some []"
| "decode_all 0 (c # s) = None"
| "decode_all (Suc n) (c # s) =
     (case resp_decode 6 (c # s) of
        None \<Rightarrow> None
      | Some (v, r) \<Rightarrow> map_option ((#) v) (decode_all n r))"

fun payload_of_value :: "resp_value \<Rightarrow> string + unit redis_value" where
  "payload_of_value (RespArray [RespBulk k, RespBulk topic, RespBulk m]) = Inr (RBulkString (into_bytes_str m))"
| "payload_of_value _ = Inl ''no message''"

definition example_messages :: "bytes \<Rightarrow> (string + unit redis_value) list option" where
  "example_messages bs =
     (case decode_all (length bs) (str_of_bytes bs) of
        Some (v # vs) \<Rightarrow> Some (map payload_of_value vs)
      | _ \<Rightarrow> None)"

definition example_subscribe :: "(unit, string) subscribe_wire" where
  "example_subscribe =
     \<lparr>w_subscribe = (\<lambda>topic. into_bytes_str (resp_array [''SUBSCRIBE'', topic])), w_messages = example_messages\<rparr>"

lemma resp_encode_nonempty: "resp_encode v \<noteq> []"
  by (cases v) simp_all

lemma decode_all_encode:
  "list_all (\<lambda>v. resp_ok v \<and> resp_depth v \<le> 6) vs \<Longrightarrow> length vs \<le> n \<Longrightarrow>
     decode_all n (concat (map resp_encode vs)) = Some vs"
proof (induction vs arbitrary: n)
  case (Cons v vs)
  obtain k where n: "n = Suc k" using Cons.prems(2) by (cases n) auto
  obtain c s where s: "resp_encode v @ concat (map resp_encode vs) = c # s"
    using resp_encode_nonempty [of v] by (cases "resp_encode v @ concat (map resp_encode vs)") auto
  have "resp_decode 6 (c # s) = Some (v, concat (map resp_encode vs))"
    unfolding s [symmetric] by (rule resp_decode_encode) (use Cons.prems in auto)
  with Cons show ?case by (simp add: n s del: resp_decode.simps resp_encode.simps)
qed simp

lemma length_encoded: "length vs \<le> length (concat (map resp_encode vs))"
proof (induction vs)
  case (Cons v vs)
  have "0 < length (resp_encode v)" using resp_encode_nonempty [of v] by simp
  moreover have "length (concat (map resp_encode (v # vs))) = length (resp_encode v) + length (concat (map resp_encode vs))"
    by (simp del: resp_encode.simps)
  ultimately show ?case using Cons by (simp only: list.size)
qed simp

lemma example_subscribe_documented: "subscribe_documented example_subscribe"
proof -
  have "example_messages (into_bytes_str (concat (map resp_encode (confirmation topic # map (pushed topic) ms)))) =
      Some (map (\<lambda>m. Inr (RBulkString (into_bytes_str m))) ms)"
    if "list_all resp_ok (confirmation topic # map (pushed topic) ms)" for topic ms
  proof -
    let ?vs = "confirmation topic # map (pushed topic) ms"
    have "list_all (\<lambda>v. resp_ok v \<and> resp_depth v \<le> 6) ?vs"
      using that by (auto simp: list_all_iff confirmation_def pushed_def)
    from decode_all_encode [OF this length_encoded] show ?thesis
      by (simp add: example_messages_def pushed_def comp_def del: decode_all.simps resp_encode.simps list.map concat.simps)
  qed
  then show ?thesis
    unfolding subscribe_documented_def by (simp add: example_subscribe_def del: list.map concat.simps)
qed

section \<open>Properties\<close>

text \<open>
  C26: A pub/sub subscriber gets what the mock server was loaded with: on every connection the server
  confirms the subscription and sends the messages of the topic, the task forwards them, and the
  subscriber reads the texts they were, in order. Each connection starts over, so after a
  connection is lost all of them come again.
\<close>

theorem redis_pubsub_on_mock:
  assumes "subscribe_documented W" and "hm_get (me_pubsub U) topic = Some ms" and "cs_pending c = []"
    and "valid_str topic" and "length topic + 2 < 2 ^ 64" and "list_all (\<lambda>m. valid_str m \<and> length m < 2 ^ 64) ms"
    and "handle_connection U [Readable (clean_read (w_subscribe W topic))] c = ConnWaiting c'"
    and "w_messages W (into_bytes_str (last (cs_written c'))) = Some ps"
    and "list_all (\<lambda>a. (\<exists>pubsub. connect_and_subscribe a host topic = Inr pubsub) \<and> ps_events a = map Incoming ps @ [drain_event.Closed]) as"
  shows "map string_from (sends (fst (ps_start_stream L R host topic (map PsAttempt as)))) =
    concat (replicate (length as) (map string_from_value ms))"
proof -
  have "list_all (\<lambda>m. length m < 2 ^ 64) ms" using assms(6) by (simp add: list_all_iff)
  from mock_subscription [OF assms(1-5) this] assms(7,8)
  have ps: "ps = map (\<lambda>m. Inr (RBulkString (into_bytes_str m))) ms" by auto
  have "list_all (\<lambda>a. served a host topic ms) as"
    using assms(9) by (simp add: ps served_def comp_def)
  note sends = served_loop [OF this outage_inv_default, of L R]
  have "map string_from (map (\<lambda>m. byte_from_value (into_bytes_str m)) ms) = map string_from_value ms"
    using assms(6) by (induction ms) (simp_all add: string_defs byte_defs)
  then show ?thesis
    unfolding ps_start_stream_def sends by (simp add: map_concat map_replicate del: map_map)
qed

theorem redis_pubsub_on_mock_witness:
  "\<exists>c' ps. handle_connection \<lparr>me_upper = id, me_debug = id, me_pubsub = [(''t'', [''first'', ''second''])]\<rparr>
      [Readable (clean_read (w_subscribe example_subscribe ''t''))] (conn_start []) = ConnWaiting c' \<and>
    w_messages example_subscribe (into_bytes_str (last (cs_written c'))) = Some ps \<and>
    map string_from (sends (fst (ps_start_stream example_lib
      (\<lparr>re_kind = id, re_debug = id, re_io = (\<lambda>a b. a)\<rparr> :: (string, string) redis_errors) ''h'' ''t''
      (map PsAttempt (replicate 2 \<lparr>ps_open = (\<lambda>h. Inr ()), ps_get_async_pubsub = (\<lambda>_. Inr ()), ps_subscribe = (\<lambda>_ _. Inr ()),
        ps_events = map Incoming ps @ [drain_event.Closed]\<rparr>))))) =
    map string_from_value [''first'', ''second'', ''first'', ''second'']"
proof -
  let ?U = "\<lparr>me_upper = id, me_debug = id, me_pubsub = [(''t'', [''first'', ''second''])]\<rparr>"
  have t: "hm_get (me_pubsub ?U) ''t'' = Some [''first'', ''second'']" "cs_pending (conn_start []) = []" "valid_str ''t''"
    "length ''t'' + 2 < 2 ^ 64" "list_all (\<lambda>m. length m < 2 ^ 64) [''first'', ''second'']"
    by (simp_all add: hm_get_def conn_start_def valid_str_ascii)
  from mock_subscription [OF example_subscribe_documented t] obtain c' ps
    where c': "handle_connection ?U [Readable (clean_read (w_subscribe example_subscribe ''t''))] (conn_start []) = ConnWaiting c'"
      "w_messages example_subscribe (into_bytes_str (last (cs_written c'))) = Some ps" by blast
  let ?a = "\<lparr>ps_open = (\<lambda>h. Inr ()), ps_get_async_pubsub = (\<lambda>_. Inr ()), ps_subscribe = (\<lambda>_ _. Inr ()),
    ps_events = map Incoming ps @ [drain_event.Closed]\<rparr> :: (unit, unit, string, unit, string) ps_try"
  have "list_all (\<lambda>m. valid_str m \<and> length m < 2 ^ 64) [''first'', ''second'']" by (simp add: valid_str_ascii)
  moreover have "list_all (\<lambda>a. (\<exists>pubsub. connect_and_subscribe a ''h'' ''t'' = Inr pubsub) \<and> ps_events a = map Incoming ps @ [drain_event.Closed])
      (replicate 2 ?a)"
    by (simp add: numeral_2_eq_2 connect_and_subscribe_def)
  ultimately show ?thesis
    using redis_pubsub_on_mock [OF example_subscribe_documented t(1-4) _ c', of "''h''" "replicate 2 ?a" example_lib
        "\<lparr>re_kind = id, re_debug = id, re_io = (\<lambda>a b. a)\<rparr> :: (string, string) redis_errors"] c'
    by (auto simp: numeral_2_eq_2 simp del: handle_connection.simps)
qed

end
