(* ===== verification/Stream_Ids.thy ===== *)
theory Stream_Ids
  imports Mock_Redis
begin

text \<open>
  Entry identifiers. Redis orders them by their two numbers; the mock server of
  \<^verbatim>\<open>src/src/redis_impls/testing_utils/mod.rs\<close> keeps them as strings and compares the strings. The
  two orders agree between identifiers with the same numbers of digits, and only there.
\<close>

section \<open>The order Redis documents\<close>

datatype redis_id = Redis_Id (id_ms: nat) (id_seq: nat)

instantiation redis_id :: linorder
begin

fun less_redis_id :: "redis_id \<Rightarrow> redis_id \<Rightarrow> bool" where
  "less_redis_id (Redis_Id m i) (Redis_Id n j) = (m < n \<or> m = n \<and> i < j)"

definition less_eq_redis_id :: "redis_id \<Rightarrow> redis_id \<Rightarrow> bool" where
  "less_eq_redis_id x y = (x = y \<or> x < y)"

instance
proof
  fix x y z :: redis_id
  show "x < y \<longleftrightarrow> x \<le> y \<and> \<not> y \<le> x"
    by (cases x; cases y) (auto simp: less_eq_redis_id_def)
  show "x \<le> x"
    by (simp add: less_eq_redis_id_def)
  show "x \<le> y \<Longrightarrow> y \<le> z \<Longrightarrow> x \<le> z"
    by (cases x; cases y; cases z) (auto simp: less_eq_redis_id_def)
  show "x \<le> y \<Longrightarrow> y \<le> x \<Longrightarrow> x = y"
    by (cases x; cases y) (auto simp: less_eq_redis_id_def)
  show "x \<le> y \<or> y \<le> x"
    by (cases x; cases y) (auto simp: less_eq_redis_id_def)
qed

end

fun id_text :: "redis_id \<Rightarrow> string" where
  "id_text (Redis_Id ms n) = show_nat ms @ ''-'' @ show_nat n"

abbreviation digits :: "nat \<Rightarrow> nat" where
  "digits n \<equiv> length (show_nat n)"

lemma entry_id_text: "entry_id i = id_text (Redis_Id i 0)"
proof -
  have "show_nat 0 = ''0''" by code_simp
  then show ?thesis by (simp add: entry_id_def)
qed

section \<open>The order of the texts\<close>

lemma str_less_append_iff:
  "length a = length b \<Longrightarrow> str_less (a @ s) (b @ t) \<longleftrightarrow> str_less a b \<or> a = b \<and> str_less s t"
  by (induction a b rule: list_induct2) auto

lemma str_less_irrefl: "\<not> str_less a a"
  by (induction a) auto

lemma digit_less: "d < 10 \<Longrightarrow> e < 10 \<Longrightarrow> str_less [digit_char d] [digit_char e] \<longleftrightarrow> d < e"
  by (simp add: of_char_digit_char)

lemma show_nat_snoc: "10 \<le> n \<Longrightarrow> show_nat n = show_nat (n div 10) @ [digit_char (n mod 10)]"
  by (subst show_nat.simps) simp

lemma digits_10: "10 \<le> n \<Longrightarrow> digits n = Suc (digits (n div 10))"
  by (simp add: show_nat_snoc)

lemma digits_1: "digits n = 1 \<longleftrightarrow> n < 10"
  using digits_10 [of n] show_nat_nonempty [of "n div 10"] by (cases "n < 10") (auto simp: show_nat_1)

lemma digit_parts:
  fixes a b d e :: nat
  assumes "d < 10" and "e < 10"
  shows "a * 10 + d < b * 10 + e \<longleftrightarrow> a < b \<or> a = b \<and> d < e" and "a * 10 + d = b * 10 + e \<longleftrightarrow> a = b \<and> d = e"
proof -
  show "a * 10 + d < b * 10 + e \<longleftrightarrow> a < b \<or> a = b \<and> d < e"
    using assms by linarith
  show "a * 10 + d = b * 10 + e \<longleftrightarrow> a = b \<and> d = e"
    using assms by (cases a b rule: linorder_cases) simp_all
qed

lemma less_by_digits: "(i :: nat) < j \<longleftrightarrow> i div 10 < j div 10 \<or> i div 10 = j div 10 \<and> i mod 10 < j mod 10"
  using digit_parts(1) [of "i mod 10" "j mod 10" "i div 10" "j div 10"] by simp

lemma eq_by_digits: "(i :: nat) = j \<longleftrightarrow> i div 10 = j div 10 \<and> i mod 10 = j mod 10"
  using digit_parts(2) [of "i mod 10" "j mod 10" "i div 10" "j div 10"] by simp

lemma show_nat_order:
  "digits i = digits j \<Longrightarrow>
     (str_less (show_nat i) (show_nat j) \<longleftrightarrow> i < j) \<and> (show_nat i = show_nat j \<longleftrightarrow> i = j)"
proof (induction i arbitrary: j rule: show_nat.induct)
  case (1 i)
  show ?case
  proof (cases "i < 10")
    case True
    then have "j < 10" using "1.prems" digits_1 by metis
    with True show ?thesis by (simp add: show_nat_1 of_char_digit_char digit_char_inj)
  next
    case False
    then have "\<not> j < 10" using "1.prems" digits_1 by metis
    with False have i: "show_nat i = show_nat (i div 10) @ [digit_char (i mod 10)]"
      and j: "show_nat j = show_nat (j div 10) @ [digit_char (j mod 10)]"
      by (simp_all add: show_nat_snoc)
    then have d: "digits (i div 10) = digits (j div 10)" using "1.prems" by simp
    note ih = "1.IH" [OF False d]
    have "str_less [digit_char (i mod 10)] [digit_char (j mod 10)] \<longleftrightarrow> i mod 10 < j mod 10"
      by (rule digit_less) simp_all
    moreover have "digit_char (i mod 10) = digit_char (j mod 10) \<longleftrightarrow> i mod 10 = j mod 10"
      by (rule digit_char_inj) simp_all
    ultimately show ?thesis
      unfolding i j str_less_append_iff [OF d] less_by_digits [of i j] eq_by_digits [of i j]
      using ih by (simp only: append1_eq_conv)
  qed
qed

text \<open>Between identifiers with as many digits in both parts the two orders are one.\<close>

lemma id_text_order:
  assumes "digits (id_ms x) = digits (id_ms y)" and "digits (id_seq x) = digits (id_seq y)"
  shows "str_less (id_text x) (id_text y) \<longleftrightarrow> x < y"
proof (cases x; cases y)
  fix m n i j assume x: "x = Redis_Id m i" and y: "y = Redis_Id n j"
  have "str_less (''-'' @ show_nat i) (''-'' @ show_nat j) \<longleftrightarrow> i < j"
    using show_nat_order [of i j] assms(2) by (simp add: x y)
  then show ?thesis
    using show_nat_order [of m n] assms(1) by (simp add: x y str_less_append_iff)
qed

lemma entry_id_order: "digits i = digits j \<Longrightarrow> str_less (entry_id i) (entry_id j) \<longleftrightarrow> i < j"
  using id_text_order [of "Redis_Id i 0" "Redis_Id j 0"] by (simp add: entry_id_text)

lemma digit_0: "digit_char 0 \<noteq> CHR ''-''"
  by code_simp

text \<open>The identifier of the tenth entry against those of its predecessors and successors.\<close>

lemma entry_10_order:
  assumes "0 < j" and "j < 100"
  shows "str_less (entry_id 10) (entry_id j) \<longleftrightarrow> 2 \<le> j \<and> j \<noteq> 10"
proof (cases "j < 10")
  case True
  with assms show ?thesis
    by (cases "j = 1") (simp_all add: entry_id_def show_nat_snoc show_nat_1 of_char_digit_char digit_char_inj digit_0)
next
  case False
  then have "digits 10 = digits j"
    using assms(2) by (simp add: show_nat_snoc show_nat_1)
  with entry_id_order [of 10 j] False show ?thesis by auto
qed

section \<open>What \<open>XREAD\<close> returns\<close>

lemma stream_after_entries:
  "stream_after st topic (entry_id k) = filter (\<lambda>e. str_less (entry_id k) (se_id e)) (entries_of st topic)"
  by (rule stream_after_eq [OF entry_id_not_dollar])

text \<open>Lists by their positions.\<close>

lemma filter_positions: "filter P xs = map ((!) xs) (filter (\<lambda>i. P (xs ! i)) [0..<length xs])"
proof -
  have "filter P (map ((!) xs) [0..<length xs]) = map ((!) xs) (filter (P \<circ> (!) xs) [0..<length xs])"
    by (rule filter_map)
  then show ?thesis by (simp add: map_nth comp_def)
qed

lemma upt_from: "filter (\<lambda>i. k \<le> i) [0..<n] = [k..<n]"
  by (induction n) auto

lemma segment_positions: "map ((!) xs) [k..<length xs] = drop k xs"
  using drop_map [of k "(!) xs" "[0..<length xs]"] by (simp add: map_nth)

lemma drop_positions: "filter P (drop k xs) = map ((!) xs) (filter (\<lambda>i. k \<le> i \<and> P (xs ! i)) [0..<length xs])"
proof -
  have "filter P (drop k xs) = filter P (map ((!) xs) (filter (\<lambda>i. k \<le> i) [0..<length xs]))"
    by (simp only: upt_from segment_positions)
  also have "\<dots> = map ((!) xs) (filter (\<lambda>i. P (xs ! i)) (filter (\<lambda>i. k \<le> i) [0..<length xs]))"
    by (simp only: filter_map comp_def)
  finally show ?thesis by (simp only: filter_filter)
qed

text \<open>
  C39: \<open>XREAD\<close> of the mock server after the entry with number \<open>k\<close>: among the entries whose numbers
  have as many digits as \<open>k\<close> it gives exactly the later ones, in order, as Redis does. The number
  of digits matters, as the identifiers are compared as text: after the ninth entry it gives none of
  the tenth to the eighty-ninth, and after the tenth it gives the second to the ninth once more.
\<close>

theorem xread_in_text_order:
  assumes "store_ok st" and "n = length (entries_of st topic)" and "1 \<le> k"
  shows "filter (\<lambda>e. length (se_id e) = length (entry_id k)) (stream_after st topic (entry_id k)) =
      filter (\<lambda>e. length (se_id e) = length (entry_id k)) (drop k (entries_of st topic)) \<and>
    (9 \<le> n \<and> n < 90 \<longrightarrow> stream_after st topic (entry_id 9) = []) \<and>
    (10 \<le> n \<and> n < 100 \<longrightarrow> stream_after st topic (entry_id 10) =
      take 8 (drop 1 (entries_of st topic)) @ drop 10 (entries_of st topic))"
proof (intro conjI impI)
  let ?es = "entries_of st topic" and ?same = "\<lambda>e. length (se_id e) = length (entry_id k)"
  have "filter (\<lambda>i. str_less (entry_id k) (se_id (?es ! i)) \<and> ?same (?es ! i)) [0..<n] =
      filter (\<lambda>i. k \<le> i \<and> ?same (?es ! i)) [0..<n]"
  proof (rule filter_cong [OF refl])
    fix i assume "i \<in> set [0..<n]"
    then have i: "se_id (?es ! i) = entry_id (i + 1)"
      using store_ids [OF assms(1), of i topic] assms(2) by simp
    show "str_less (entry_id k) (se_id (?es ! i)) \<and> ?same (?es ! i) \<longleftrightarrow> k \<le> i \<and> ?same (?es ! i)"
      unfolding i using entry_id_order [of k "i + 1"] by (auto simp: entry_id_def)
  qed
  then show "filter ?same (stream_after st topic (entry_id k)) = filter ?same (drop k ?es)"
    unfolding stream_after_entries filter_filter drop_positions filter_positions [of "\<lambda>e. _ e \<and> _ e" ?es]
    by (simp only: assms(2))
next
  assume "9 \<le> n \<and> n < 90"
  then show "stream_after st topic (entry_id 9) = []"
    using xread_nothing_after_9 [OF assms(1,2)] by simp
next
  let ?es = "entries_of st topic"
  assume n: "10 \<le> n \<and> n < 100"
  have "filter (\<lambda>i. str_less (entry_id 10) (se_id (?es ! i))) [0..<n] = filter (\<lambda>i. 1 \<le> i \<and> i \<noteq> 9) [0..<n]"
  proof (rule filter_cong [OF refl])
    fix i assume "i \<in> set [0..<n]"
    then show "str_less (entry_id 10) (se_id (?es ! i)) \<longleftrightarrow> 1 \<le> i \<and> i \<noteq> 9"
      using store_ids [OF assms(1), of i topic] assms(2) entry_10_order [of "i + 1"] n by auto
  qed
  moreover have "[0..<n] = [0..<10] @ [10..<n]"
    using n upt_add_eq_append [of 0 10 "n - 10"] by simp
  moreover have "filter (\<lambda>i. 1 \<le> i \<and> i \<noteq> 9) [0..<10] = [1..<9]" by code_simp
  moreover have "filter (\<lambda>i. 1 \<le> i \<and> i \<noteq> 9) [10..<n] = [10..<n]" by simp
  ultimately have "stream_after st topic (entry_id 10) = map ((!) ?es) [1..<9] @ map ((!) ?es) [10..<length ?es]"
    unfolding stream_after_entries filter_positions [of _ ?es] by (simp only: assms(2) [symmetric] filter_append map_append)
  moreover have "map ((!) ?es) [1..<9] = take 8 (drop 1 ?es)"
    using n assms(2) by (intro nth_equalityI) (auto simp: min_def)
  ultimately show "stream_after st topic (entry_id 10) = take 8 (drop 1 ?es) @ drop 10 ?es"
    by (simp add: segment_positions)
qed

text \<open>A topic with twelve entries.\<close>

theorem xread_in_text_order_witness:
  "let st = snd (snd (exec_all [] (replicate 12 (Xadd ''t'' [])) [])) in
   stream_after st ''t'' (entry_id 9) = [] \<and>
   stream_after st ''t'' (entry_id 10) = take 8 (drop 1 (entries_of st ''t'')) @ drop 10 (entries_of st ''t'')"
proof -
  have ok: "store_ok (snd (snd (exec_all [] (replicate 12 (Xadd ''t'' [])) [])))"
    by (rule exec_all_store_ok [OF store_ok_Nil])
  have "length (entries_of (snd (snd (exec_all [] (replicate 12 (Xadd ''t'' [])) []))) ''t'') = 12"
    unfolding replicated_xadds by (simp add: entries_of_def)
  with xread_in_text_order [OF ok refl, of 9 "''t''"] show ?thesis by (simp add: Let_def)
qed

end
