(* ===== verification/Mock_Kafka.thy ===== *)
theory Mock_Kafka
  imports Rust_Str Double_Checked
begin

text \<open>
  The shared mock Kafka cluster of \<^verbatim>\<open>src/src/kafka_impl/testing_utils/mod.rs\<close>: its lazy start, the
  known topics, the counter of unique names and the requests to the worker thread, the worker's
  loop, and \<open>Harness\<close>. The concurrent calls and the worker are in \<open>Mock_Kafka_Cluster\<close>.
\<close>

section \<open>State\<close>

record mock_kafka =
  mk_host :: string
  known_topics :: "string list"
  next_topic_id :: u64
  topic_requests :: "string list"

definition mock_kafka_init :: "string \<Rightarrow> mock_kafka" where
  "mock_kafka_init host = \<lparr>mk_host = host, known_topics = [], next_topic_id = 1, topic_requests = []\<rparr>"

text \<open>
  What \<open>MockCluster::new(3)\<close> answers: an error, or a cluster with its bootstrap servers. The
  worker thread panics on an error, and when nobody waits for the host any more; then
  \<open>MockKafka::new\<close> panics, too.
\<close>

type_synonym cluster_start = "unit + string"

definition run_cluster_start :: "cluster_start \<Rightarrow> bool \<Rightarrow> string outcome" where
  "run_cluster_start K waiting =
     (case K of Inl _ \<Rightarrow> Panic | Inr servers \<Rightarrow> if waiting then Ret servers else Panic)"

definition mock_kafka_new :: "cluster_start \<Rightarrow> mock_kafka outcome" where
  "mock_kafka_new K = (case run_cluster_start K True of Panic \<Rightarrow> Panic | Ret host \<Rightarrow> Ret (mock_kafka_init host))"

text \<open>
  The static cell: the first call that succeeds in making the cluster fills it. An attempt that
  panics leaves it empty for the next one.
\<close>

definition get_mock_cluster :: "cluster_start \<Rightarrow> mock_kafka option \<Rightarrow> mock_kafka outcome \<times> mock_kafka option" where
  "get_mock_cluster K cell =
     (case cell of
        Some m \<Rightarrow> (Ret m, cell)
      | None \<Rightarrow> (case mock_kafka_new K of Panic \<Rightarrow> (Panic, None) | Ret m \<Rightarrow> (Ret m, Some m)))"

definition mock_host :: "mock_kafka \<Rightarrow> string" where
  "mock_host m = mk_host m"

section \<open>Operations\<close>

text \<open>
  The two critical sections of \<open>create_topic\<close>. \<open>alive\<close> says whether the worker still receives; when
  it does not, \<open>expect\<close> panics (\<open>Inl\<close>) before the topic is recorded.
\<close>

definition create_topic_read :: "string \<Rightarrow> mock_kafka \<Rightarrow> (unit \<times> mock_kafka) option" where
  "create_topic_read topic m = (if topic \<in> set (known_topics m) then Some ((), m) else None)"

definition create_topic_write :: "bool \<Rightarrow> string \<Rightarrow> mock_kafka \<Rightarrow> (unit + unit) \<times> mock_kafka" where
  "create_topic_write alive topic m =
     (if topic \<notin> set (known_topics m)
      then (if alive
            then (Inr (), m\<lparr>topic_requests := topic_requests m @ [topic], known_topics := topic # known_topics m\<rparr>)
            else (Inl (), m))
      else (Inr (), m))"

definition create_topic :: "bool \<Rightarrow> string \<Rightarrow> mock_kafka \<Rightarrow> (unit + unit) \<times> mock_kafka" where
  "create_topic alive topic m =
     (case create_topic_read topic m of
        Some (_, m') \<Rightarrow> (Inr (), m')
      | None \<Rightarrow> create_topic_write alive topic m)"

text \<open>\<open>fetch_add\<close> wraps around.\<close>

definition new_topic :: "bool \<Rightarrow> string \<Rightarrow> mock_kafka \<Rightarrow> (unit + string) \<times> mock_kafka" where
  "new_topic alive pfx m =
     (let topic = pfx @ ''-'' @ show_nat (unat (next_topic_id m));
          m1 = m\<lparr>next_topic_id := next_topic_id m + 1\<rparr>;
          (r, m2) = create_topic alive topic m1
      in (res_bind r (\<lambda>_. Inr topic), m2))"

text \<open>
  \<open>Harness\<close>: every function fetches the shared cluster first. The handle itself has no fields.
  \<open>K\<close> is the answer to an attempt to start the cluster, should one be needed.
\<close>

definition with_cluster ::
  "cluster_start \<Rightarrow> (mock_kafka \<Rightarrow> (unit + 'a) \<times> mock_kafka) \<Rightarrow> mock_kafka option \<Rightarrow> (unit + 'a) \<times> mock_kafka option" where
  "with_cluster K f cell =
     (case get_mock_cluster K cell of
        (Panic, cell') \<Rightarrow> (Inl (), cell')
      | (Ret m, cell') \<Rightarrow> (let (r, m') = f m in (r, Some m')))"

fun with_topics :: "cluster_start \<Rightarrow> bool \<Rightarrow> string list \<Rightarrow> mock_kafka option \<Rightarrow> (unit + unit) \<times> mock_kafka option" where
  "with_topics K alive [] cell = (Inr (), cell)"
| "with_topics K alive (topic # topics) cell =
     (case with_cluster K (create_topic alive topic) cell of
        (Inl p, cell') \<Rightarrow> (Inl p, cell')
      | (Inr _, cell') \<Rightarrow> with_topics K alive topics cell')"

definition harness_new_topic ::
  "cluster_start \<Rightarrow> bool \<Rightarrow> string \<Rightarrow> mock_kafka option \<Rightarrow> (unit + string) \<times> mock_kafka option" where
  "harness_new_topic K alive pfx = with_cluster K (new_topic alive pfx)"

definition with_new_topic ::
  "cluster_start \<Rightarrow> bool \<Rightarrow> string \<Rightarrow> mock_kafka option \<Rightarrow> (unit + string) \<times> mock_kafka option" where
  "with_new_topic K alive pfx cell = harness_new_topic K alive pfx cell"

fun with_new_topics ::
  "cluster_start \<Rightarrow> bool \<Rightarrow> string list \<Rightarrow> string list \<Rightarrow> mock_kafka option \<Rightarrow> (unit + string list) \<times> mock_kafka option" where
  "with_new_topics K alive [] topics cell = (Inr topics, cell)"
| "with_new_topics K alive (pfx # pfxs) topics cell =
     (case harness_new_topic K alive pfx cell of
        (Inl p, cell') \<Rightarrow> (Inl p, cell')
      | (Inr topic, cell') \<Rightarrow> with_new_topics K alive pfxs (topics @ [topic]) cell')"

definition harness_host :: "cluster_start \<Rightarrow> mock_kafka option \<Rightarrow> (unit + string) \<times> mock_kafka option" where
  "harness_host K = with_cluster K (\<lambda>m. (Inr (mock_host m), m))"

text \<open>The worker: every request becomes a call of the cluster with three partitions and one replica.\<close>

fun run_cluster :: "string list \<Rightarrow> (string \<times> nat \<times> nat) list" where
  "run_cluster [] = []"
| "run_cluster (topic # topics) = (topic, 3, 1) # run_cluster topics"

section \<open>Lemmas\<close>

interpretation mock_topics: double_checked "\<lambda>m topic. if topic \<in> set (known_topics m) then Some () else None"
  "\<lambda>_. ()" create_topic_read "create_topic_write alive" for alive
  by unfold_locales
    (auto simp: create_topic_read_def create_topic_write_def split: if_splits)

lemma create_topic_eq_write: "create_topic alive topic m = create_topic_write alive topic m"
  using mock_topics.read_then_write [where k = topic and s = m and alive = alive] 
  by (auto simp: create_topic_def split: option.splits)

lemma split_last_dash:
  assumes "p @ ''-'' @ a = q @ ''-'' @ b" and "CHR ''-'' \<notin> set a" and "CHR ''-'' \<notin> set b"
  shows "a = b"
  using assms
proof (induction p arbitrary: q)
  case Nil
  then show ?case by (cases q) (auto simp: append_eq_Cons_conv)
next
  case (Cons x p)
  then show ?case by (cases q) auto
qed

lemma show_nat_no_dash: "CHR ''-'' \<notin> set (show_nat n)"
  using show_nat_digits [of "CHR ''-''" n] by auto

lemma topic_name_inject:
  "m < 2 ^ 64 \<Longrightarrow> n < 2 ^ 64 \<Longrightarrow> p @ ''-'' @ show_nat m = q @ ''-'' @ show_nat n \<Longrightarrow> m = n"
  using split_last_dash [OF _ show_nat_no_dash show_nat_no_dash] show_nat_inject by blast

lemma new_topic_cases:
  assumes "new_topic alive pfx m = (Inr topic, m')"
  shows "topic = pfx @ ''-'' @ show_nat (unat (next_topic_id m))"
    and "next_topic_id m' = next_topic_id m + 1" and "topic \<in> set (known_topics m')"
  using assms
  by (auto simp: new_topic_def create_topic_eq_write create_topic_write_def Let_def split: if_splits)

text \<open>The next number to be used, whether the cluster runs already or not.\<close>

definition next_id :: "mock_kafka option \<Rightarrow> u64" where
  "next_id cell = (case cell of None \<Rightarrow> 1 | Some m \<Rightarrow> next_topic_id m)"

lemma harness_new_topic_cases:
  assumes "harness_new_topic K alive pfx cell = (Inr topic, cell')"
  shows "topic = pfx @ ''-'' @ show_nat (unat (next_id cell))" and "next_id cell' = next_id cell + 1"
proof -
  obtain m m' where "cell' = Some m'" "new_topic alive pfx m = (Inr topic, m')" "next_topic_id m = next_id cell"
    using assms
    by (auto simp: harness_new_topic_def with_cluster_def get_mock_cluster_def mock_kafka_new_def mock_kafka_init_def
        next_id_def Let_def case_prod_unfold prod_eq_iff split: option.splits outcome.splits)
  with new_topic_cases [of alive pfx m topic m']
  show "topic = pfx @ ''-'' @ show_nat (unat (next_id cell))" "next_id cell' = next_id cell + 1"
    by (simp_all add: next_id_def)
qed

lemma with_new_topics_names:
  "with_new_topics K alive pfxs topics cell = (Inr names, cell') \<Longrightarrow>
     names = topics @ map (\<lambda>i. pfxs ! i @ ''-'' @ show_nat (unat (next_id cell + of_nat i))) [0..<length pfxs]"
proof (induction pfxs arbitrary: topics cell)
  case (Cons p ps)
  obtain topic cell1 where n: "harness_new_topic K alive p cell = (Inr topic, cell1)"
    and w: "with_new_topics K alive ps (topics @ [topic]) cell1 = (Inr names, cell')"
    using Cons.prems by (auto split: prod.splits sum.splits)
  have "map (\<lambda>i. (p # ps) ! i @ ''-'' @ show_nat (unat (next_id cell + of_nat i))) [0..<length (p # ps)] =
      topic # map (\<lambda>i. ps ! i @ ''-'' @ show_nat (unat (next_id cell1 + of_nat i))) [0..<length ps]"
    using harness_new_topic_cases [OF n]
    by (simp add: upt_rec [of 0] map_Suc_upt [symmetric] del: upt_Suc) (simp add: comp_def ac_simps)
  with Cons.IH [OF w] show ?case by simp
qed simp

section \<open>Properties\<close>

text \<open>
  The unique names are unique: any number of names below \<open>2 ^ 64\<close> made in one process are
  distinct, whatever their prefixes, whether the cluster had been started before or not.
\<close>

theorem new_topics_distinct:
  assumes "with_new_topics K alive pfxs [] cell = (Inr names, cell')" and "length pfxs \<le> 2 ^ 64"
  shows "distinct names"
proof -
  let ?id = "\<lambda>i. unat (next_id cell + of_nat i)"
  have inj: "i = j" if "i < length pfxs" "j < length pfxs" "?id i = ?id j" for i j
  proof -
    have "next_id cell + of_nat i = next_id cell + of_nat j"
      using that(3) by (simp add: word_unat_eq_iff)
    then have "(of_nat i :: u64) = of_nat j" by simp
    moreover have "i < 2 ^ 64" "j < 2 ^ 64" using that(1,2) assms(2) by simp_all
    ultimately show ?thesis
      by (simp add: word_unat_eq_iff unat_of_nat)
  qed
  have "?id i < 2 ^ 64" for i
    using unsigned_less [of "next_id cell + of_nat i"] by simp
  then have "inj_on (\<lambda>i. pfxs ! i @ ''-'' @ show_nat (?id i)) (set [0..<length pfxs])"
    by (intro inj_onI) (metis atLeastLessThan_iff inj set_upt topic_name_inject)
  then show ?thesis
    using with_new_topics_names [OF assms(1)] by (simp add: distinct_map del: append.simps)
qed

theorem new_topics_distinct_witness:
  "distinct [''a-1'', ''b-2'', ''a-3''] \<and>
   fst (with_new_topics (Inr ''h'') True [''a'', ''b'', ''a''] [] None) = Inr [''a-1'', ''b-2'', ''a-3'']"
proof -
  have f: "fst (with_new_topics (Inr ''h'') True [''a'', ''b'', ''a''] [] None) = Inr [''a-1'', ''b-2'', ''a-3'']"
    by code_simp
  then have w: "with_new_topics (Inr ''h'') True [''a'', ''b'', ''a''] [] None =
      (Inr [''a-1'', ''b-2'', ''a-3''], snd (with_new_topics (Inr ''h'') True [''a'', ''b'', ''a''] [] None))"
    by (metis prod.collapse)
  have "distinct [''a-1'', ''b-2'', ''a-3'']"
    by (rule new_topics_distinct [OF w]) simp
  with f show ?thesis by blast
qed

text \<open>
  However the critical sections of concurrent callers interleave, the cluster is asked for
  each topic at most once, and exactly for the topics that are known.
\<close>

theorem topics_requested_once:
  "distinct (topic_requests (run_phases create_topic_read (create_topic_write alive) ps (mock_kafka_init host))) \<and>
   set (topic_requests (run_phases create_topic_read (create_topic_write alive) ps (mock_kafka_init host))) =
   set (known_topics (run_phases create_topic_read (create_topic_write alive) ps (mock_kafka_init host))) \<and>
   map fst (run_cluster (topic_requests m)) = topic_requests m"
proof -
  have "distinct (topic_requests (run_phases create_topic_read (create_topic_write alive) ps s)) \<and>
      set (topic_requests (run_phases create_topic_read (create_topic_write alive) ps s)) =
      set (known_topics (run_phases create_topic_read (create_topic_write alive) ps s))"
    if "distinct (topic_requests s)" "set (topic_requests s) = set (known_topics s)" for s
    using that
  proof (induction ps arbitrary: s)
    case (Cons p ps)
    then show ?case
      by (cases p) (auto simp: create_topic_read_def create_topic_write_def)
  qed simp
  moreover have "map fst (run_cluster ts) = ts" for ts
    by (induction ts) simp_all
  ultimately show ?thesis by (simp add: mock_kafka_init_def)
qed

end
