(* ===== verification/Mock_Kafka_Cluster.thy ===== *)
theory Mock_Kafka_Cluster
  imports Mock_Kafka
begin

text \<open>
  Concurrent calls of \<open>MockKafka::create_topic\<close> and the worker thread of
  \<^verbatim>\<open>src/src/kafka_impl/testing_utils/mod.rs\<close>. A call that found its topic missing waits for the
  write lock, and, holding it, for room in a channel of capacity one; the worker takes the topics
  from the channel and asks the cluster for them. The theorems say that this cannot get stuck,
  and what a caller knows when its call has returned.
\<close>

section \<open>Model\<close>

text \<open>
  Where a call stands: before the look under the read lock; before the write lock; holding it,
  with its topic to be sent; or back at the caller.
\<close>

datatype call_phase = Looking string | Missing string | Sending string | Returned string

record kafka_system =
  ky_kafka :: mock_kafka
  ky_calls :: "call_phase list"
  ky_buffer :: "string list"
  ky_hand :: "string option"
  ky_created :: "(string \<times> nat \<times> nat) list"

definition system_init :: "string \<Rightarrow> kafka_system" where
  "system_init host =
     \<lparr>ky_kafka = mock_kafka_init host, ky_calls = [], ky_buffer = [], ky_hand = None, ky_created = []\<rparr>"

fun is_sending :: "call_phase \<Rightarrow> bool" where
  "is_sending (Sending t) = True"
| "is_sending _ = False"

definition write_locked :: "kafka_system \<Rightarrow> bool" where
  "write_locked s = list_ex is_sending (ky_calls s)"

definition set_call :: "nat \<Rightarrow> call_phase \<Rightarrow> kafka_system \<Rightarrow> kafka_system" where
  "set_call i c s = s\<lparr>ky_calls := (ky_calls s)[i := c]\<rparr>"

text \<open>
  The label tells a new call from the steps of the calls and of the worker. The send and the
  insertion into the known topics are one step: the write lock is held over both, and nothing is
  awaited between them. What the cluster answers to the worker is ignored.
\<close>

inductive system_step :: "kafka_system \<Rightarrow> string option \<Rightarrow> kafka_system \<Rightarrow> bool" where
  call: "system_step s (Some t) (s\<lparr>ky_calls := ky_calls s @ [Looking t]\<rparr>)"
| look: "i < length (ky_calls s) \<Longrightarrow> ky_calls s ! i = Looking t \<Longrightarrow> \<not> write_locked s \<Longrightarrow>
    system_step s None
      (set_call i (case create_topic_read t (ky_kafka s) of Some _ \<Rightarrow> Returned t | None \<Rightarrow> Missing t) s)"
| lock: "i < length (ky_calls s) \<Longrightarrow> ky_calls s ! i = Missing t \<Longrightarrow> \<not> write_locked s \<Longrightarrow>
    system_step s None (set_call i (if t \<in> set (known_topics (ky_kafka s)) then Returned t else Sending t) s)"
| send: "i < length (ky_calls s) \<Longrightarrow> ky_calls s ! i = Sending t \<Longrightarrow> length (ky_buffer s) < 1 \<Longrightarrow>
    system_step s None
      (set_call i (Returned t) s\<lparr>ky_kafka := snd (create_topic_write True t (ky_kafka s)), ky_buffer := ky_buffer s @ [t]\<rparr>)"
| recv: "ky_hand s = None \<Longrightarrow> ky_buffer s = t # ts \<Longrightarrow>
    system_step s None (s\<lparr>ky_hand := Some t, ky_buffer := ts\<rparr>)"
| create: "ky_hand s = Some t \<Longrightarrow>
    system_step s None (s\<lparr>ky_hand := None, ky_created := ky_created s @ run_cluster [t]\<rparr>)"

inductive system_run :: "kafka_system \<Rightarrow> string option list \<Rightarrow> kafka_system \<Rightarrow> bool" where
  no_steps: "system_run s [] s"
| more: "system_run s ls s' \<Longrightarrow> system_step s' l s'' \<Longrightarrow> system_run s (ls @ [l]) s''"

section \<open>Invariant\<close>

fun call_ok :: "mock_kafka \<Rightarrow> call_phase \<Rightarrow> bool" where
  "call_ok m (Returned t) = (t \<in> set (known_topics m))"
| "call_ok m (Sending t) = (t \<notin> set (known_topics m))"
| "call_ok m _ = True"

text \<open>The requests are in the cluster, in the worker's hand or in the channel, in this order.\<close>

definition requests_inv :: "kafka_system \<Rightarrow> bool" where
  "requests_inv s \<longleftrightarrow>
     topic_requests (ky_kafka s) =
       map fst (ky_created s) @ (case ky_hand s of None \<Rightarrow> [] | Some t \<Rightarrow> [t]) @ ky_buffer s \<and>
     length (ky_buffer s) \<le> 1"

definition known_inv :: "mock_kafka \<Rightarrow> bool" where
  "known_inv m \<longleftrightarrow> distinct (topic_requests m) \<and> set (topic_requests m) = set (known_topics m)"

definition calls_inv :: "mock_kafka \<Rightarrow> call_phase list \<Rightarrow> bool" where
  "calls_inv m cs \<longleftrightarrow> list_all (call_ok m) cs \<and> length (filter is_sending cs) \<le> 1"

definition system_inv :: "kafka_system \<Rightarrow> bool" where
  "system_inv s \<longleftrightarrow> requests_inv s \<and> known_inv (ky_kafka s) \<and> calls_inv (ky_kafka s) (ky_calls s)"

lemma filter_update:
  "i < length xs \<Longrightarrow>
     length (filter P (xs[i := x])) + (if P (xs ! i) then 1 else 0) = length (filter P xs) + (if P x then 1 else 0)"
proof (induction xs arbitrary: i)
  case (Cons y ys)
  then show ?case by (cases i) auto
qed simp

lemma not_locked: "\<not> write_locked s \<longleftrightarrow> filter is_sending (ky_calls s) = []"
  by (simp add: write_locked_def list_ex_iff filter_empty_conv)

lemma sending_alone:
  assumes "length (filter is_sending cs) \<le> 1" and "i < length cs" and "j < length cs" and "i \<noteq> j"
    and "is_sending (cs ! i)"
  shows "\<not> is_sending (cs ! j)"
proof
  assume "is_sending (cs ! j)"
  then have "{i, j} \<subseteq> {k. k < length cs \<and> is_sending (cs ! k)}" using assms by simp
  then have "card {i, j} \<le> length (filter is_sending cs)"
    by (simp add: length_filter_conv_card card_mono)
  with assms show False by simp
qed

lemma inv_set_call:
  assumes "system_inv s" and "i < length (ky_calls s)" and "call_ok (ky_kafka s) c"
    and "is_sending c \<Longrightarrow> \<not> write_locked s"
  shows "system_inv (set_call i c s)"
proof -
  have "length (filter is_sending ((ky_calls s)[i := c])) \<le> 1"
    using filter_update [OF assms(2), of is_sending c] assms(1,4)
    by (cases "is_sending c") (auto simp: system_inv_def calls_inv_def not_locked split: if_splits)
  moreover have "list_all (call_ok (ky_kafka s)) ((ky_calls s)[i := c])"
    using assms(1-3) by (simp add: system_inv_def calls_inv_def list_all_length nth_list_update)
  ultimately show ?thesis
    using assms(1) by (simp add: system_inv_def set_call_def requests_inv_def calls_inv_def)
qed

lemma calls_inv_send:
  assumes "calls_inv m cs" and "i < length cs" and "cs ! i = Sending t" and "known_topics m' = t # known_topics m"
  shows "calls_inv m' (cs[i := Returned t])"
proof -
  have ok: "list_all (call_ok m) cs" and one: "length (filter is_sending cs) \<le> 1"
    using assms(1) by (simp_all add: calls_inv_def)
  have "call_ok m' (cs[i := Returned t] ! j)" if "j < length cs" for j
    using that ok sending_alone [OF one assms(2) that] assms(2-4)
    by (cases "j = i"; cases "cs ! j") (auto simp: list_all_length)
  moreover have "length (filter is_sending (cs[i := Returned t])) \<le> 1"
    using filter_update [OF assms(2), of is_sending "Returned t"] one by (simp split: if_splits)
  ultimately show ?thesis by (simp add: calls_inv_def list_all_length)
qed

lemma inv_send:
  assumes "system_inv s" and "i < length (ky_calls s)" and "ky_calls s ! i = Sending t" and "ky_buffer s = []"
  shows "system_inv (set_call i (Returned t) s
    \<lparr>ky_kafka := snd (create_topic_write True t (ky_kafka s)), ky_buffer := ky_buffer s @ [t]\<rparr>)"
proof -
  let ?m = "snd (create_topic_write True t (ky_kafka s))"
  have t: "t \<notin> set (known_topics (ky_kafka s))"
    using assms(1-3) by (force simp: system_inv_def calls_inv_def list_all_length)
  have m: "known_topics ?m = t # known_topics (ky_kafka s)" "topic_requests ?m = topic_requests (ky_kafka s) @ [t]"
    using t by (simp_all add: create_topic_write_def)
  have "calls_inv ?m ((ky_calls s)[i := Returned t])"
    using calls_inv_send [OF _ assms(2,3) m(1)] assms(1) by (simp add: system_inv_def)
  moreover have "known_inv ?m"
    using assms(1) t by (auto simp: system_inv_def known_inv_def m)
  ultimately show ?thesis
    using assms(1,4) by (simp add: system_inv_def requests_inv_def set_call_def m)
qed

lemma system_step_inv: "system_step s l s' \<Longrightarrow> system_inv s \<Longrightarrow> system_inv s'"
proof (induction rule: system_step.induct)
  case (look i s t)
  then show ?case
    by (intro inv_set_call) (auto simp: create_topic_read_def split: option.splits if_splits)
next
  case (lock i s t)
  then show ?case by (intro inv_set_call) (auto split: if_splits)
next
  case (send i s t)
  then show ?case using inv_send [of s i t] by simp
qed (simp_all add: system_inv_def requests_inv_def calls_inv_def)

lemma system_run_inv: "system_run s ls s' \<Longrightarrow> system_inv s \<Longrightarrow> system_inv s'"
  by (induction rule: system_run.induct) (auto dest: system_step_inv)

lemma system_run_trans: "system_run t ns u \<Longrightarrow> system_run s ls t \<Longrightarrow> system_run s (ls @ ns) u"
proof (induction rule: system_run.induct)
  case (more t ns u l v)
  from system_run.more [OF more.IH [OF more.prems] more(2)] show ?case by simp
qed simp

lemma system_init_inv: "system_inv (system_init host)"
  by (simp add: system_inv_def requests_inv_def known_inv_def calls_inv_def system_init_def mock_kafka_init_def)

lemma known_requests:
  assumes "system_inv s"
  shows "set (known_topics (ky_kafka s)) =
      set (map fst (ky_created s) @ (case ky_hand s of None \<Rightarrow> [] | Some t \<Rightarrow> [t]) @ ky_buffer s)"
    and "distinct (map fst (ky_created s))"
  using assms unfolding system_inv_def requests_inv_def known_inv_def by (metis, metis distinct_append)

section \<open>Progress\<close>

text \<open>How many steps the calls and the worker can still take.\<close>

fun call_cost :: "call_phase \<Rightarrow> nat" where
  "call_cost (Looking t) = 5"
| "call_cost (Missing t) = 4"
| "call_cost (Sending t) = 3"
| "call_cost (Returned t) = 0"

definition system_cost :: "kafka_system \<Rightarrow> nat" where
  "system_cost s =
     sum_list (map call_cost (ky_calls s)) + 2 * length (ky_buffer s) + (case ky_hand s of None \<Rightarrow> 0 | Some t \<Rightarrow> 1)"

lemma sum_list_update_nat:
  fixes f :: "'a \<Rightarrow> nat"
  shows "i < length xs \<Longrightarrow> sum_list (map f (xs[i := x])) + f (xs ! i) = sum_list (map f xs) + f x"
proof (induction xs arbitrary: i)
  case (Cons y ys)
  then show ?case by (cases i) auto
qed simp

lemma set_call_cost:
  assumes "i < length (ky_calls s)"
  shows "system_cost (set_call i c s) + call_cost (ky_calls s ! i) = system_cost s + call_cost c"
  using sum_list_update_nat [OF assms, of call_cost c] by (simp add: system_cost_def set_call_def)

lemma system_step_cost:
  assumes "system_step s None s'"
  shows "system_cost s' < system_cost s"
  using assms
proof cases
  case (look i t)
  with set_call_cost [of i s "Missing t"] set_call_cost [of i s "Returned t"] show ?thesis
    by (auto split: option.splits)
next
  case (lock i t)
  with set_call_cost [of i s "Sending t"] set_call_cost [of i s "Returned t"] show ?thesis by auto
next
  case (send i t)
  with set_call_cost [of i s "Returned t"] show ?thesis
    by (simp add: system_cost_def set_call_def)
qed (simp_all add: system_cost_def)

lemma system_run_cost:
  "system_run s ls s' \<Longrightarrow> set ls \<subseteq> {None} \<Longrightarrow> length ls + system_cost s' \<le> system_cost s"
proof (induction rule: system_run.induct)
  case (more s ls s' l s'')
  then show ?case using system_step_cost [of s' s''] by simp
qed simp

text \<open>Only a state in which everything is done has no step.\<close>

lemma system_progress:
  assumes "system_inv s" and "\<And>s'. \<not> system_step s None s'"
  shows "list_all (\<lambda>c. \<exists>t. c = Returned t) (ky_calls s)" and "ky_buffer s = []" and "ky_hand s = None"
proof -
  show h: "ky_hand s = None" using assms(2) create by (cases "ky_hand s") blast+
  show b: "ky_buffer s = []" using assms(2) recv [OF h] by (cases "ky_buffer s") blast+
  have n: "\<not> write_locked s"
    using assms(2) send b
    by (force simp: write_locked_def list_ex_length elim!: is_sending.elims)
  have "\<exists>t. ky_calls s ! i = Returned t" if i: "i < length (ky_calls s)" for i
    using assms(2) look [OF i _ n] lock [OF i _ n] n i
    by (cases "ky_calls s ! i") (auto simp: write_locked_def list_ex_length)
  then show "list_all (\<lambda>c. \<exists>t. c = Returned t) (ky_calls s)" by (simp add: list_all_length)
qed

lemma system_cost_bound: "system_inv s \<Longrightarrow> system_cost s \<le> 5 * length (ky_calls s) + 3"
proof -
  have "call_cost c \<le> 5" for c by (cases c) simp_all
  then have "sum_list (map call_cost cs) \<le> 5 * length cs" for cs
    by (induction cs) (auto simp: add_mono)
  moreover assume "system_inv s"
  then have "length (ky_buffer s) \<le> 1" by (simp add: system_inv_def requests_inv_def)
  ultimately show ?thesis
    using add_mono [of "sum_list (map call_cost (ky_calls s))" "5 * length (ky_calls s)" "2 * length (ky_buffer s)" 2]
    by (simp add: system_cost_def split: option.splits)
qed

section \<open>Properties\<close>

text \<open>
  C22: Concurrent calls of \<open>create_topic\<close> and the worker cannot get stuck, although a call holds the
  write lock while it waits for room in the channel: from every reachable state they take at most
  five steps per call and three more before nothing is left to do, and then every call has
  returned and the cluster was asked for every known topic.
\<close>

theorem create_topic_calls_finish:
  assumes "system_run (system_init host) ls s" and "system_run s ns s'" and "set ns \<subseteq> {None}"
  shows "length ns \<le> 5 * length (ky_calls s) + 3 \<and>
    ((\<exists>s''. system_step s' None s'') \<or>
     list_all (\<lambda>c. \<exists>t. c = Returned t) (ky_calls s') \<and>
     set (map fst (ky_created s')) = set (known_topics (ky_kafka s')))"
proof -
  have i: "system_inv s" by (rule system_run_inv [OF assms(1) system_init_inv])
  have i': "system_inv s'" by (rule system_run_inv [OF assms(2) i])
  have "length ns \<le> 5 * length (ky_calls s) + 3"
    using system_run_cost [OF assms(2,3)] system_cost_bound [OF i] by simp
  moreover have "set (map fst (ky_created s')) = set (known_topics (ky_kafka s'))"
    if "ky_buffer s' = []" "ky_hand s' = None"
    using that known_requests(1) [OF i'] by simp
  ultimately show ?thesis
    using system_progress [OF i'] by metis
qed

text \<open>A schedule of steps as a run, for computed examples.\<close>

datatype move = Call string | Look nat | Lock nat | Send nat | Recv | Create

fun moved :: "move \<Rightarrow> kafka_system \<Rightarrow> (string option \<times> kafka_system) option" where
  "moved (Call t) s = Some (Some t, s\<lparr>ky_calls := ky_calls s @ [Looking t]\<rparr>)"
| "moved (Look i) s =
     (if i < length (ky_calls s) \<and> \<not> write_locked s
      then (case ky_calls s ! i of
              Looking t \<Rightarrow>
                Some (None, set_call i (case create_topic_read t (ky_kafka s) of Some _ \<Rightarrow> Returned t | None \<Rightarrow> Missing t) s)
            | _ \<Rightarrow> None)
      else None)"
| "moved (Lock i) s =
     (if i < length (ky_calls s) \<and> \<not> write_locked s
      then (case ky_calls s ! i of
              Missing t \<Rightarrow>
                Some (None, set_call i (if t \<in> set (known_topics (ky_kafka s)) then Returned t else Sending t) s)
            | _ \<Rightarrow> None)
      else None)"
| "moved (Send i) s =
     (if i < length (ky_calls s) \<and> length (ky_buffer s) < 1
      then (case ky_calls s ! i of
              Sending t \<Rightarrow>
                Some (None, set_call i (Returned t) s\<lparr>ky_kafka := snd (create_topic_write True t (ky_kafka s)),
                  ky_buffer := ky_buffer s @ [t]\<rparr>)
            | _ \<Rightarrow> None)
      else None)"
| "moved Recv s =
     (case (ky_hand s, ky_buffer s) of
        (None, t # ts) \<Rightarrow> Some (None, s\<lparr>ky_hand := Some t, ky_buffer := ts\<rparr>)
      | _ \<Rightarrow> None)"
| "moved Create s =
     (case ky_hand s of
        Some t \<Rightarrow> Some (None, s\<lparr>ky_hand := None, ky_created := ky_created s @ run_cluster [t]\<rparr>)
      | None \<Rightarrow> None)"

fun moves :: "move list \<Rightarrow> string option list \<times> kafka_system \<Rightarrow> (string option list \<times> kafka_system) option" where
  "moves [] x = Some x"
| "moves (a # as) (ls, s) = (case moved a s of None \<Rightarrow> None | Some (l, s') \<Rightarrow> moves as (ls @ [l], s'))"

lemma moved_step: "moved a s = Some (l, s') \<Longrightarrow> system_step s l s'"
proof (cases a)
  case (Look i)
  assume "moved a s = Some (l, s')"
  with Look show ?thesis by (auto intro!: look split: if_splits call_phase.splits)
next
  case (Lock i)
  assume "moved a s = Some (l, s')"
  with Lock obtain t where "l = None" "i < length (ky_calls s)" "ky_calls s ! i = Missing t" "\<not> write_locked s"
    "s' = set_call i (if t \<in> set (known_topics (ky_kafka s)) then Returned t else Sending t) s"
    by (auto split: if_splits call_phase.splits)
  with lock show ?thesis by blast
next
  case (Send i)
  assume "moved a s = Some (l, s')"
  with Send obtain t where "l = None" "i < length (ky_calls s)" "ky_calls s ! i = Sending t" "length (ky_buffer s) < 1"
    "s' = set_call i (Returned t) s\<lparr>ky_kafka := snd (create_topic_write True t (ky_kafka s)), ky_buffer := ky_buffer s @ [t]\<rparr>"
    by (auto split: if_splits call_phase.splits)
  with send show ?thesis by blast
qed (auto intro: system_step.intros simp del: run_cluster.simps split: option.splits list.splits)

lemma moves_run: "moves as (ls, s) = Some (ls', s') \<Longrightarrow> system_run s0 ls s \<Longrightarrow> system_run s0 ls' s'"
proof (induction as arbitrary: ls s)
  case (Cons a as)
  then obtain l t where t: "moved a s = Some (l, t)" and m: "moves as (ls @ [l], t) = Some (ls', s')"
    by (auto split: option.splits)
  from Cons.IH [OF m more [OF Cons.prems(2) moved_step [OF t]]] show ?case .
qed simp

text \<open>Two tests ask for the same topic and a third for another one.\<close>

definition three_calls :: kafka_system where
  "three_calls = snd (the (moves [Call ''a'', Call ''a'', Call ''b''] ([], system_init ''h'')))"

definition both_moves :: "move list" where
  "both_moves = [Look 0, Look 1, Look 2, Lock 0, Send 0, Lock 1, Lock 2, Recv, Send 2]"

definition three_done :: kafka_system where
  "three_done = snd (the (moves both_moves ([], three_calls)))"

lemma three_calls_run: "\<exists>ls. system_run (system_init ''h'') ls three_calls"
proof -
  have "moves [Call ''a'', Call ''a'', Call ''b''] ([], system_init ''h'') \<noteq> None" by code_simp
  then obtain ls s where m: "moves [Call ''a'', Call ''a'', Call ''b''] ([], system_init ''h'') = Some (ls, s)" by auto
  then have "s = three_calls" by (simp add: three_calls_def)
  with moves_run [OF m no_steps] show ?thesis by metis
qed

lemma three_done_run: "system_run three_calls (replicate 9 None) three_done"
proof -
  have "map_option fst (moves both_moves ([], three_calls)) = Some (replicate 9 None)" by code_simp
  then obtain s where m: "moves both_moves ([], three_calls) = Some (replicate 9 None, s)" by auto
  then have "s = three_done" by (simp add: three_done_def)
  with moves_run [OF m no_steps] show ?thesis by metis
qed

lemma three_done_values:
  "ky_calls three_calls = [Looking ''a'', Looking ''a'', Looking ''b'']"
  "ky_calls three_done = [Returned ''a'', Returned ''a'', Returned ''b'']"
  "ky_created three_done = []" "ky_hand three_done = Some ''a''" "ky_buffer three_done = [''b'']"
  "known_topics (ky_kafka three_done) = [''b'', ''a'']"
  by code_simp+

theorem create_topic_calls_finish_witness:
  "length (replicate 9 (None :: string option)) \<le> 18 \<and> (\<exists>s''. system_step three_done None s'')"
proof -
  obtain ls where "system_run (system_init ''h'') ls three_calls" using three_calls_run by blast
  from create_topic_calls_finish [OF this three_done_run]
  show ?thesis by (simp add: three_done_values del: replicate.simps)
qed

text \<open>
  C38: What a caller of \<open>create_topic\<close> knows when its call has returned: the cluster was asked for the
  topic, or it is in the worker's hand or in the channel, which holds one topic. No topic is
  requested twice, and the cluster is only asked for known topics, with three partitions and one replica.
\<close>

theorem returned_topics_requested:
  assumes "system_run (system_init host) ls s"
  shows "(Returned t \<in> set (ky_calls s) \<longrightarrow>
      t \<in> set (map fst (ky_created s)) \<or> ky_hand s = Some t \<or> t \<in> set (ky_buffer s)) \<and>
    length (ky_buffer s) \<le> 1 \<and> distinct (map fst (ky_created s)) \<and>
    set (ky_created s) \<subseteq> (\<lambda>t. (t, 3, 1)) ` set (known_topics (ky_kafka s))"
proof -
  have i: "system_inv s" by (rule system_run_inv [OF assms system_init_inv])
  have three: "list_all (\<lambda>x. snd x = (3, 1)) (ky_created s)"
    using assms
  proof (induction "system_init host" ls s rule: system_run.induct)
    case no_steps
    then show ?case by (simp add: system_init_def)
  next
    case (more ls s' l s'')
    from more(3,2) show ?case by cases (simp_all add: set_call_def)
  qed
  let ?hand = "case ky_hand s of None \<Rightarrow> [] | Some t \<Rightarrow> [t]"
  have k: "set (known_topics (ky_kafka s)) = set (map fst (ky_created s)) \<union> set ?hand \<union> set (ky_buffer s)"
    using known_requests(1) [OF i] by (simp add: Un_assoc)
  have "call_ok (ky_kafka s) (Returned t)" if "Returned t \<in> set (ky_calls s)"
    using i that unfolding system_inv_def calls_inv_def list_all_iff by blast
  then have "Returned t \<in> set (ky_calls s) \<longrightarrow>
      t \<in> set (map fst (ky_created s)) \<or> ky_hand s = Some t \<or> t \<in> set (ky_buffer s)"
    unfolding call_ok.simps k by (cases "ky_hand s") auto
  moreover have "x \<in> (\<lambda>t. (t, 3, 1)) ` set (known_topics (ky_kafka s))" if "x \<in> set (ky_created s)" for x
  proof (rule image_eqI)
    show "x = (fst x, 3, 1)" using three that by (simp add: list_all_iff prod_eq_iff)
    show "fst x \<in> set (known_topics (ky_kafka s))" using that by (simp add: k)
  qed
  moreover have "length (ky_buffer s) \<le> 1" using i by (simp add: system_inv_def requests_inv_def)
  ultimately show ?thesis using known_requests(2) [OF i] by blast
qed

text \<open>Both calls for one topic and the call for another have returned, and neither topic exists yet.\<close>

theorem returned_topics_requested_witness:
  "Returned ''b'' \<in> set (ky_calls three_done) \<and> ''b'' \<notin> set (map fst (ky_created three_done)) \<and>
     ''b'' \<in> set (ky_buffer three_done)"
proof -
  obtain ls where "system_run (system_init ''h'') ls three_done"
    using three_calls_run three_done_run by (metis system_run_trans)
  from returned_topics_requested [OF this, of "''b''"]
  show ?thesis by (simp add: three_done_values)
qed

end
