(* ===== verification/Backoff_Tests.thy ===== *)
theory Backoff_Tests
  imports Backoff "HOL-Library.Monad_Syntax" "HOL-Library.Word"
begin

text \<open>
  The tests that \<^verbatim>\<open>src/src/backoff.rs\<close> keeps beside \<open>OutageState\<close> (its module \<open>tests\<close>), one definition
  per test function. A test is a value of type \<open>unit option\<close>: \<open>None\<close> when an assertion fails or
  a call panics. The tests run under a paused clock, where a sleep returns at once.
\<close>

section \<open>Assertions and helpers\<close>

definition assert_that :: "bool \<Rightarrow> unit option" where
  "assert_that b = (if b then Some () else None)"

abbreviation assert_eq :: "'a \<Rightarrow> 'a \<Rightarrow> unit option" where
  "assert_eq x y \<equiv> assert_that (x = y)"

text \<open>\<open>TestState\<close>: the error kind is a byte.\<close>

type_synonym test_state = "8 word outage_state"

definition make_state :: test_state where
  "make_state = outage_default"

text \<open>The derived \<open>Debug\<close> of the unit struct \<open>FakeErr\<close>.\<close>

definition FakeErr :: string where
  "FakeErr = ''FakeErr''"

definition on_err :: "test_state \<Rightarrow> 8 word \<Rightarrow> test_state option" where
  "on_err state kind =
     (case on_error state kind FakeErr ''ctx'' of
        (_, Panic) \<Rightarrow> None
      | (_, Ret state') \<Rightarrow> Some state')"

fun on_err_times :: "nat \<Rightarrow> test_state \<Rightarrow> 8 word \<Rightarrow> test_state option" where
  "on_err_times 0 state kind = Some state"
| "on_err_times (Suc n) state kind = do { state \<leftarrow> on_err state kind; on_err_times n state kind }"

section \<open>The tests of \<open>on_error\<close> and \<open>on_recovery\<close>\<close>

definition on_recovery_returns_false_when_no_outage :: "unit option" where
  "on_recovery_returns_false_when_no_outage = do {
     let state = make_state;
     let (recovered, state) = on_recovery state;
     assert_that (\<not> recovered)
   }"

definition on_recovery_returns_true_after_error_then_false_again :: "unit option" where
  "on_recovery_returns_true_after_error_then_false_again = do {
     let state = make_state;
     state \<leftarrow> on_err state 1;
     let (recovered, state) = on_recovery state;
     assert_that recovered;
     let (recovered, state) = on_recovery state;
     assert_that (\<not> recovered)
   }"

definition is_in_outage_tracks_error_and_recovery :: "unit option" where
  "is_in_outage_tracks_error_and_recovery = do {
     let state = make_state;
     assert_that (\<not> is_in_outage state);
     state \<leftarrow> on_err state 1;
     assert_that (is_in_outage state);
     let (_, state) = on_recovery state;
     assert_that (\<not> is_in_outage state)
   }"

definition backoff_starts_at_one_second_and_doubles :: "unit option" where
  "backoff_starts_at_one_second_and_doubles = do {
     let state = make_state;
     state \<leftarrow> on_err state 1;
     assert_eq (next_backoff state) (from_secs 2);
     state \<leftarrow> on_err state 1;
     assert_eq (next_backoff state) (from_secs 4)
   }"

definition backoff_caps_at_max :: "unit option" where
  "backoff_caps_at_max = do {
     let state = make_state;
     state \<leftarrow> on_err_times 6 state 1;
     assert_eq (next_backoff state) MAX_BACKOFF;
     state \<leftarrow> on_err state 1;
     assert_eq (next_backoff state) MAX_BACKOFF
   }"

definition backoff_resets_to_one_second_after_recovery :: "unit option" where
  "backoff_resets_to_one_second_after_recovery = do {
     let state = make_state;
     state \<leftarrow> on_err state 1;
     assert_eq (next_backoff state) (from_secs 2);
     let (_, state) = on_recovery state;
     assert_eq (next_backoff state) INITIAL_BACKOFF
   }"

definition same_error_kind_is_not_logged_twice :: "unit option" where
  "same_error_kind_is_not_logged_twice = do {
     let state = make_state;
     state \<leftarrow> on_err state 1;
     assert_eq (last_error_kind state) (Some 1);
     state \<leftarrow> on_err state 1;
     assert_eq (last_error_kind state) (Some 1)
   }"

definition different_error_kind_updates_last_error_kind :: "unit option" where
  "different_error_kind_updates_last_error_kind = do {
     let state = make_state;
     state \<leftarrow> on_err state 1;
     assert_eq (last_error_kind state) (Some 1);
     state \<leftarrow> on_err state 2;
     assert_eq (last_error_kind state) (Some 2)
   }"

section \<open>The tests of \<open>record_error\<close>\<close>

definition record_error_returns_true_for_new_kind :: "unit option" where
  "record_error_returns_true_for_new_kind = do {
     let state = make_state;
     let (logged, state, _) = record_error state 1 FakeErr ''ctx'';
     assert_that logged
   }"

definition record_error_returns_false_for_same_kind :: "unit option" where
  "record_error_returns_false_for_same_kind = do {
     let state = make_state;
     let (_, state, _) = record_error state 1 FakeErr ''ctx'';
     let (logged, state, _) = record_error state 1 FakeErr ''ctx'';
     assert_that (\<not> logged)
   }"

definition record_error_returns_true_for_different_kind :: "unit option" where
  "record_error_returns_true_for_different_kind = do {
     let state = make_state;
     let (_, state, _) = record_error state 1 FakeErr ''ctx'';
     let (logged, state, _) = record_error state 2 FakeErr ''ctx'';
     assert_that logged;
     assert_eq (last_error_kind state) (Some 2)
   }"

definition record_error_does_not_advance_backoff_timer :: "unit option" where
  "record_error_does_not_advance_backoff_timer = do {
     let state = make_state;
     let (_, state, _) = record_error state 1 FakeErr ''ctx'';
     assert_eq (next_backoff state) INITIAL_BACKOFF
   }"

definition record_error_marks_outage_in_progress :: "unit option" where
  "record_error_marks_outage_in_progress = do {
     let state = make_state;
     assert_that (\<not> is_in_outage state);
     let (_, state, _) = record_error state 1 FakeErr ''ctx'';
     assert_that (is_in_outage state)
   }"

definition record_error_outage_cleared_by_on_recovery :: "unit option" where
  "record_error_outage_cleared_by_on_recovery = do {
     let state = make_state;
     let (_, state, _) = record_error state 1 FakeErr ''ctx'';
     let (recovered, state) = on_recovery state;
     assert_that recovered;
     assert_that (\<not> is_in_outage state)
   }"

definition on_error_delegates_deduplication_to_record_error :: "unit option" where
  "on_error_delegates_deduplication_to_record_error = do {
     let state = make_state;
     state \<leftarrow> on_err state 1;
     let (logged, state, _) = record_error state 1 FakeErr ''ctx'';
     assert_that (\<not> logged)
   }"

section \<open>Runs of the helpers\<close>

lemma assert_that_bind [simp]: "Option.bind (assert_that b) f = (if b then f () else None)"
  by (simp add: assert_that_def)

lemma assert_that_passes [simp]: "assert_that b = Some () \<longleftrightarrow> b"
  by (simp add: assert_that_def)

lemma on_err_eq:
  assumes "outage_inv state"
  shows "on_err state k =
    Some \<lparr>last_error_kind = Some k, next_backoff = min (next_backoff state * 2) MAX_BACKOFF\<rparr>"
  by (simp add: on_err_def on_error_eq [OF assms])

lemma on_err_advance:
  "outage_inv \<lparr>last_error_kind = e, next_backoff = d\<rparr> \<Longrightarrow>
     on_err \<lparr>last_error_kind = e, next_backoff = d\<rparr> k =
       Some \<lparr>last_error_kind = Some k, next_backoff = min (d * 2) MAX_BACKOFF\<rparr>"
  by (simp add: on_err_eq)

lemma on_err_run:
  assumes "outage_inv state" and "next_backoff state = backoff_at n"
  shows "\<exists>state'. on_err_times m state k = Some state' \<and> outage_inv state' \<and>
    next_backoff state' = backoff_at (n + m)"
  using assms
proof (induction m arbitrary: state n)
  case (Suc m)
  let ?next = "\<lparr>last_error_kind = Some k, next_backoff = min (next_backoff state * 2) MAX_BACKOFF\<rparr>"
  have "next_backoff ?next = backoff_at (Suc n)"
    by (simp add: Suc.prems(2) backoff_at_Suc)
  from Suc.IH [OF outage_inv_advance [OF Suc.prems(1)] this] show ?case
    by (simp add: on_err_eq [OF Suc.prems(1)])
qed simp

lemmas backoff_test_simps = make_state_def outage_default_def on_err_advance on_recovery_def
  record_error_def is_in_outage_def outage_inv_def backoff_consts

section \<open>Property\<close>

definition backoff_tests :: "unit option list" where
  "backoff_tests =
     [on_recovery_returns_false_when_no_outage,
      on_recovery_returns_true_after_error_then_false_again,
      is_in_outage_tracks_error_and_recovery,
      backoff_starts_at_one_second_and_doubles,
      backoff_caps_at_max,
      backoff_resets_to_one_second_after_recovery,
      same_error_kind_is_not_logged_twice,
      different_error_kind_updates_last_error_kind,
      record_error_returns_true_for_new_kind,
      record_error_returns_false_for_same_kind,
      record_error_returns_true_for_different_kind,
      record_error_does_not_advance_backoff_timer,
      record_error_marks_outage_in_progress,
      record_error_outage_cleared_by_on_recovery,
      on_error_delegates_deduplication_to_record_error]"

lemma backoff_caps_at_max_passes: "backoff_caps_at_max = Some ()"
proof -
  have "outage_inv make_state" and "next_backoff make_state = backoff_at 0"
    using outage_inv_default by (simp_all add: make_state_def backoff_at_0 outage_default_def)
  then obtain s6 where s6: "on_err_times 6 make_state 1 = Some s6" "outage_inv s6"
    "next_backoff s6 = backoff_at 6"
    using on_err_run [of make_state 0 6 1] by auto
  have cap: "backoff_at 6 = MAX_BACKOFF"
    by (simp add: backoff_at_def backoff_consts)
  show ?thesis
    by (simp add: backoff_caps_at_max_def s6 cap on_err_eq [OF s6(2)])
qed

lemma error_tests_pass:
  "on_recovery_returns_true_after_error_then_false_again = Some ()"
  "is_in_outage_tracks_error_and_recovery = Some ()"
  "backoff_starts_at_one_second_and_doubles = Some ()"
  "backoff_resets_to_one_second_after_recovery = Some ()"
  "same_error_kind_is_not_logged_twice = Some ()"
  "different_error_kind_updates_last_error_kind = Some ()"
  "on_error_delegates_deduplication_to_record_error = Some ()"
  by (simp_all add: backoff_test_simps
      on_recovery_returns_true_after_error_then_false_again_def
      is_in_outage_tracks_error_and_recovery_def backoff_starts_at_one_second_and_doubles_def
      backoff_resets_to_one_second_after_recovery_def same_error_kind_is_not_logged_twice_def
      different_error_kind_updates_last_error_kind_def
      on_error_delegates_deduplication_to_record_error_def)

lemma record_tests_pass:
  "on_recovery_returns_false_when_no_outage = Some ()"
  "record_error_returns_true_for_new_kind = Some ()"
  "record_error_returns_false_for_same_kind = Some ()"
  "record_error_returns_true_for_different_kind = Some ()"
  "record_error_does_not_advance_backoff_timer = Some ()"
  "record_error_marks_outage_in_progress = Some ()"
  "record_error_outage_cleared_by_on_recovery = Some ()"
  by (simp_all add: backoff_test_simps
      on_recovery_returns_false_when_no_outage_def record_error_returns_true_for_new_kind_def
      record_error_returns_false_for_same_kind_def record_error_returns_true_for_different_kind_def
      record_error_does_not_advance_backoff_timer_def record_error_marks_outage_in_progress_def
      record_error_outage_cleared_by_on_recovery_def)

text \<open>
  The model passes every test the source file keeps for \<open>OutageState\<close>: no assertion of the
  fifteen test functions fails and no call in them panics.
\<close>

theorem backoff_tests_pass: "list_all (\<lambda>result. result = Some ()) backoff_tests"
  by (simp add: backoff_tests_def error_tests_pass record_tests_pass backoff_caps_at_max_passes)

end
