(* ===== verification/Cache_Tests.thy ===== *)
theory Cache_Tests
  imports Backoff_Tests Cache Reconnect
begin

text \<open>
  The tests that \<^verbatim>\<open>src/src/cache.rs\<close> keeps beside the cache (its module \<open>tests\<close>), as functions of
  the broadcast channel, the instant and the state of the process they start in: the tests of one
  binary share the process-wide cache. \<open>None\<close> is a failed assertion or a failed \<open>expect\<close>.
\<close>

section \<open>The tests\<close>

text \<open>A task that does nothing until its token is cancelled.\<close>

definition dummy_test_runtime :: "bool \<Rightarrow> string \<Rightarrow> string \<Rightarrow> nat \<Rightarrow> effect list \<times> unit loop_status" where
  "dummy_test_runtime cancel _ _ _ = ([], if cancel then Returned else Waiting ())"

type_synonym test_runtime = "bool \<Rightarrow> string \<Rightarrow> string \<Rightarrow> nat \<Rightarrow> effect list \<times> unit loop_status"

definition cached_runtime_starts_when_first_receiver_is_requested ::
  "('c, 'r) byte_broadcast \<Rightarrow> nat \<Rightarrow> ('c, test_runtime) process \<Rightarrow> unit option" where
  "cached_runtime_starts_when_first_receiver_is_requested B now s = do {
     let host = ''lazy-runtime-host'';
     let topic = ''lazy-runtime-topic'';
     let (_, s) = get_raw_stream B now host topic Kafka dummy_test_runtime s;
     let key = cache_key_new host topic Kafka;
     receivers \<leftarrow> map_option (\<lambda>entry. receiver_count B entry s) (hm_get (runtimes s) key);
     assert_eq 1 receivers
   }"

definition same_host_topic_shares_one_cache_entry ::
  "('c, 'r) byte_broadcast \<Rightarrow> nat \<Rightarrow> ('c, test_runtime) process \<Rightarrow> unit option" where
  "same_host_topic_shares_one_cache_entry B now s = do {
     let host = ''shared-runtime-host'';
     let topic = ''shared-runtime-topic'';
     let src = RedisPubSub;
     let (_, s) = get_raw_stream B now host topic src dummy_test_runtime s;
     let (_, s) = get_raw_stream B now host topic src dummy_test_runtime s;
     let key = cache_key_new host topic src;
     entry \<leftarrow> hm_get (runtimes s) key;
     assert_eq (receiver_count B entry s) 2;
     assert_eq (length (filter (\<lambda>k. ck_host k = host \<and> ck_topic k = topic \<and> ck_source k = src)
       (map fst (runtimes s)))) 1
   }"

section \<open>Subscribing twice\<close>

text \<open>The first caller for a key starts a runtime and is its only receiver.\<close>

lemma first_call_counted:
  assumes "broadcast_documented B H" and "hm_get (runtimes s) (cache_key_new h t src) = None"
    and "get_raw_stream B now h t src f s = (r, s')"
  obtains e where "hm_get (runtimes s') (cache_key_new h t src) = Some e" and "receiver_count B e s' = 1"
proof -
  let ?n = "next_handle s" and ?e = "\<lparr>cancel_token = next_handle s, sender = next_handle s, last_used = now\<rparr>"
  have w: "get_raw_stream_write B now h t src f s = (r, s')"
    using assms(3) by (simp add: get_raw_stream_eq_write)
  obtain q0 c0 where c0: "ch_channel B DEFAULT_CHANNEL_CAPACITY = (q0, c0)" by fastforce
  obtain q1 c1 where c1: "ch_subscribe B (ch_drop B q0 c0) = (q1, c1)" by fastforce
  have "chans s' ?n = c1"
    using w assms(2) by (auto simp: cache_defs_all c0 c1)
  moreover have "ch_receiver_count B c1 = 1"
    using documented_subscribe(4) [OF assms(1) c1] documented_drop(3) [OF assms(1), of q0 c0]
      documented_channel(4) [OF assms(1) c0] by simp
  moreover have "hm_get (runtimes s') (cache_key_new h t src) = Some ?e"
    by (simp add: get_raw_stream_write_miss(1) [OF assms(2) w] hm_get_def)
  ultimately show ?thesis using that by (simp add: receiver_count_def)
qed

text \<open>A later caller joins it.\<close>

lemma later_call_counted:
  assumes "broadcast_documented B H" and "hm_get (runtimes s) (cache_key_new h t src) = Some e"
    and "get_raw_stream B now h t src f s = (r, s')"
  shows "hm_get (runtimes s') (cache_key_new h t src) = Some e"
    and "receiver_count B e s' = Suc (receiver_count B e s)" and "runtimes s' = runtimes s"
proof -
  have g: "cached_get_stream B e s = (r, s')"
    using assms(2,3) by (simp add: get_raw_stream_eq_write get_raw_stream_write_def)
  show "runtimes s' = runtimes s" using cached_get_stream_frame(1) [OF g] .
  then show "hm_get (runtimes s') (cache_key_new h t src) = Some e" by (simp add: assms(2))
  obtain q c where q: "ch_subscribe B (chans s (sender e)) = (q, c)" by fastforce
  with g documented_subscribe(4) [OF assms(1) q] show "receiver_count B e s' = Suc (receiver_count B e s)"
    by (auto simp: cached_get_stream_def receiver_count_def)
qed

lemma count_key:
  fixes k :: cache_key
  assumes "distinct ks" and "k \<in> set ks"
  shows "length (filter (\<lambda>j. ck_host j = ck_host k \<and> ck_topic j = ck_topic k \<and> ck_source j = ck_source k) ks) = 1"
proof -
  have "(\<lambda>j :: cache_key. ck_host j = ck_host k \<and> ck_topic j = ck_topic k \<and> ck_source j = ck_source k) = (\<lambda>j. k = j)"
    by (auto intro: cache_key.equality)
  with assms show ?thesis by (simp add: distinct_length_filter Collect_conv_if)
qed

section \<open>Property\<close>

text \<open>
  C32: The model passes the tests the source file keeps for the cache, with any channel that
  counts its receivers as documented and at any time, in every state the process can be in when
  the two keys of the tests are not in the cache yet, whatever else is.
\<close>

theorem cache_tests_pass:
  assumes "broadcast_documented B H" and "cache_reachable B (s, ps)"
    and "hm_get (runtimes s) (cache_key_new ''lazy-runtime-host'' ''lazy-runtime-topic'' Kafka) = None"
    and "hm_get (runtimes s) (cache_key_new ''shared-runtime-host'' ''shared-runtime-topic'' RedisPubSub) = None"
  shows "cached_runtime_starts_when_first_receiver_is_requested B now s = Some () \<and>
    same_host_topic_shares_one_cache_entry B now s = Some ()"
proof
  obtain r1 s1 where g1: "get_raw_stream B now ''lazy-runtime-host'' ''lazy-runtime-topic'' Kafka dummy_test_runtime s = (r1, s1)"
    by fastforce
  show "cached_runtime_starts_when_first_receiver_is_requested B now s = Some ()"
    by (rule first_call_counted [OF assms(1,3) g1])
      (simp add: cached_runtime_starts_when_first_receiver_is_requested_def g1)
next
  let ?k = "cache_key_new ''shared-runtime-host'' ''shared-runtime-topic'' RedisPubSub"
  let ?get = "get_raw_stream B now ''shared-runtime-host'' ''shared-runtime-topic'' RedisPubSub dummy_test_runtime"
  obtain r1 s1 where g1: "?get s = (r1, s1)" by fastforce
  obtain r2 s2 where g2: "?get s1 = (r2, s2)" by fastforce
  obtain e where e: "hm_get (runtimes s1) ?k = Some e" "receiver_count B e s1 = 1"
    by (rule first_call_counted [OF assms(1,4) g1])
  note second = later_call_counted [OF assms(1) e(1) g2]
  have "cache_inv s1"
    using cache_inv_write [of s B now _ _ _ _ r1 s1] g1 cache_reachable_inv [OF assms(2)]
    by (simp add: get_raw_stream_eq_write)
  then have "distinct (map fst (runtimes s2))"
    by (simp add: second(3) cache_inv_def hm_wf_def)
  moreover have "?k \<in> set (map fst (runtimes s2))"
    using hm_get_SomeD [OF second(1)] by force
  ultimately have "length (filter (\<lambda>j. ck_host j = ck_host ?k \<and> ck_topic j = ck_topic ?k \<and> ck_source j = ck_source ?k)
      (map fst (runtimes s2))) = 1"
    by (rule count_key)
  then show "same_host_topic_shares_one_cache_entry B now s = Some ()"
    using second e(2)
    by (simp add: same_host_topic_shares_one_cache_entry_def g1 g2) (simp add: cache_key_new_def)
qed

theorem cache_tests_pass_witness:
  "let s = process_init (\<lambda>_. \<lparr>lc_sent = [], lc_capacity = 0, lc_receivers = 0\<rparr>) in
   cached_runtime_starts_when_first_receiver_is_requested log_broadcast 7 s = Some () \<and>
   same_host_topic_shares_one_cache_entry log_broadcast 7 s = Some ()"
  unfolding Let_def
  by (rule cache_tests_pass [OF log_broadcast_documented cache_reachable.start])
    (simp_all add: process_init_def)

end
