(* ===== verification/Source_Tests.thy ===== *)
theory Source_Tests
  imports Backoff_Tests Traits Mock_Redis
begin

text \<open>
  The unit tests the repository keeps in files of their own, as far as they need no server:
  \<^verbatim>\<open>src/src/tests.rs\<close> for messages and errors, with its message type that stands for a consumer's
  own, and \<^verbatim>\<open>src/src/redis_impls/testing_utils/tests.rs\<close> for the parser and the store of the mock
  server. With those of theory \<open>Backoff_Tests\<close> they are one list, which the model passes.
\<close>

section \<open>A message type outside the crate\<close>

record slice_message =
  sl_key :: "bytes option"
  sl_value :: bytes

definition slice_new :: "bytes option \<Rightarrow> bytes \<Rightarrow> slice_message" where
  "slice_new key value = \<lparr>sl_key = key, sl_value = value\<rparr>"

definition slice_from_value :: "bytes \<Rightarrow> slice_message" where
  "slice_from_value value = \<lparr>sl_key = None, sl_value = value\<rparr>"

definition slice_from_bytes :: "bytes option \<Rightarrow> bytes \<Rightarrow> slice_message" where
  "slice_from_bytes key value = \<lparr>sl_key = map_option (\<lambda>bytes. bytes) key, sl_value = value\<rparr>"

definition slice_extract_key :: "slice_message \<Rightarrow> bytes option" where
  "slice_extract_key m = sl_key m"

definition slice_extract_key_value :: "slice_message \<Rightarrow> bytes option \<times> bytes" where
  "slice_extract_key_value m = (sl_key m, sl_value m)"

definition slice_extract_value :: "slice_message \<Rightarrow> bytes" where
  "slice_extract_value m = sl_value m"

definition slice_into_bytes :: "slice_message \<Rightarrow> byte_message" where
  "slice_into_bytes m = byte_new (sl_key m) (sl_value m)"

definition slice_key :: "slice_message \<Rightarrow> bytes option" where
  "slice_key m = sl_key m"

definition slice_value :: "slice_message \<Rightarrow> bytes" where
  "slice_value m = sl_value m"

definition slice_from :: "byte_message \<Rightarrow> slice_message" where
  "slice_from bytes = (let (key, value) = byte_extract_key_value bytes in \<lparr>sl_key = key, sl_value = value\<rparr>)"

definition slice_message_impl :: "(bytes, bytes, slice_message) message_impl" where
  "slice_message_impl =
     \<lparr>mi_new = slice_new, mi_from_value = slice_from_value, mi_from_bytes = slice_from_bytes,
      mi_extract_key = slice_extract_key, mi_extract_key_value = slice_extract_key_value,
      mi_extract_value = slice_extract_value, mi_into_bytes = (\<lambda>m. Ret (slice_into_bytes m)),
      mi_key = slice_key, mi_key_ref = slice_key, mi_value = slice_value, mi_value_ref = slice_value,
      mi_from = slice_from\<rparr>"

lemmas slice_defs = slice_new_def slice_from_value_def slice_from_bytes_def slice_extract_key_def
  slice_extract_key_value_def slice_extract_value_def slice_into_bytes_def slice_key_def
  slice_value_def slice_from_def

text \<open>It keeps the laws of the trait, so what holds of every message type holds of it.\<close>

interpretation slice_msg: message_codec slice_new slice_from_value slice_key slice_value
  slice_extract_key slice_extract_key_value slice_extract_value slice_from_bytes slice_into_bytes
  slice_from "\<lambda>_. True"
  by unfold_locales (simp_all add: slice_defs byte_defs option.map_ident)

lemma slice_message_laws: "message_laws slice_message_impl"
  by (simp add: message_laws_def slice_message_impl_def slice_defs byte_defs option.map_ident)

section \<open>Errors\<close>

text \<open>\<open>Debug\<close> of the strings that occur here, none of which needs an escape.\<close>

definition quoted :: "string \<Rightarrow> string" where
  "quoted s = CHR 0x22 # s @ [CHR 0x22]"

definition pubsub_error_default_and_display_without_cause :: "unit option" where
  "pubsub_error_default_and_display_without_cause = do {
     let err = pubsub_error_default;
     assert_eq None (cause_message err);
     assert_eq CANNED_ERR_MESSAGE (pubsub_error_display err)
   }"

definition pubsub_error_from_debug_captures_debug_cause :: "unit option" where
  "pubsub_error_from_debug_captures_debug_cause = do {
     let err = from_debug (pubsub_error_debug quoted pubsub_error_default);
     assert_eq (Some ''PubSubError { cause: None }'') (cause_message err);
     assert_eq CANNED_ERR_MESSAGE (pubsub_error_display err);
     assert_eq (''PubSubError { cause: Some('' @ quoted ''PubSubError { cause: None }'' @ '') }'')
       (pubsub_error_debug quoted err)
   }"

section \<open>Byte messages\<close>

definition byte_message_new_and_accessors_preserve_key_and_value :: "unit option" where
  "byte_message_new_and_accessors_preserve_key_and_value = do {
     let key = Some [1, 2, 3];
     let value = [4, 5, 6];
     let message = byte_new key value;
     assert_eq key (byte_key message);
     assert_eq value (byte_value message)
   }"

definition byte_message_from_value_has_no_key :: "unit option" where
  "byte_message_from_value_has_no_key = do {
     let value = [7, 8, 9];
     let message = byte_from_value value;
     assert_eq None (byte_key message);
     assert_eq value (byte_value message)
   }"

definition byte_message_from_bytes_clones_input_slices :: "unit option" where
  "byte_message_from_bytes_clones_input_slices = do {
     let key = into_bytes_str ''byte-key'';
     let value = into_bytes_str ''byte-value'';
     let message = byte_from_bytes (Some key) value;
     assert_eq (Some key) (byte_key message);
     assert_eq value (byte_value message)
   }"

definition byte_message_extract_key_returns_owned_key :: "unit option" where
  "byte_message_extract_key_returns_owned_key = do {
     let key = Some [1, 2, 3];
     let message = byte_new key [4, 5, 6];
     assert_eq key (byte_extract_key message)
   }"

definition byte_message_extract_value_returns_owned_value :: "unit option" where
  "byte_message_extract_value_returns_owned_value = do {
     let value = [4, 5, 6];
     let message = byte_new (Some [1, 2, 3]) value;
     assert_eq value (byte_extract_value message)
   }"

definition byte_message_extract_key_value_returns_owned_parts :: "unit option" where
  "byte_message_extract_key_value_returns_owned_parts = do {
     let key = Some [1, 2, 3];
     let value = [4, 5, 6];
     let message = byte_new key value;
     assert_eq (key, value) (byte_extract_key_value message)
   }"

definition byte_message_extractors_handle_missing_key :: "unit option" where
  "byte_message_extractors_handle_missing_key = do {
     let value = [7, 8, 9];
     assert_eq None (byte_extract_key (byte_from_value value));
     assert_eq (None, value) (byte_extract_key_value (byte_from_value value));
     assert_eq value (byte_extract_value (byte_from_value [7, 8, 9]))
   }"

section \<open>String messages\<close>

definition string_message_new_and_from_value_are_consistent :: "unit option" where
  "string_message_new_and_from_value_are_consistent = do {
     let keyed = string_new (Some ''some key'') ''some text'';
     assert_eq (Some ''some key'') (string_key keyed);
     assert_eq ''some text'' (string_value keyed);
     let unkeyed = string_from_value ''payload'';
     assert_eq None (string_key unkeyed);
     assert_eq ''payload'' (string_value unkeyed)
   }"

definition string_message_into_bytes_round_trips_key_and_value :: "unit option" where
  "string_message_into_bytes_round_trips_key_and_value = do {
     let message = string_new (Some ''into-key'') ''into-value'';
     let bytes = string_into_bytes message;
     assert_eq (Some (into_bytes_str ''into-key'')) (byte_key bytes);
     assert_eq (into_bytes_str ''into-value'') (byte_value bytes);
     assert_eq message (string_from bytes)
   }"

text \<open>The replacement character is the bytes EF BF BD.\<close>

definition string_message_from_byte_message_uses_lossy_utf8_decoding :: "unit option" where
  "string_message_from_byte_message_uses_lossy_utf8_decoding = do {
     let original = byte_new (Some [0x66, 0x6f, 0x80]) [0x76, 0x61, 0x80];
     let converted = string_from original;
     assert_eq (Some (''fo'' @ str_of_bytes [0xEF, 0xBF, 0xBD])) (string_key converted);
     assert_eq (''va'' @ str_of_bytes [0xEF, 0xBF, 0xBD]) (string_value converted)
   }"

definition string_message_from_bytes_handles_missing_key :: "unit option" where
  "string_message_from_bytes_handles_missing_key = do {
     let message = string_from_bytes None (into_bytes_str ''payload'');
     assert_eq None (string_key message);
     assert_eq ''payload'' (string_value message)
   }"

definition string_message_extract_key_returns_owned_key :: "unit option" where
  "string_message_extract_key_returns_owned_key = do {
     let key = Some ''some key'';
     let message = string_new key ''some text'';
     assert_eq key (string_extract_key message)
   }"

definition string_message_extract_value_returns_owned_value :: "unit option" where
  "string_message_extract_value_returns_owned_value = do {
     let value = ''some text'';
     let message = string_new (Some ''some key'') value;
     assert_eq value (string_extract_value message)
   }"

definition string_message_extract_key_value_returns_owned_parts :: "unit option" where
  "string_message_extract_key_value_returns_owned_parts = do {
     let key = Some ''some key'';
     let value = ''some text'';
     let message = string_new key value;
     assert_eq (key, value) (string_extract_key_value message)
   }"

definition string_message_extractors_handle_missing_key :: "unit option" where
  "string_message_extractors_handle_missing_key = do {
     let value = ''payload'';
     assert_eq None (string_extract_key (string_from_value value));
     assert_eq (None, value) (string_extract_key_value (string_from_value value));
     assert_eq value (string_extract_value (string_from_value ''payload''))
   }"

definition message_borrowed_views_use_slices_and_strs :: "unit option" where
  "message_borrowed_views_use_slices_and_strs = do {
     let bytes = byte_new (Some [1, 2, 3]) [4, 5, 6];
     let text = string_new (Some ''hello'') ''world'';
     assert_eq (Some [1, 2, 3]) (byte_key bytes);
     assert_eq [4, 5, 6] (byte_value bytes);
     assert_eq (Some ''hello'') (string_key text);
     assert_eq ''world'' (string_value text)
   }"

section \<open>The type outside the crate\<close>

definition custom_message_can_expose_slice_borrowed_views :: "unit option" where
  "custom_message_can_expose_slice_borrowed_views = do {
     let message = slice_from_bytes (Some (into_bytes_str ''custom-key'')) (into_bytes_str ''custom-value'');
     assert_eq (Some (into_bytes_str ''custom-key'')) (slice_key message);
     assert_eq (into_bytes_str ''custom-value'') (slice_value message)
   }"

definition custom_message_round_trips_through_byte_message_backbone :: "unit option" where
  "custom_message_round_trips_through_byte_message_backbone = do {
     let message = slice_from_bytes (Some (into_bytes_str ''custom-key'')) (into_bytes_str ''custom-value'');
     assert_eq (byte_new (Some (into_bytes_str ''custom-key'')) (into_bytes_str ''custom-value''))
       (slice_into_bytes message);
     assert_eq (Some (into_bytes_str ''custom-key''), into_bytes_str ''custom-value'')
       (slice_extract_key_value message)
   }"

section \<open>The parser of the mock server\<close>

text \<open>A panic fails a test, as does \<open>unwrap\<close> of \<open>None\<close>. All texts are ASCII.\<close>

fun returned :: "'a outcome \<Rightarrow> 'a option" where
  "returned Panic = None"
| "returned (Ret x) = Some x"

definition parse_bulk_token_reads_complete_token :: "unit option" where
  "parse_bulk_token_reads_complete_token = do {
     parsed \<leftarrow> returned (parse_bulk_token (''hello'' @ CRLF @ ''rest'') 5);
     assert_eq (Some (''hello'', ''rest'')) parsed
   }"

definition parse_bulk_token_returns_none_for_incomplete_input :: "unit option" where
  "parse_bulk_token_returns_none_for_incomplete_input = do {
     parsed \<leftarrow> returned (parse_bulk_token ''hel'' 5);
     assert_eq None parsed;
     parsed \<leftarrow> returned (parse_bulk_token ''hello--rest'' 5);
     assert_eq None parsed
   }"

definition parse_one_resp_array_parses_complete_command :: "unit option" where
  "parse_one_resp_array_parses_complete_command = do {
     let input = ''*3'' @ CRLF @ ''$7'' @ CRLF @ ''PUBLISH'' @ CRLF @ ''$5'' @ CRLF @ ''topic'' @ CRLF @
       ''$7'' @ CRLF @ ''payload'' @ CRLF @ ''rest'';
     parsed \<leftarrow> returned (parse_one_resp_array id input);
     (command, response) \<leftarrow> parsed;
     assert_eq (command.Publish ''topic'' ''payload'') command;
     assert_eq ''rest'' response
   }"

definition parse_one_resp_array_returns_none_for_partial_input :: "unit option" where
  "parse_one_resp_array_returns_none_for_partial_input = do {
     let input = ''*2'' @ CRLF @ ''$7'' @ CRLF @ ''PUBLISH'' @ CRLF @ ''$5'' @ CRLF @ ''top'';
     parsed \<leftarrow> returned (parse_one_resp_array id input);
     assert_eq None parsed
   }"

definition parse_resp_command_parses_inline_command :: "unit option" where
  "parse_resp_command_parses_inline_command = do {
     parsed \<leftarrow> parse_resp_command id ''publish topic payload'';
     assert_eq (command.Publish ''topic'' ''payload'') parsed
   }"

definition parse_resp_commands_parses_mixed_inline_and_resp_input :: "unit option" where
  "parse_resp_commands_parses_mixed_inline_and_resp_input = do {
     let input = ''PING'' @ CRLF @ ''*3'' @ CRLF @ ''$7'' @ CRLF @ ''PUBLISH'' @ CRLF @ ''$5'' @ CRLF @ ''topic'' @ CRLF @
       ''$7'' @ CRLF @ ''payload'' @ CRLF;
     (commands, consumed) \<leftarrow> returned (parse_resp_commands id input);
     assert_eq [command.Unknown ''PING'' [], command.Publish ''topic'' ''payload''] commands;
     assert_eq (length input) consumed
   }"

definition split_line_splits_resp_line :: "unit option" where
  "split_line_splits_resp_line = do {
     parsed \<leftarrow> split_line (''HELLO'' @ CRLF @ ''WORLD'');
     assert_eq (''HELLO'', ''WORLD'') parsed
   }"

definition stream_state_keeps_entries_per_topic :: "unit option" where
  "stream_state_keeps_entries_per_topic = do {
     let state = [];
     let (first_id, state) = stream_push state ''topic-a'' [(''data'', ''first'')];
     let (second_id, state) = stream_push state ''topic-b'' [(''data'', ''second'')];
     assert_eq ''1-0'' first_id;
     assert_eq ''1-0'' second_id;
     assert_eq [\<lparr>se_id = ''1-0'', se_fields = [(''data'', ''first'')]\<rparr>] (stream_all state ''topic-a'');
     assert_eq [\<lparr>se_id = ''1-0'', se_fields = [(''data'', ''second'')]\<rparr>] (stream_all state ''topic-b'')
   }"

section \<open>All of them\<close>

definition message_tests :: "unit option list" where
  "message_tests =
     [pubsub_error_default_and_display_without_cause,
      pubsub_error_from_debug_captures_debug_cause,
      byte_message_new_and_accessors_preserve_key_and_value,
      byte_message_from_value_has_no_key,
      byte_message_from_bytes_clones_input_slices,
      byte_message_extract_key_returns_owned_key,
      byte_message_extract_value_returns_owned_value,
      byte_message_extract_key_value_returns_owned_parts,
      byte_message_extractors_handle_missing_key,
      string_message_new_and_from_value_are_consistent,
      string_message_into_bytes_round_trips_key_and_value,
      string_message_from_byte_message_uses_lossy_utf8_decoding,
      string_message_from_bytes_handles_missing_key,
      string_message_extract_key_returns_owned_key,
      string_message_extract_value_returns_owned_value,
      string_message_extract_key_value_returns_owned_parts,
      string_message_extractors_handle_missing_key,
      message_borrowed_views_use_slices_and_strs,
      custom_message_can_expose_slice_borrowed_views,
      custom_message_round_trips_through_byte_message_backbone]"

definition mock_server_tests :: "unit option list" where
  "mock_server_tests =
     [parse_bulk_token_reads_complete_token,
      parse_bulk_token_returns_none_for_incomplete_input,
      parse_one_resp_array_parses_complete_command,
      parse_one_resp_array_returns_none_for_partial_input,
      parse_resp_command_parses_inline_command,
      parse_resp_commands_parses_mixed_inline_and_resp_input,
      split_line_splits_resp_line,
      stream_state_keeps_entries_per_topic]"

lemma plain_message_tests_pass:
  "pubsub_error_default_and_display_without_cause = Some ()"
  "byte_message_new_and_accessors_preserve_key_and_value = Some ()"
  "byte_message_from_value_has_no_key = Some ()"
  "byte_message_from_bytes_clones_input_slices = Some ()"
  "byte_message_extract_key_returns_owned_key = Some ()"
  "byte_message_extract_value_returns_owned_value = Some ()"
  "byte_message_extract_key_value_returns_owned_parts = Some ()"
  "byte_message_extractors_handle_missing_key = Some ()"
  "string_message_new_and_from_value_are_consistent = Some ()"
  "string_message_extract_key_returns_owned_key = Some ()"
  "string_message_extract_value_returns_owned_value = Some ()"
  "string_message_extract_key_value_returns_owned_parts = Some ()"
  "string_message_extractors_handle_missing_key = Some ()"
  "message_borrowed_views_use_slices_and_strs = Some ()"
  "custom_message_can_expose_slice_borrowed_views = Some ()"
  "custom_message_round_trips_through_byte_message_backbone = Some ()"
  by (simp_all add: byte_defs string_defs slice_defs option.map_ident cause_message_def pubsub_error_display_def
      pubsub_error_default_def pubsub_error_default_and_display_without_cause_def
      byte_message_new_and_accessors_preserve_key_and_value_def
      byte_message_from_value_has_no_key_def
      byte_message_from_bytes_clones_input_slices_def
      byte_message_extract_key_returns_owned_key_def
      byte_message_extract_value_returns_owned_value_def
      byte_message_extract_key_value_returns_owned_parts_def
      byte_message_extractors_handle_missing_key_def
      string_message_new_and_from_value_are_consistent_def
      string_message_extract_key_returns_owned_key_def
      string_message_extract_value_returns_owned_value_def
      string_message_extract_key_value_returns_owned_parts_def
      string_message_extractors_handle_missing_key_def
      message_borrowed_views_use_slices_and_strs_def
      custom_message_can_expose_slice_borrowed_views_def
      custom_message_round_trips_through_byte_message_backbone_def)

lemma nested_error_test_passes: "pubsub_error_from_debug_captures_debug_cause = Some ()"
  by (simp add: pubsub_error_from_debug_captures_debug_cause_def from_debug_def cause_message_def
      pubsub_error_display_def pubsub_error_debug_def pubsub_error_default_def)

lemma string_round_trip_test_passes: "string_message_into_bytes_round_trips_key_and_value = Some ()"
proof -
  have "string_wf (string_new (Some ''into-key'') ''into-value'')"
    by (simp add: string_wf_def string_defs valid_str_ascii)
  from string_from_into_bytes [OF this] show ?thesis
    by (simp add: string_message_into_bytes_round_trips_key_and_value_def)
      (simp add: string_defs byte_defs)
qed

lemma lossy_test_passes: "string_message_from_byte_message_uses_lossy_utf8_decoding = Some ()"
  by code_simp

lemma missing_key_test_passes: "string_message_from_bytes_handles_missing_key = Some ()"
proof -
  have "string_wf (string_from_value ''payload'')"
    by (simp add: string_wf_def string_defs valid_str_ascii)
  from string_from_into_bytes [OF this] show ?thesis
    by (simp add: string_message_from_bytes_handles_missing_key_def string_from_eq string_defs)
qed

lemma token_tests_pass:
  "parse_bulk_token_reads_complete_token = Some ()"
  "parse_bulk_token_returns_none_for_incomplete_input = Some ()"
  "split_line_splits_resp_line = Some ()"
  by (simp_all add: parse_bulk_token_def split_line_def is_char_boundary_def is_cont_def byte_of_char_def CRLF_def
      parse_bulk_token_reads_complete_token_def parse_bulk_token_returns_none_for_incomplete_input_def
      split_line_splits_resp_line_def)

lemma inline_test_passes: "parse_resp_command_parses_inline_command = Some ()"
  by code_simp

lemma store_test_passes: "stream_state_keeps_entries_per_topic = Some ()"
  by code_simp

text \<open>The command of the parser tests is what an encoder of arrays makes of its three words.\<close>

lemma publish_text:
  "''*3'' @ CRLF @ ''$7'' @ CRLF @ ''PUBLISH'' @ CRLF @ ''$5'' @ CRLF @ ''topic'' @ CRLF @ ''$7'' @ CRLF @ ''payload'' @ CRLF @ rest =
   resp_array [''PUBLISH'', ''topic'', ''payload''] @ rest"
proof -
  have "resp_array [''PUBLISH'', ''topic'', ''payload''] =
      ''*3'' @ CRLF @ ''$7'' @ CRLF @ ''PUBLISH'' @ CRLF @ ''$5'' @ CRLF @ ''topic'' @ CRLF @ ''$7'' @ CRLF @ ''payload'' @ CRLF"
    by code_simp
  then show ?thesis by simp
qed

lemma publish_parsed:
  "parse_next id (resp_array [''PUBLISH'', ''topic'', ''payload''] @ rest) = Ret (Some (command.Publish ''topic'' ''payload'', rest))"
proof -
  have "from_parts (to_uppercase id ''PUBLISH'') [''topic'', ''payload''] = command.Publish ''topic'' ''payload''"
    by code_simp
  then show ?thesis by (simp add: parse_next_resp_array)
qed

lemma complete_test_passes: "parse_one_resp_array_parses_complete_command = Some ()"
proof -
  have "parse_one_resp_array id (resp_array [''PUBLISH'', ''topic'', ''payload''] @ ''rest'') =
      parse_next id (resp_array [''PUBLISH'', ''topic'', ''payload''] @ ''rest'')"
    by (simp add: parse_next_def resp_array_def)
  then show ?thesis
    by (simp only: parse_one_resp_array_parses_complete_command_def publish_text publish_parsed Let_def) simp
qed

lemma partial_test_passes: "parse_one_resp_array_returns_none_for_partial_input = Some ()"
proof -
  let ?rest = "''$7'' @ CRLF @ ''PUBLISH'' @ CRLF @ ''$5'' @ CRLF @ ''top''"
  have s: "split_line (''*2'' @ CRLF @ ?rest) = Some (''*2'', ?rest)"
    "split_line ?rest = Some (''$7'', ''PUBLISH'' @ CRLF @ ''$5'' @ CRLF @ ''top'')"
    "split_line (''$5'' @ CRLF @ ''top'') = Some (''$5'', ''top'')"
    by (simp_all add: split_line_def CRLF_def)
  have n: "parse_usize ''2'' = Some 2" "parse_usize ''7'' = Some 7" "parse_usize ''5'' = Some 5"
    by (simp_all add: parse_usize_def digit_val_def)
  have t: "parse_bulk_token (''PUBLISH'' @ CRLF @ ''$5'' @ CRLF @ ''top'') 7 = Ret (Some (''PUBLISH'', ''$5'' @ CRLF @ ''top''))"
    "parse_bulk_token ''top'' 5 = Ret None"
    by (simp_all add: parse_bulk_token_def is_char_boundary_def is_cont_def byte_of_char_def CRLF_def)
  have "parse_tokens (Suc (Suc 0)) [] ?rest = Ret None"
    using s(2,3) n t by simp
  then have "parse_tokens 2 [] ?rest = Ret None"
    by (simp only: numeral_2_eq_2)
  then have "parse_one_resp_array id (''*2'' @ CRLF @ ?rest) = Ret None"
    using s(1) n by (simp add: parse_one_resp_array_def del: parse_tokens.simps)
  then show ?thesis
    unfolding parse_one_resp_array_returns_none_for_partial_input_def Let_def by simp
qed

lemma mixed_input_test_passes: "parse_resp_commands_parses_mixed_inline_and_resp_input = Some ()"
proof -
  let ?publish = "resp_array [''PUBLISH'', ''topic'', ''payload'']"
  have "parse_resp_command id ''PING'' = Some (Unknown ''PING'' [])"
    by code_simp
  then have 1: "parse_next id (''PING'' @ CRLF @ ?publish) = Ret (Some (Unknown ''PING'' [], ?publish))"
    by (simp add: parse_next_def split_line_def CRLF_def)
  have 3: "parse_next id [] = Ret None"
    by (simp add: parse_next_def split_line_def)
  have "parse_loop id ?publish [Unknown ''PING'' []] = Ret ([Unknown ''PING'' [], command.Publish ''topic'' ''payload''], [])"
    using publish_parsed [of "[]"] by (subst parse_loop.simps) (simp add: 3 parse_loop.simps [of id "[]"] resp_array_def)
  then have "parse_loop id (''PING'' @ CRLF @ ?publish) [] = Ret ([Unknown ''PING'' [], command.Publish ''topic'' ''payload''], [])"
    using 1 by (subst parse_loop.simps) simp
  then show ?thesis
    using publish_text [of "[]"]
    by (simp add: parse_resp_commands_parses_mixed_inline_and_resp_input_def parse_resp_commands_def Let_def)
qed

section \<open>All tests\<close>

text \<open>
  The model passes the unit tests of the repository that need no server: fifteen of
  \<open>OutageState\<close>, twenty of messages and errors, eight of the parser and the store of the mock
  server. No assertion fails and nothing panics.
\<close>

lemma source_tests_pass:
  "list_all (\<lambda>result. result = Some ()) (backoff_tests @ message_tests @ mock_server_tests)"
  using backoff_tests_pass
  by (simp add: message_tests_def mock_server_tests_def plain_message_tests_pass nested_error_test_passes
      string_round_trip_test_passes lossy_test_passes missing_key_test_passes token_tests_pass inline_test_passes
      store_test_passes partial_test_passes complete_test_passes mixed_input_test_passes)

end
