(* ===== verification/Spec2Isabelle.thy ===== *)
theory Spec2Isabelle
  imports Reaper_Time Kafka_Delivery Pubsub_Delivery Rehydration Redis_Connections Mock_Redis_Server Mock_Redis_Pubsub Stream_Ids
    Mock_Kafka_Cluster Cache_Tests Source_Tests
begin

text \<open>
  A verification library for the Rust crate \<^verbatim>\<open>rust-pubsub-lib\<close>, which gives one publish/subscribe
  interface over three backends: Kafka, native Redis pub/sub and Redis Streams.

  \<^bold>\<open>The program.\<close> A publisher turns a message into bytes and sends them through a cached client. A
  subscriber asks the process-wide cache of runtimes for a stream; the cache runs one background
  task per host, topic and backend, which reconnects for ever with exponential backoff and
  broadcasts what it receives; a reaper evicts runtimes nobody listens to. A snapshot reads what a
  topic retains. Two mock servers support tests.

  \<^bold>\<open>Theories and sources\<close> (paths below \<^verbatim>\<open>src/src\<close>).
  \<^item> \<open>Pubsub_Prelude\<close>: results, panics, hash maps as lists of entries in iteration order, \<open>retain\<close>.
  \<^item> \<open>Rust_Str\<close>: strings as bytes, UTF-8 validation and lossy decoding, decimal numbers.
  \<^item> \<open>Messages\<close>: \<^verbatim>\<open>lib.rs\<close>, the two message types, the trait's laws as the locales \<open>message_trait\<close> and
    \<open>message_codec\<close>, and \<open>PubSubError\<close>.
  \<^item> \<open>Effects\<close>: what a task does, as a list: log lines, waits, messages sent.
  \<^item> \<open>Backoff\<close>: \<^verbatim>\<open>backoff.rs\<close>; the locale \<open>outage\<close> is what the tasks rely on.
  \<^item> \<open>Double_Checked\<close>: the locale of a map filled by a look-up under the read lock and a second one under
    the write lock; interpreted for the runtimes, the Redis connections, the Kafka producers and the
    known mock topics.
  \<^item> \<open>Broadcast\<close>: what the broadcast channel of the asynchronous runtime documents, as the hypothesis
    \<open>broadcast_documented\<close> on a record of its operations, and a channel that fulfils it.
  \<^item> \<open>Cache\<close>: \<^verbatim>\<open>cache.rs\<close>, with the step relation \<open>cache_step\<close> for every interleaving of callers, reaper and
    channel users.
  \<^item> \<open>Redis_Values\<close>, \<open>Stream_Message\<close>, \<open>Redis_Stream\<close>: \<^verbatim>\<open>redis_impls/mod.rs\<close>,
    \<^verbatim>\<open>redis_impls/stream/stream_message.rs\<close>, \<^verbatim>\<open>redis_impls/stream/mod.rs\<close>.
  \<^item> \<open>Redis_Connections\<close>: the shared Redis connections under every interleaving of their users, as the
    step relation \<open>pool_step\<close> and as a function of a schedule.
  \<^item> \<open>Reconnect\<close>: the locales of a reconnect loop (\<open>reconnect_loop\<close>) and of a task that also survives
    outages and can be cancelled (\<open>task_loop\<close>), interpreted for the three tasks.
  \<^item> \<open>Redis_Stream_Runtime\<close>, \<open>Redis_Pubsub\<close>, \<open>Kafka_Runtime\<close>: the three \<open>start_stream\<close> functions with the
    loops they run on a connection, and the pub/sub publisher.
  \<^item> \<open>Kafka_Cache\<close>, \<open>Kafka\<close>: the producer cache with its atomic time stamps, the Kafka publisher and
    snapshot.
  \<^item> \<open>Publish\<close>: the contract of the trait \<open>Publisher\<close> of \<^verbatim>\<open>lib.rs\<close> as the locale \<open>publisher_trait\<close>, interpreted
    for the publish functions of the three backends.
  \<^item> \<open>Traits\<close>: the traits of \<^verbatim>\<open>lib.rs\<close> and \<open>StreamMessage\<close> as records of their methods, and every
    implementation of the crate as such a record.
  \<^item> \<open>Kafka_Log\<close>: publisher and snapshot over a topic of the broker, a log per partition.
  \<^item> \<open>Reaper_Time\<close>: the loops of the two reapers over time, with the locale \<open>idle_entry\<close> interpreted for
    runtimes and producers.
  \<^item> \<open>Task_Life\<close>: what the three tasks have in common: no panics, recovery, cancellation.
  \<^item> \<open>Subscribers\<close>, \<open>Delivery\<close>: the three subscriber types and \<open>get_stream\<close> of the cache; the way of a
    message from the task through the channel to the subscriber's stream.
  \<^item> \<open>Kafka_Delivery\<close>, \<open>Pubsub_Delivery\<close>: Kafka and native Redis pub/sub from publisher to subscriber.
    \<open>Rehydration\<close>: a Redis Stream subscriber that
    has lagged and takes a snapshot, as \<^verbatim>\<open>lib.rs\<close> and \<^verbatim>\<open>cache.rs\<close> advise.
  \<^item> \<open>Resp\<close>, \<open>Mock_Redis\<close>, \<open>Mock_Redis_Server\<close>:
    \<^verbatim>\<open>redis_impls/testing_utils/mod.rs\<close>: the wire protocol (\<open>prefix_parser\<close> is the locale of parsers that
    can be fed piece by piece), one connection, the server with all its connections as the step
    relation \<open>server_step\<close>.
  \<^item> \<open>Resp_Replies\<close>: protocol values with encoder and decoder, and the server's replies as such values.
  \<^item> \<open>Mock_Redis_Client\<close>, \<open>Mock_Redis_Pubsub\<close>: the crate's publisher, snapshot, polling loop and pub/sub
    task against that server.
  \<^item> \<open>Stream_Ids\<close>: entry identifiers in the order of Redis, an instance of \<open>linorder\<close>, against the order of
    their texts, which the mock server uses.
  \<^item> \<open>Mock_Kafka\<close>, \<open>Mock_Kafka_Cluster\<close>: \<^verbatim>\<open>kafka_impl/testing_utils/mod.rs\<close>: the lazily started cluster and
    \<open>Harness\<close>; concurrent calls and the worker thread as the step relation \<open>system_step\<close>.
  \<^item> \<open>Backoff_Tests\<close>, \<open>Cache_Tests\<close>, \<open>Source_Tests\<close>: the repository's unit tests of \<^verbatim>\<open>backoff.rs\<close>, \<^verbatim>\<open>cache.rs\<close>,
    \<^verbatim>\<open>tests.rs\<close> and of the parser and the store in \<^verbatim>\<open>redis_impls/testing_utils/tests.rs\<close>, one definition
    per test function in the option monad, where a failed assertion and a panic are \<open>None\<close>.

  \<^bold>\<open>How the code is read.\<close> A function that changes shared state takes and returns it. A critical
  section under a lock is one function, so that interleavings are sequences of such functions. An
  asynchronous loop is a function of the list of events that ended its waits (replies, errors,
  timeouts, cancellation) and returns what it did and where it stands; a list that ends early
  leaves it waiting, so no fuel is needed and every loop is total. Tasks that run at the same time
  are a step relation whose steps are the stretches between two points where a task can be
  suspended. Panics are values. Third-party
  code (the Redis and Kafka clients, serde, the broadcast channel, the environment lookup, Unicode
  case tables and \<open>Debug\<close> quoting) is a parameter; what is assumed of it is named:
  \<open>string_conversions\<close>, \<open>xread_documented\<close>, \<open>serde_roundtrip\<close>, \<open>broadcast_documented\<close>,
  \<open>wire_documented\<close>, \<open>subscribe_documented\<close> (how the Redis client writes commands and reads replies),
  \<open>server_pushes\<close> (what a subscribed Redis connection receives),
  \<open>consumer_sees\<close>, \<open>consumed_from\<close> and \<open>consumed_since\<close> (what a Kafka consumer sees of a topic).

  \<^bold>\<open>What is shown.\<close> No sequence of calls makes the backoff panic, its waits are 1, 2, 4 up to 30
  seconds and its log lines are deduplicated as specified; the three tasks inherit this, survive
  outages of any length and return when cancelled, through \<open>reconnect_loop\<close> and \<open>task_loop\<close>. Under every
  interleaving the cache has one running task per key, evicts exactly the idle runtimes, each
  within seventy seconds plus the delay of the reaper's loop, and a
  subscriber is fed by its own backend; if it keeps up it receives every message its task sends,
  and otherwise loses exactly what it is warned of; subscriptions share a channel exactly when they
  agree in backend, host and topic; for Redis Streams a snapshot makes good what a lag has cost, with
  the entries added meanwhile coming twice. Users of the shared Redis connections open at most one
  connection per host and failed poll more than the first. All publishers refine one abstract publisher,
  for every pattern of failures. Normalisation of Redis values computes the documented relation.
  The Redis Stream task follows the log without loss or repetition from the first entry on, up to
  the subscriber's stream. The Kafka snapshot is complete up to its bounds, ends in an error
  otherwise, it is stated exactly when it does not return, and texts published before it are in
  it; texts published to Kafka also reach a subscriber, after outages and with errors in between.
  Over native pub/sub a subscriber is given, in every lawful message type, exactly what was published
  while its task was connected. Messages survive the way from publisher to subscriber as this theory
  states for each backend. The RESP parser of the mock server does not depend on how reads cut the input, except for the characters a cut goes through,
  which are lost; each of its connections answers its own input, the commands of concurrent ones
  are linearizable, what it captures is found by its harness, its replies can be decoded, and it
  shuts down, up to empty reads of connections their clients have closed; the crate's own Redis code
  gets back from it what it published. The mock Kafka cluster cannot get stuck. The model passes the repository's unit tests, those of the cache with every channel that
  behaves as documented. Several theorems state behaviour that differs from a comment:
  \<open>repeated_drops_not_deduplicated\<close>, \<open>kafka_stream_end_no_backoff\<close>, \<open>grace_runs_from_stamp\<close>,
  \<open>xread_in_text_order\<close>, \<open>kafka_snapshot_waits_iff\<close>, \<open>returned_topics_requested\<close>,
  \<open>redis_stream_on_mock\<close>, \<open>healthy_connection_evicted\<close>.

  \<^bold>\<open>What is not modelled.\<close> The bodies of third-party code, failing memory allocation, the weak ordering
  of the relaxed atomics beyond the late store of \<open>Kafka_Cache\<close>, and time other than that of the two
  reapers: waits are recorded with their length, but no clock orders the events of different
  tasks. The retention of Kafka topics and the trimming of streams by the server are not part of
  \<open>Kafka_Log\<close> and of the mock server, which does not trim either. The tests that need sockets, a
  running server or real waits are not translated; what else the map of the library leaves out of
  \<^verbatim>\<open>src/src\<close> is documentation, imports and re-exports.
\<close>

section \<open>From publisher to subscriber\<close>

text \<open>
  The JSON library on one object of strings: it is encoded, and the encoding decodes to a string
  map with the same contents.
\<close>

definition serde_roundtrip :: "to_vec \<Rightarrow> map_from_slice \<Rightarrow> (string, string) fmap \<Rightarrow> bool" where
  "serde_roundtrip tv from_slice m \<longleftrightarrow>
     (\<exists>json fs. tv (JObject (fmmap JString m)) = Inr json \<and> from_slice json = Some fs \<and> map_of fs = fmlookup m)"

lemma object_of_string_fields:
  assumes "distinct (map fst fs)"
  shows "object_of_fields (map (\<lambda>(k, v). (k, into_bytes_str v)) fs) = JObject (fmmap JString (fmap_of_list fs))"
proof -
  let ?js = "map (\<lambda>(k, v). (k, JString v)) fs"
  have "distinct (map fst ?js)"
    using assms by (simp add: case_prod_unfold comp_def)
  then have "map_of (rev ?js) = map_of ?js"
    by (subst map_of_inject_set) (simp_all add: rev_map [symmetric] del: map_map)
  moreover have "map_of ?js k = map_option JString (map_of fs k)" for k
    by (induction fs) auto
  ultimately have "fmap_of_list (rev ?js) = fmmap JString (fmap_of_list fs)"
    by (intro fmap_ext) (simp add: fmlookup_of_list)
  then show ?thesis
    by (simp add: object_of_fields_def case_prod_unfold comp_def)
qed

lemma string_fields_received:
  assumes "string_conversions (entry_lib V)" and "distinct (map fst fs)"
    and "list_all (\<lambda>(k, v). valid_str v) fs"
    and "serde_roundtrip (entry_to_vec V) from_slice (fmap_of_list fs)"
  shows "\<exists>bm. entry_message V (entry_of_fields i (map (\<lambda>(k, v). (k, into_bytes_str v)) fs)) = Some bm \<and>
    mm_key (map_from from_slice bm) = None \<and> map_of (mm_fields (map_from from_slice bm)) = map_of fs"
proof -
  obtain json gs where j: "entry_to_vec V (JObject (fmmap JString (fmap_of_list fs))) = Inr json"
    "from_slice json = Some gs" "map_of gs = map_of fs"
    using assms(4) by (auto simp: serde_roundtrip_def fmlookup_of_list)
  have "list_all (\<lambda>(k, v). valid_utf8 v) (map (\<lambda>(k, v). (k, into_bytes_str v)) fs)"
    using assms(3) by (auto simp: list_all_iff valid_str_def)
  from entry_of_fields_message [OF assms(1) this, of "entry_to_vec V" json i] j
  show ?thesis
    by (simp add: object_of_string_fields [OF assms(2)] entry_message_def map_from_def parse_fields_def
        byte_extract_key_value_def byte_from_value_def)
qed

text \<open>
  C24: A \<open>MapMessage\<close> published with \<open>publish_stream\<close> and read back by the Redis Stream subscriber
  has the same fields and values; its key is not carried. The entry is what the server stores for
  the fields of the command that was sent.
\<close>

theorem redis_stream_carries_map:
  assumes "get_connection (client_open E) (connect E) (sp_host p) m = (Inr conn, m')"
    and "string_conversions (entry_lib V)" and "map_wf msg"
    and "serde_roundtrip (entry_to_vec V) from_slice (fmap_of_list (mm_fields msg))"
  shows "\<exists>fs bm. snd (snd (stream_publish_stream E xadd_maxlen map_into_stream_fields p msg m)) =
      [XaddMaxlen (sp_topic p) (sp_max_len p) ''*'' fs] \<and>
    entry_message V (entry_of_fields i fs) = Some bm \<and>
    mm_key (map_from from_slice bm) = None \<and>
    map_of (mm_fields (map_from from_slice bm)) = map_of (mm_fields msg)"
proof -
  have "distinct (map fst (mm_fields msg))" "list_all (\<lambda>(k, v). valid_str v) (mm_fields msg)"
    using assms(3) by (auto simp: map_wf_def hm_wf_def list_all_iff)
  from string_fields_received [OF assms(2) this assms(4), of i] show ?thesis
    using assms(1) by (simp add: stream_publish_stream_def map_into_stream_fields_def Let_def)
qed

text \<open>Libraries that convert strings as documented and encode one object, for the witness.\<close>

definition string_env :: "(unit, string) entry_env" where
  "string_env =
     \<lparr>entry_lib = \<lparr>from_redis_value = (\<lambda>v. case v of RSimpleString s \<Rightarrow> Inr s | RBulkString b \<Rightarrow> Inr (str_of_bytes b)
         | _ \<Rightarrow> Inl ''no string''), parsing_error = id, parsing_error_debug = id\<rparr>,
      entry_to_vec = (\<lambda>_. Inr [7]), entry_debug = (\<lambda>_. [])\<rparr>"

theorem redis_stream_carries_map_witness:
  "\<exists>fs bm. snd (snd (stream_publish_stream
      (\<lparr>client_open = Inr, connect = (\<lambda>_. Inr ()), redis_error_debug = id\<rparr> :: (string, unit, string) conn_env)
      (\<lambda>_ _. Inr ()) map_into_stream_fields (stream_publisher_new ''h'' ''t'') (map_from_fields [(''a'', ''1'')]) [])) =
      [XaddMaxlen ''t'' (Approx STREAM_LEN_DEFAULT) ''*'' fs] \<and>
    entry_message string_env (entry_of_fields ''1-0'' fs) = Some bm \<and>
    map_of (mm_fields (map_from (\<lambda>_. Some [(''a'', ''1'')]) bm)) = [''a'' \<mapsto> ''1'']"
proof -
  let ?E = "\<lparr>client_open = Inr, connect = (\<lambda>_. Inr ()), redis_error_debug = id\<rparr> :: (string, unit, string) conn_env"
  have 1: "get_connection (client_open ?E) (connect ?E) (sp_host (stream_publisher_new ''h'' ''t'')) [] = (Inr (), [(''h'', ())])"
    by (simp add: get_connection_eq_write get_connection_write_eq stream_publisher_new_def hm_insert_def hm_remove_def)
  have 2: "string_conversions (entry_lib string_env)"
    by (simp add: string_conversions_def string_env_def)
  have 3: "map_wf (map_from_fields [(''a'', ''1'')])"
    by (simp add: map_wf_def map_from_fields_def hm_wf_def valid_str_ascii)
  have 4: "serde_roundtrip (entry_to_vec string_env) (\<lambda>_. Some [(''a'', ''1'')]) (fmap_of_list (mm_fields (map_from_fields [(''a'', ''1'')])))"
    by (auto simp: serde_roundtrip_def map_from_fields_def string_env_def fun_eq_iff)
  have 5: "sp_topic (stream_publisher_new ''h'' ''t'') = ''t''"
    "sp_max_len (stream_publisher_new ''h'' ''t'') = Approx STREAM_LEN_DEFAULT"
    "map_of (mm_fields (map_from_fields [(''a'', ''1'')])) = [''a'' \<mapsto> ''1'']"
    by (simp_all add: stream_publisher_new_def map_from_fields_def)
  show ?thesis
    using redis_stream_carries_map [OF 1 2 3 4, of "\<lambda>_ _. Inr ()" "''1-0''", unfolded 5]
    by (elim exE conjE) (intro exI conjI)
qed

text \<open>
  Through Kafka a \<open>StringMessage\<close> arrives unchanged, key included: the record that was
  published, once consumed, is sent by the subscriber's task as a message that converts back to it.
\<close>

theorem kafka_carries_string:
  assumes "get_kafka_producer create elapsed (kp_host p) s = (Inr pr, s')" and "string_wf msg"
  shows "\<exists>r. snd (snd (kafka_publish K env_get create elapsed send string_into_bytes p msg s)) = [r] \<and>
    map_option string_from (runtime_convert_to_message (kafka_delivery part offset r)) = Some msg"
proof -
  let ?b = "string_into_bytes msg"
  have "snd (snd (kafka_publish K env_get create elapsed send string_into_bytes p msg s)) =
      [\<lparr>fr_topic = kp_topic p, fr_payload = bm_value ?b, fr_key = bm_key ?b\<rparr>]"
    using assms(1) by (simp add: kafka_publish_def Let_def split: option.splits)
  moreover have "string_from (byte_from_bytes (bm_key ?b) (bm_value ?b)) = msg"
    using string_msg.from_into_bytes [OF assms(2)] by (simp add: string_from_eq byte_defs option.map_ident)
  ultimately show ?thesis
    by (simp add: runtime_convert_to_message_def kafka_delivery_def)
qed

theorem kafka_carries_string_witness:
  "\<exists>r. map_option string_from (runtime_convert_to_message (kafka_delivery 0 0 r)) = Some (string_new (Some ''k'') ''v'')"
proof -
  have 1: "get_kafka_producer (\<lambda>_. Inr ()) 0 (kp_host (kafka_publisher_new ''h'' ''t'')) producers_init =
      (Inr (), snd (get_kafka_producer (\<lambda>_. Inr ()) 0 (kp_host (kafka_publisher_new ''h'' ''t'')) producers_init))"
    by (simp add: get_kafka_producer_eq_write get_producer_write_def producers_init_def Let_def)
  have 2: "string_wf (string_new (Some ''k'') ''v'')"
    by (simp add: string_wf_def string_new_def valid_str_ascii)
  show ?thesis
    using kafka_carries_string [OF 1 2, of example_kafka "\<lambda>_ d. d" "\<lambda>_ _ _. Inr ()" 0 0] by blast
qed

text \<open>
  Through Redis pub/sub a \<open>StringMessage\<close> arrives with its value and without its key: the
  payload that was published, once received as a bulk string, is forwarded as it is.
\<close>

theorem redis_pubsub_carries_value:
  assumes "get_connection opn con (rp_host p) m = (Inr conn, m')" and "string_wf msg"
  shows "\<exists>payload. snd (snd (redis_publish opn con dbg publish_on string_into_bytes p msg m)) =
      [PublishCmd (rp_topic p) payload] \<and>
    map string_from (sends (fst (drain_messages L [Incoming (Inr (RBulkString payload))]))) =
      [string_new None (sm_value msg)]"
proof -
  have "from_utf8_lossy (into_bytes_str (sm_value msg)) = sm_value msg"
    using assms(2) by (simp add: string_wf_def)
  then show ?thesis
    using assms(1)
    by (simp add: redis_publish_def drain_payload_def Let_def string_defs byte_defs)
qed

theorem redis_pubsub_carries_value_witness:
  "\<exists>payload. map string_from (sends (fst (drain_messages
      (\<lparr>from_redis_value = (\<lambda>_. Inl []), parsing_error = id, parsing_error_debug = id\<rparr> :: (unit, string) redis_lib)
      [Incoming (Inr (RBulkString payload))]))) = [string_new None ''v'']"
proof -
  have 1: "get_connection Inr (\<lambda>_. Inr ()) (rp_host (redis_publisher_new ''h'' ''t'')) [] = (Inr () :: string + unit, [(''h'', ())])"
    by (simp add: get_connection_eq_write get_connection_write_eq redis_publisher_new_def hm_insert_def hm_remove_def)
  have 2: "string_wf (string_new (Some ''k'') ''v'')"
    by (simp add: string_wf_def string_new_def valid_str_ascii)
  show ?thesis
    using redis_pubsub_carries_value [OF 1 2, of id "\<lambda>_ _. Inr ()"
        "\<lparr>from_redis_value = (\<lambda>_. Inl []), parsing_error = id, parsing_error_debug = id\<rparr> :: (unit, string) redis_lib"]
    unfolding string_new_def string_message.simps by (elim exE) (rule exI, erule conjunct2)
qed

end
